(* ===== verification/Prelude.thy ===== *)
theory Prelude
  imports Main "HOL-Library.Word" "HOL-Library.Char_ord" "HOL-Library.List_Lexorder"
begin

text \<open>
  Generic material shared by every component: Go values (byte strings, 64-bit integers,
  instants), the error monad in which fallible code is written, big-endian encoding and
  the facts about lists, words and finite sets the component theories use.
\<close>

named_theorems go_simps \<open>unfolding rules of the small Go helpers\<close>

section \<open>Go values\<close>

text \<open>
  A Go string or byte slice is a list of bytes; HOL's \<open>char\<close> is exactly a byte, and
  \<open><\<close> on \<open>string\<close> (Char\_ord, List\_Lexorder) is the byte-wise order of Go and bbolt.
\<close>

type_synonym bytes = string
type_synonym u64 = "64 word"

text \<open>Conversion of an unbounded integer to a Go \<open>int64\<close>: two's complement wrap-around.\<close>

definition wrap64 :: "int \<Rightarrow> int" where
  "wrap64 x = sint (word_of_int x :: 64 word)"

definition int64_range :: "int \<Rightarrow> bool" where
  "int64_range x \<longleftrightarrow> - (2 ^ 63) \<le> x \<and> x < 2 ^ 63"

lemma wrap64_id: "int64_range x \<Longrightarrow> wrap64 x = x"
  by (simp add: wrap64_def int64_range_def sint_sbintrunc' signed_take_bit_int_eq_self)

lemma wrap64_range: "int64_range (wrap64 x)"
proof -
  have "- (2 ^ 63) \<le> sint (word_of_int x :: 64 word)"
    using sint_ge [of "word_of_int x :: 64 word"] by simp
  moreover have "sint (word_of_int x :: 64 word) < 2 ^ 63"
    using sint_lt [of "word_of_int x :: 64 word"] by simp
  ultimately show ?thesis by (simp add: wrap64_def int64_range_def)
qed

lemma wrap64_wrap64 [simp]: "wrap64 (wrap64 x) = wrap64 x"
  by (simp add: wrap64_id wrap64_range)

section \<open>Fallible code\<close>

text \<open>
  \<open>Inl\<close> is the error Go returns, \<open>Inr\<close> the value. \<open>sbind x f\<close> is the Go idiom
  \<^verbatim>\<open>if err != nil { return err }\<close> followed by the rest of the function.
\<close>

definition sbind :: "'e + 'a \<Rightarrow> ('a \<Rightarrow> 'e + 'b) \<Rightarrow> 'e + 'b" where
  "sbind x f = (case x of Inl e \<Rightarrow> Inl e | Inr y \<Rightarrow> f y)"

lemma sbind_simps [simp]: "sbind (Inl e) f = Inl e" "sbind (Inr y) f = f y"
  by (simp_all add: sbind_def)

lemma sbind_Inr [simp]: "sbind x f = Inr z \<longleftrightarrow> (\<exists>y. x = Inr y \<and> f y = Inr z)"
  by (cases x) simp_all

lemma sbind_cong [fundef_cong]:
  "x = x' \<Longrightarrow> (\<And>y. x' = Inr y \<Longrightarrow> f y = f' y) \<Longrightarrow> sbind x f = sbind x' f'"
  by (cases x') auto

text \<open>A guard: the Go idiom \<^verbatim>\<open>if bad { return err }\<close>.\<close>

definition fail_if :: "bool \<Rightarrow> 'e \<Rightarrow> 'e + unit" where
  "fail_if b e = (if b then Inl e else Inr ())"

lemma fail_if_simps [simp]: "fail_if True e = Inl e" "fail_if False e = Inr ()"
  by (simp_all add: fail_if_def)

lemma fail_if_Inr [simp]: "fail_if b e = Inr u \<longleftrightarrow> \<not> b"
  by (simp add: fail_if_def)

lemma fail_if_Inl [simp]: "fail_if b e = Inl e' \<longleftrightarrow> b \<and> e' = e"
  by (auto simp: fail_if_def)

section \<open>Big-endian integers\<close>

text \<open>
  \<^verbatim>\<open>binary.BigEndian.PutUint64\<close> and \<^verbatim>\<open>binary.BigEndian.Uint64\<close>. The recursion is on
  the number of bytes still to write, most significant byte first.
\<close>

fun be_bytes :: "nat \<Rightarrow> nat \<Rightarrow> bytes" where
  "be_bytes 0 x = []"
| "be_bytes (Suc n) x = char_of (x div 256 ^ n) # be_bytes n x"

fun be_value :: "bytes \<Rightarrow> nat" where
  "be_value [] = 0"
| "be_value (c # cs) = of_char c * 256 ^ length cs + be_value cs"

definition put_uint64 :: "u64 \<Rightarrow> bytes" where
  "put_uint64 w = be_bytes 8 (unat w)"

definition get_uint64 :: "bytes \<Rightarrow> u64" where
  "get_uint64 b = of_nat (be_value (take 8 b))"

lemma length_be_bytes [simp]: "length (be_bytes n x) = n"
  by (induction n) auto

lemma length_put_uint64 [simp]: "length (put_uint64 w) = 8"
  by (simp add: put_uint64_def)

lemma digit_split: "(x::nat) mod 256 ^ Suc n = (x div 256 ^ n mod 256) * 256 ^ n + x mod 256 ^ n"
  using mod_mult2_eq [of x "256 ^ n" 256] by (simp only: power_Suc2 mult.commute)

lemma be_value_be_bytes: "be_value (be_bytes n x) = x mod 256 ^ n"
proof (induction n)
  case 0
  then show ?case by simp
next
  case (Suc n)
  then show ?case by (simp only: digit_split) simp
qed

lemma get_put_uint64 [simp]: "get_uint64 (put_uint64 w @ rest) = w"
proof -
  have "be_value (be_bytes 8 (unat w)) = unat w"
    using unsigned_less [of w, where ?'a = nat] by (simp add: be_value_be_bytes)
  then show ?thesis by (simp add: get_uint64_def put_uint64_def)
qed

lemma put_uint64_inj [simp]: "put_uint64 a = put_uint64 b \<longleftrightarrow> a = b"
  by (metis append_Nil2 get_put_uint64)

text \<open>The byte order of the encodings is the numeric order of the encoded values.\<close>

lemma char_of_less: "(char_of (a::nat) < char_of b) \<longleftrightarrow> a mod 256 < b mod 256"
  by (simp add: less_char_def)

lemma char_of_eq: "(char_of (a::nat) = char_of b) \<longleftrightarrow> a mod 256 = b mod 256"
  by (metis of_char_of char_of_mod_256)

lemma split_digit_less:
  fixes a b :: nat
  assumes "x < k" and "y < k"
  shows "(a * k + x < b * k + y) \<longleftrightarrow> a < b \<or> (a = b \<and> x < y)"
proof (cases a b rule: linorder_cases)
  case less
  then have "a * k + k \<le> b * k" by (metis Suc_leI add.commute mult_Suc mult_le_mono1)
  then have "a * k + x < b * k + y" using assms(1) by linarith
  with less show ?thesis by simp
next
  case equal
  then show ?thesis by simp
next
  case greater
  then have "b * k + k \<le> a * k" by (metis Suc_leI add.commute mult_Suc mult_le_mono1)
  then have "\<not> a * k + x < b * k + y" using assms(2) by linarith
  with greater show ?thesis by simp
qed

lemma be_bytes_less: "be_bytes n x < be_bytes n y \<longleftrightarrow> x mod 256 ^ n < y mod 256 ^ n"
proof (induction n)
  case 0
  then show ?case by simp
next
  case (Suc n)
  have "be_bytes (Suc n) x < be_bytes (Suc n) y \<longleftrightarrow>
      x div 256 ^ n mod 256 < y div 256 ^ n mod 256 \<or>
      (x div 256 ^ n mod 256 = y div 256 ^ n mod 256 \<and> x mod 256 ^ n < y mod 256 ^ n)"
    using Suc.IH by (auto simp: char_of_less char_of_eq)
  also have "\<dots> \<longleftrightarrow> x mod 256 ^ Suc n < y mod 256 ^ Suc n"
    unfolding digit_split by (rule split_digit_less [symmetric]) simp_all
  finally show ?case .
qed

lemma put_uint64_less [simp]: "put_uint64 a < put_uint64 b \<longleftrightarrow> a < b"
proof -
  have "unat a mod 256 ^ 8 = unat a" and "unat b mod 256 ^ 8 = unat b"
    using unsigned_less [of a, where ?'a = nat] unsigned_less [of b, where ?'a = nat] by simp_all
  then show ?thesis by (simp add: put_uint64_def be_bytes_less word_less_nat_alt)
qed

lemma list_less_append:
  fixes u v :: "'a::linorder list"
  assumes "length u = length v"
  shows "u @ x < v @ y \<longleftrightarrow> u < v \<or> (u = v \<and> x < y)"
  using assms by (induction u v rule: list_induct2) auto

section \<open>Hexadecimal\<close>

text \<open>\<^verbatim>\<open>hex.EncodeToString\<close>: two lower-case digits per byte.\<close>

definition hex_digit :: "nat \<Rightarrow> char" where
  "hex_digit n = ''0123456789abcdef'' ! (n mod 16)"

definition hex_encode :: "bytes \<Rightarrow> string" where
  "hex_encode b = concat (map (\<lambda>c. [hex_digit (of_char c div 16), hex_digit (of_char c)]) b)"

lemma length_hex_encode [simp]: "length (hex_encode b) = 2 * length b"
  by (induction b) (simp_all add: hex_encode_def)

section \<open>Instants\<close>

text \<open>
  A Go \<^verbatim>\<open>time.Time\<close>: the instant in nanoseconds since the Unix epoch and the offset (in
  seconds) of its location. Go's zero time is 1 January of year 1, 00:00:00 UTC.
\<close>

record gotime =
  t_ns :: int
  t_off :: int

definition zero_ns :: int where
  "zero_ns = - 62135596800 * 1000000000"

definition zero_time :: gotime where
  "zero_time = \<lparr>t_ns = zero_ns, t_off = 0\<rparr>"

definition is_zero :: "gotime \<Rightarrow> bool" where
  "is_zero t \<longleftrightarrow> t_ns t = zero_ns"

definition nanosecond :: "gotime \<Rightarrow> int" where
  "nanosecond t = t_ns t mod 1000000000"

definition utc :: "gotime \<Rightarrow> gotime" where
  "utc t = t\<lparr>t_off := 0\<rparr>"

definition unix_time :: "int \<Rightarrow> gotime" where
  "unix_time ns = \<lparr>t_ns = ns, t_off = 0\<rparr>"

text \<open>\<^verbatim>\<open>Truncate(time.Microsecond)\<close>: down to a multiple of 1000ns since the zero time.\<close>

definition truncate_us :: "gotime \<Rightarrow> gotime" where
  "truncate_us t = t\<lparr>t_ns := t_ns t - t_ns t mod 1000\<rparr>"

text \<open>
  \<^verbatim>\<open>Year()\<close> of the proleptic Gregorian calendar, by 400-, 100-, 4- and 1-year cycles counted
  from 1 January of year 1 in the location of the value.
\<close>

definition year :: "gotime \<Rightarrow> int" where
  "year t =
     (let d = (t_ns t - zero_ns + t_off t * 1000000000) div 86400000000000;
          n400 = d div 146097; d1 = d mod 146097;
          n100 = min 3 (d1 div 36524); d2 = d1 - n100 * 36524;
          n4 = d2 div 1461; d3 = d2 mod 1461;
          n1 = min 3 (d3 div 365)
      in 400 * n400 + 100 * n100 + 4 * n4 + n1 + 1)"

lemma truncate_us_ns: "t_ns (truncate_us t) = t_ns t - t_ns t mod 1000"
  unfolding truncate_us_def by (cases t) simp

lemma truncate_us_props:
  "nanosecond (truncate_us t) mod 1000 = 0" "t_ns (truncate_us t) \<le> t_ns t"
  "t_ns t < t_ns (truncate_us t) + 1000"
proof -
  have dvd: "(1000::int) dvd 1000000000" by simp
  have "(t_ns t - t_ns t mod 1000) mod 1000000000 mod 1000 = (t_ns t - t_ns t mod 1000) mod 1000"
    by (rule mod_mod_cancel [OF dvd])
  also have "\<dots> = 0" unfolding minus_mod_eq_mult_div by (rule mod_mult_self1_is_0)
  finally show "nanosecond (truncate_us t) mod 1000 = 0"
    unfolding nanosecond_def truncate_us_ns .
  have "0 \<le> t_ns t mod 1000" and "t_ns t mod 1000 < 1000"
    by (rule pos_mod_sign, simp, rule pos_mod_bound, simp)
  then show "t_ns (truncate_us t) \<le> t_ns t" and "t_ns t < t_ns (truncate_us t) + 1000"
    unfolding truncate_us_ns by linarith+
qed

section \<open>Finite sets of keys\<close>

lemma card_insert_int:
  "finite A \<Longrightarrow> x \<notin> A \<Longrightarrow> int (card (insert x A)) = int (card A) + 1"
  by simp

lemma card_remove_int:
  assumes "finite A" and "x \<in> A"
  shows "int (card (A - {x})) = int (card A) - 1"
proof -
  from assms have "card A = Suc (card (A - {x}))" by (rule card.remove)
  then show ?thesis by simp
qed

end
