(* ===== verification/Telemetry.thy ===== *)
theory Telemetry
  imports Prelude Complex_Main
begin

text \<open>
  internal/telemetry/event.go: the wire contract. \<open>measurement\<close> and \<open>event\<close> are the Go
  structs (the embedded struct is the field \<open>e_Measurement\<close>), \<open>NewID\<close> the random
  identifiers and \<open>Measurement_Validate\<close>, \<open>Event_Validate\<close> the two \<open>Validate\<close> methods.
\<close>

section \<open>Data\<close>

text \<open>
  A Go \<open>float64\<close> as far as the code looks into it: NaN, the infinities (with their sign)
  and the finite values. Only comparisons are made on it; nothing is computed.
\<close>

datatype f64 = NaN | Inf bool | Finite rat

record measurement =
  m_SourceTimestamp :: gotime
  m_GPUUUID :: string
  m_MetricName :: string
  m_Value :: f64
  m_LocalGPUID :: string
  m_Device :: string
  m_ModelName :: string
  m_Hostname :: string
  m_Container :: string
  m_Pod :: string
  m_Namespace :: string
  m_LabelsRaw :: string

record event =
  e_SchemaVersion :: int
  e_EventID :: string
  e_ProducerInstanceID :: string
  e_ReplayIndex :: u64
  e_RowIndex :: u64
  e_ProcessedAt :: gotime
  e_Measurement :: measurement

definition SchemaVersion :: int where
  "SchemaVersion = 1"

datatype validation_error =
  Unsupported_schema int
| Bad_ids
| Bad_row_or_time
| Missing_fields
| Not_finite

section \<open>Operations\<close>

text \<open>
  \<open>NewID\<close>: the argument is what \<^verbatim>\<open>rand.Read\<close> delivered, the 16 random bytes or an error.
\<close>

definition NewID :: "bytes option \<Rightarrow> string option" where
  "NewID rnd = (case rnd of None \<Rightarrow> None | Some b \<Rightarrow> Some (hex_encode b))"

definition is_nan :: "f64 \<Rightarrow> bool" where
  "is_nan v = (case v of NaN \<Rightarrow> True | _ \<Rightarrow> False)"

definition is_inf :: "f64 \<Rightarrow> bool" where
  "is_inf v = (case v of Inf _ \<Rightarrow> True | _ \<Rightarrow> False)"

definition Measurement_Validate :: "measurement \<Rightarrow> validation_error + unit" where
  "Measurement_Validate m =
     (if m_GPUUUID m = [] \<or> m_MetricName m = [] \<or> is_zero (m_SourceTimestamp m)
      then Inl Missing_fields
      else if is_nan (m_Value m) \<or> is_inf (m_Value m) then Inl Not_finite
      else Inr ())"

definition Event_Validate :: "event \<Rightarrow> validation_error + unit" where
  "Event_Validate e =
     (if e_SchemaVersion e \<noteq> SchemaVersion then Inl (Unsupported_schema (e_SchemaVersion e))
      else if e_EventID e = [] \<or> length (e_EventID e) > 128
           \<or> e_ProducerInstanceID e = [] \<or> length (e_ProducerInstanceID e) > 128
      then Inl Bad_ids
      else if e_RowIndex e = 0 \<or> is_zero (e_ProcessedAt e)
           \<or> nanosecond (e_ProcessedAt e) mod 1000 \<noteq> 0
      then Inl Bad_row_or_time
      else Measurement_Validate (e_Measurement e))"

section \<open>Facts\<close>

lemma Measurement_Validate_ok:
  "Measurement_Validate m = Inr () \<longleftrightarrow>
     m_GPUUUID m \<noteq> [] \<and> m_MetricName m \<noteq> [] \<and> \<not> is_zero (m_SourceTimestamp m)
     \<and> (\<exists>q. m_Value m = Finite q)"
  by (cases "m_Value m") (auto simp: Measurement_Validate_def is_nan_def is_inf_def)

lemma Event_Validate_ok_id:
  "Event_Validate e = Inr u \<Longrightarrow> e_EventID e \<noteq> [] \<and> length (e_EventID e) \<le> 128"
  by (auto simp: Event_Validate_def split: if_splits)

lemma hex_digit_inj: "a < 16 \<Longrightarrow> b < 16 \<Longrightarrow> hex_digit a = hex_digit b \<Longrightarrow> a = b"
proof -
  assume a: "a < 16" and b: "b < 16" and eq: "hex_digit a = hex_digit b"
  have d: "distinct ''0123456789abcdef''" by simp
  have "''0123456789abcdef'' ! a = ''0123456789abcdef'' ! b"
    using eq a b by (simp add: hex_digit_def)
  with d a b show "a = b" by (subst (asm) nth_eq_iff_index_eq) simp_all
qed

lemma hex_byte_inj:
  assumes "hex_digit (of_char c div 16) = hex_digit (of_char d div 16)"
    and "hex_digit (of_char c) = hex_digit (of_char d)"
  shows "c = d"
proof -
  have hi: "of_char c div 16 = (of_char d div 16 :: nat)"
  proof (rule hex_digit_inj [OF _ _ assms(1)])
    show "of_char c div 16 < (16::nat)" and "of_char d div 16 < (16::nat)"
      by (simp_all add: div_less_iff_less_mult)
  qed
  have "hex_digit (of_char c mod 16) = hex_digit (of_char d mod 16)"
    using assms(2) by (simp add: hex_digit_def)
  then have "of_char c mod 16 = (of_char d mod 16 :: nat)"
    by (rule hex_digit_inj [rotated 2]) simp_all
  with hi have "of_char c = (of_char d :: nat)"
    by (metis div_mult_mod_eq)
  then show ?thesis by simp
qed

lemma hex_encode_inj: "hex_encode a = hex_encode b \<Longrightarrow> a = b"
proof (induction a arbitrary: b)
  case Nil
  then show ?case by (cases b) (simp_all add: hex_encode_def)
next
  case (Cons c a)
  then obtain d b' where b: "b = d # b'" by (cases b) (auto simp: hex_encode_def)
  with Cons.prems have "hex_encode a = hex_encode b'" and "c = d"
    by (auto simp: hex_encode_def intro: hex_byte_inj)
  with b Cons.IH show ?case by simp
qed

lemma NewID_length: "NewID rnd = Some t \<Longrightarrow> rnd = Some b \<Longrightarrow> length t = 2 * length b"
  by (auto simp: NewID_def)

section \<open>Properties\<close>

text \<open>
  An event passes \<open>Validate\<close> exactly when it has schema version 1, both identifiers
  have 1 to 128 bytes, the row index is positive, the processing time is set and has
  microsecond precision, and the measurement names a GPU, a metric and a source time and
  carries a finite value.
\<close>

lemma event_valid_iff:
  "Event_Validate e = Inr () \<longleftrightarrow>
     e_SchemaVersion e = 1
     \<and> length (e_EventID e) \<in> {1..128} \<and> length (e_ProducerInstanceID e) \<in> {1..128}
     \<and> 0 < e_RowIndex e \<and> \<not> is_zero (e_ProcessedAt e) \<and> 1000 dvd t_ns (e_ProcessedAt e)
     \<and> m_GPUUUID (e_Measurement e) \<noteq> [] \<and> m_MetricName (e_Measurement e) \<noteq> []
     \<and> \<not> is_zero (m_SourceTimestamp (e_Measurement e))
     \<and> (\<exists>q. m_Value (e_Measurement e) = Finite q)"
proof -
  have "nanosecond t mod 1000 = t_ns t mod 1000" for t
    unfolding nanosecond_def by (rule mod_mod_cancel) simp
  then have us: "nanosecond t mod 1000 = 0 \<longleftrightarrow> 1000 dvd t_ns t" for t
    by (simp add: dvd_eq_mod_eq_0)
  have len: "length s \<in> {1..128} \<longleftrightarrow> s \<noteq> [] \<and> \<not> length s > 128" for s :: string
    by (cases s) auto
  have "Event_Validate e = Inr () \<longleftrightarrow>
      e_SchemaVersion e = SchemaVersion
      \<and> length (e_EventID e) \<in> {1..128} \<and> length (e_ProducerInstanceID e) \<in> {1..128}
      \<and> e_RowIndex e \<noteq> 0 \<and> \<not> is_zero (e_ProcessedAt e)
      \<and> nanosecond (e_ProcessedAt e) mod 1000 = 0
      \<and> Measurement_Validate (e_Measurement e) = Inr ()"
    unfolding Event_Validate_def len by auto
  also have "e_RowIndex e \<noteq> 0 \<longleftrightarrow> 0 < e_RowIndex e"
    by (simp add: word_gt_0)
  finally show ?thesis
    unfolding us Measurement_Validate_ok SchemaVersion_def by blast
qed

text \<open>
  The tokens and producer identifiers \<open>NewID\<close> makes from 16 random bytes always have the
  32 characters \<open>validateReceipt\<close> demands, and different random bytes give different
  identifiers.
\<close>

lemma NewID_distinct:
  assumes "length a = 16" and "length b = 16"
  shows "\<exists>s t. NewID (Some a) = Some s \<and> NewID (Some b) = Some t
           \<and> length s = 32 \<and> length t = 32 \<and> (s = t \<longleftrightarrow> a = b)"
  using assms by (auto simp: NewID_def dest: hex_encode_inj)

end
