(* ===== verification/Queue_Types.thy ===== *)
theory Queue_Types
  imports Telemetry
begin

text \<open>
  The data of the queue package: the wire types of internal/queue/protocol.go and the
  options, statistics, stored records and errors of internal/queue/durable.go and
  internal/queue/memory.go.
\<close>

section \<open>Protocol (protocol.go)\<close>

definition MaxRequestBytes :: int where
  "MaxRequestBytes = 64 * 1024"

record delivery =
  d_Event :: event
  d_Token :: string
  d_ExpiresAt :: gotime
  d_Attempt :: u64

record ack_request =
  a_EventID :: string
  a_Token :: string

record nack_request =
  n_EventID :: string
  n_Token :: string
  n_Permanent :: bool
  n_DelayMillis :: int
  n_Reason :: string

section \<open>Errors\<close>

text \<open>What a wrapped \<open>ErrInvalid\<close> says, one constructor per message of the code.\<close>

datatype invalid_reason =
  Invalid_event validation_error
| Invalid_encoding
| Payload_too_large
| Bad_wait
| Bad_receipt
| Bad_nack
| Bad_options

text \<open>
  \<open>Canceled\<close> and \<open>DeadlineExceeded\<close> are the errors of a context, \<open>Decode_error\<close> a failed
  \<^verbatim>\<open>json.Unmarshal\<close>, \<open>Rand_error\<close> a failed \<^verbatim>\<open>rand.Read\<close>, \<open>Os_error\<close> an error of the
  file system and \<open>Bolt_error\<close> an error of bbolt.
\<close>

datatype queue_error =
  ErrClosed
| ErrStaleLease
| ErrInvalid invalid_reason
| ErrNoReady
| ErrFull
| ErrDedupFull
| ErrConflict
| Canceled
| DeadlineExceeded
| Decode_error
| Rand_error
| Unsupported_version
| Os_error string
| Bolt_error string

section \<open>Durable broker: options, statistics, records\<close>

definition activeOverhead :: int where "activeOverhead = 4096"
definition completedOverhead :: int where "completedOverhead = 1024"

definition Millisecond :: int where "Millisecond = 1000000"
definition Second :: int where "Second = 1000000000"
definition Minute :: int where "Minute = 60 * Second"
definition Hour :: int where "Hour = 60 * Minute"

definition MaxWait :: int where "MaxWait = Second * 10"
definition MaxNackDelay :: int where "MaxNackDelay = Hour"

record durable_options =
  o_Path :: string
  o_Capacity :: int
  o_DedupCapacity :: int
  o_QuarantineCapacity :: int
  o_MaxPayloadBytes :: int
  o_MaxLogicalBytes :: int
  o_LeaseDuration :: int
  o_CompletionTTL :: int
  o_OpenTimeout :: int
  o_CleanupInterval :: int
  o_CleanupBatch :: int

definition DefaultDurableOptions :: "string \<Rightarrow> durable_options" where
  "DefaultDurableOptions path =
     \<lparr>o_Path = path, o_Capacity = 1000, o_DedupCapacity = 10000, o_QuarantineCapacity = 100,
      o_MaxPayloadBytes = MaxRequestBytes - 1024, o_MaxLogicalBytes = 64 * 2 ^ 20,
      o_LeaseDuration = 30 * Second, o_CompletionTTL = Hour, o_OpenTimeout = Second,
      o_CleanupInterval = Second, o_CleanupBatch = 100\<rparr>"

definition Options_Validate :: "durable_options \<Rightarrow> queue_error + unit" where
  "Options_Validate p =
     (if o_Path p = [] \<or> o_Capacity p < 1 \<or> o_Capacity p > 100000
       \<or> o_DedupCapacity p < o_Capacity p \<or> o_DedupCapacity p > 1000000
       \<or> o_QuarantineCapacity p < 1 \<or> o_QuarantineCapacity p > 100000
       \<or> o_MaxPayloadBytes p < 1 \<or> o_MaxPayloadBytes p > MaxRequestBytes - 1024
       \<or> o_MaxLogicalBytes p < activeOverhead + o_MaxPayloadBytes p
       \<or> o_LeaseDuration p < Millisecond \<or> o_LeaseDuration p > 24 * Hour
       \<or> o_CompletionTTL p \<le> 0 \<or> o_CompletionTTL p > 365 * 24 * Hour
       \<or> o_OpenTimeout p \<le> 0 \<or> o_CleanupInterval p \<le> 0
       \<or> o_CleanupBatch p < 1 \<or> o_CleanupBatch p > 1000
      then Inl (ErrInvalid Bad_options) else Inr ())"

text \<open>
  The values of the field \<open>State\<close> of a stored record; \<open>StNone\<close> is the empty string of Go's
  zero record.
\<close>

datatype rstate = StNone | StReady | StLeased | StCompleted | StQuarantined

text \<open>The 32 zero bytes of a Go \<^verbatim>\<open>[32]byte{}\<close>.\<close>

definition zero_hash :: bytes where
  "zero_hash = replicate 32 (char_of (0::nat))"

record disk_record =
  r_Event :: bytes
  r_Hash :: bytes
  r_State :: rstate
  r_Sequence :: u64
  r_Attempt :: u64
  r_Due :: int
  r_Token :: string
  r_LastNackToken :: string
  r_LastNackHash :: bytes
  r_Reason :: string

definition zero_record :: disk_record where
  "zero_record = \<lparr>r_Event = [], r_Hash = zero_hash, r_State = StNone, r_Sequence = 0,
     r_Attempt = 0, r_Due = 0, r_Token = [], r_LastNackToken = [],
     r_LastNackHash = zero_hash, r_Reason = []\<rparr>"

record durable_stats =
  s_Ready :: int
  s_Leased :: int
  s_Quarantined :: int
  s_Completed :: int
  s_LogicalBytes :: int
  s_Accepted :: u64
  s_Acked :: u64
  s_Deliveries :: u64
  s_Redeliveries :: u64
  s_FileBytes :: int
  s_Capacity :: int
  s_MaxLogicalBytes :: int
  s_CleanupFailures :: u64

definition zero_stats :: durable_stats where
  "zero_stats = \<lparr>s_Ready = 0, s_Leased = 0, s_Quarantined = 0, s_Completed = 0,
     s_LogicalBytes = 0, s_Accepted = 0, s_Acked = 0, s_Deliveries = 0, s_Redeliveries = 0,
     s_FileBytes = 0, s_Capacity = 0, s_MaxLogicalBytes = 0, s_CleanupFailures = 0\<rparr>"

lemmas unit_defs = Millisecond_def Second_def Minute_def Hour_def MaxWait_def MaxNackDelay_def
  MaxRequestBytes_def activeOverhead_def completedOverhead_def

text \<open>The limits a validated configuration guarantees, as the later proofs use them.\<close>

lemma Options_Validate_ok:
  assumes "Options_Validate p = Inr ()"
  shows "1 \<le> o_Capacity p" and "o_Capacity p \<le> o_DedupCapacity p"
    and "1 \<le> o_QuarantineCapacity p" and "1 \<le> o_CleanupBatch p"
    and "0 < o_LeaseDuration p" and "o_LeaseDuration p \<le> 86400000000000"
    and "0 < o_CompletionTTL p" and "o_CompletionTTL p \<le> 31536000000000000"
    and "o_MaxPayloadBytes p \<le> 64512"
  using assms by (auto simp: Options_Validate_def unit_defs split: if_splits)

end
