(* ===== verification/Bolt.thy ===== *)
theory Bolt
  imports Queue_Types "HOL-Library.AList"
begin

text \<open>
  What the durable broker uses of code that is not in the repository, as a parameter: the
  operations of a bbolt transaction on the broker's five buckets, the JSON encoding of
  events and NACK requests and SHA-256. The locale \<open>bolt_db\<close> states the documented behaviour
  of bbolt the broker relies on; \<open>mem_env\<close> is a concrete database that satisfies it.
\<close>

section \<open>The parameter\<close>

text \<open>The five buckets \<^verbatim>\<open>OpenDurable\<close> creates.\<close>

datatype bucket = Records | Ready | Leases | Completions | Metadata

text \<open>
  What a bucket stores under a key: the JSON document of a record or of the statistics, as
  \<^verbatim>\<open>putJSON\<close> wrote it, or plain bytes (an event id in an index, the version).
\<close>

datatype doc = DocRecord disk_record | DocStats durable_stats | DocBytes bytes

text \<open>
  \<open>bget\<close> is \<^verbatim>\<open>Bucket.Get\<close>, \<open>bput\<close> \<^verbatim>\<open>Bucket.Put\<close>, \<open>bdelete\<close> \<^verbatim>\<open>Bucket.Delete\<close>, \<open>bfirst\<close>
  \<^verbatim>\<open>Cursor().First()\<close>, \<open>bnext\<close> \<^verbatim>\<open>Bucket.NextSequence\<close>, \<open>bseq\<close> \<^verbatim>\<open>Bucket.Sequence\<close> and \<open>bcreate\<close>
  \<^verbatim>\<open>CreateBucketIfNotExists\<close>, all on the uncommitted state of one transaction. A failed
  write returns \<open>Inl\<close>. \<open>btext\<close> is the bytes a stored document consists of, which is what the
  code reads an index entry as (\<^verbatim>\<open>string(v)\<close>). \<open>marshal\<close> and \<open>unmarshal\<close> are \<^verbatim>\<open>json.Marshal\<close> and \<^verbatim>\<open>json.Unmarshal\<close> on
  events, \<open>marshal_nack\<close> is \<^verbatim>\<open>json.Marshal\<close> on NACK requests, \<open>sha256\<close> is \<^verbatim>\<open>sha256.Sum256\<close>.
\<close>

record 'db env =
  bget :: "'db \<Rightarrow> bucket \<Rightarrow> bytes \<Rightarrow> doc option"
  bput :: "'db \<Rightarrow> bucket \<Rightarrow> bytes \<Rightarrow> doc \<Rightarrow> string + 'db"
  bdelete :: "'db \<Rightarrow> bucket \<Rightarrow> bytes \<Rightarrow> string + 'db"
  bfirst :: "'db \<Rightarrow> bucket \<Rightarrow> (bytes \<times> doc) option"
  bnext :: "'db \<Rightarrow> bucket \<Rightarrow> string + (u64 \<times> 'db)"
  bseq :: "'db \<Rightarrow> bucket \<Rightarrow> u64"
  bcreate :: "'db \<Rightarrow> bucket \<Rightarrow> string + 'db"
  btext :: "doc \<Rightarrow> bytes"
  marshal :: "event \<Rightarrow> bytes option"
  unmarshal :: "bytes \<Rightarrow> event option"
  marshal_nack :: "nack_request \<Rightarrow> bytes"
  sha256 :: "bytes \<Rightarrow> bytes"

section \<open>The documented behaviour of bbolt\<close>

locale bolt_db =
  fixes E :: "'db env"
  assumes get_put: "bput E db b k v = Inr db' \<Longrightarrow>
      bget E db' c l = (if c = b \<and> l = k then Some v else bget E db c l)"
    and get_delete: "bdelete E db b k = Inr db' \<Longrightarrow>
      bget E db' c l = (if c = b \<and> l = k then None else bget E db c l)"
    and get_next: "bnext E db b = Inr (n, db') \<Longrightarrow> bget E db' c l = bget E db c l"
    and get_create: "bcreate E db b = Inr db' \<Longrightarrow> bget E db' c l = bget E db c l"
    and seq_put: "bput E db b k v = Inr db' \<Longrightarrow> bseq E db' c = bseq E db c"
    and seq_delete: "bdelete E db b k = Inr db' \<Longrightarrow> bseq E db' c = bseq E db c"
    and seq_next: "bnext E db b = Inr (n, db') \<Longrightarrow>
      n = bseq E db b + 1 \<and> bseq E db' c = (if c = b then n else bseq E db c)"
    and seq_create: "bcreate E db b = Inr db' \<Longrightarrow> bseq E db' c = bseq E db c"
    and first_None: "bfirst E db b = None \<longleftrightarrow> (\<forall>k. bget E db b k = None)"
    and first_Some: "bfirst E db b = Some (k, v) \<Longrightarrow>
      bget E db b k = Some v \<and> (\<forall>l. bget E db b l \<noteq> None \<longrightarrow> k \<le> l)"
    and text_bytes: "btext E (DocBytes x) = x"
    and finite_keys: "finite {k. bget E db b k \<noteq> None}"
begin

lemma first_get: "bfirst E db b = Some (k, v) \<Longrightarrow> bget E db b k = Some v"
  using first_Some by blast

lemma first_least:
  "bfirst E db b = Some (k, v) \<Longrightarrow> bget E db b l = Some w \<Longrightarrow> k \<le> l"
  using first_Some by fastforce

lemma first_exists:
  "bget E db b k = Some v \<Longrightarrow> \<exists>l w. bfirst E db b = Some (l, w)"
  using first_None [of db b] by (cases "bfirst E db b") fastforce+

end

section \<open>A concrete database\<close>

text \<open>
  Association lists per bucket and a counter per bucket. It shows that the laws hold
  together, and it is the database on which the witnesses run. Writes never fail here.
\<close>

record mem_db =
  mb_buckets :: "bucket \<Rightarrow> (bytes \<times> doc) list"
  mb_seqs :: "bucket \<Rightarrow> u64"

definition mem_first :: "(bytes \<times> doc) list \<Rightarrow> (bytes \<times> doc) option" where
  "mem_first xs = (case xs of [] \<Rightarrow> None
     | _ \<Rightarrow> (let k = Min (set (map fst xs)) in map_option (\<lambda>v. (k, v)) (map_of xs k)))"

definition mem_env :: "(event \<Rightarrow> bytes option) \<Rightarrow> (bytes \<Rightarrow> event option) \<Rightarrow>
    (nack_request \<Rightarrow> bytes) \<Rightarrow> (bytes \<Rightarrow> bytes) \<Rightarrow> mem_db env" where
  "mem_env enc dec encn sha =
     \<lparr>bget = (\<lambda>db b k. map_of (mb_buckets db b) k),
      bput = (\<lambda>db b k v.
        Inr (db\<lparr>mb_buckets := (mb_buckets db)(b := AList.update k v (mb_buckets db b))\<rparr>)),
      bdelete = (\<lambda>db b k.
        Inr (db\<lparr>mb_buckets := (mb_buckets db)(b := AList.delete k (mb_buckets db b))\<rparr>)),
      bfirst = (\<lambda>db b. mem_first (mb_buckets db b)),
      bnext = (\<lambda>db b. Inr (mb_seqs db b + 1,
        db\<lparr>mb_seqs := (mb_seqs db)(b := mb_seqs db b + 1)\<rparr>)),
      bseq = mb_seqs,
      bcreate = (\<lambda>db b. Inr db),
      btext = (\<lambda>v. case v of DocBytes b \<Rightarrow> b | _ \<Rightarrow> []),
      marshal = enc, unmarshal = dec, marshal_nack = encn, sha256 = sha\<rparr>"

lemma mem_env_select:
  "marshal (mem_env enc dec encn sha) = enc" "unmarshal (mem_env enc dec encn sha) = dec"
  "marshal_nack (mem_env enc dec encn sha) = encn" "sha256 (mem_env enc dec encn sha) = sha"
  by (simp_all add: mem_env_def)

lemma mem_first_None: "mem_first xs = None \<longleftrightarrow> (\<forall>k. map_of xs k = None)"
proof (cases xs)
  case Nil
  then show ?thesis by (simp add: mem_first_def)
next
  case (Cons x ys)
  let ?k = "Min (set (map fst xs))"
  have "?k \<in> set (map fst xs)" using Cons by (intro Min_in) auto
  then obtain v where v: "map_of xs ?k = Some v"
    by (metis list.set_map map_of_eq_None_iff not_None_eq)
  with Cons show ?thesis by (auto simp: mem_first_def Let_def)
qed

lemma mem_first_Some:
  assumes "mem_first xs = Some (k, v)"
  shows "map_of xs k = Some v" and "map_of xs l \<noteq> None \<Longrightarrow> k \<le> l"
proof -
  from assms have k: "k = Min (set (map fst xs))" and v: "map_of xs k = Some v"
    by (auto simp: mem_first_def Let_def split: list.splits)
  show "map_of xs k = Some v" by (rule v)
  assume "map_of xs l \<noteq> None"
  then have "l \<in> set (map fst xs)" by (simp add: map_of_eq_None_iff)
  then show "k \<le> l" unfolding k by (intro Min_le) simp_all
qed

interpretation mem: bolt_db "mem_env enc dec encn sha"
proof (unfold_locales, goal_cases)
  case (9 db b)
  then show ?case by (simp add: mem_env_def mem_first_None)
next
  case (10 db b k v)
  then show ?case using mem_first_Some by (fastforce simp: mem_env_def)
next
  case (12 db b)
  have "{k. map_of (mb_buckets db b) k \<noteq> None} = dom (map_of (mb_buckets db b))"
    by (simp add: dom_def)
  then show ?case by (simp add: mem_env_def finite_dom_map_of)
qed (auto simp: mem_env_def update_conv' delete_conv')

lemma mem_env_bolt_db: "bolt_db (mem_env enc dec encn sha)"
  by (rule mem.bolt_db_axioms)

definition empty_mem :: mem_db where
  "empty_mem = \<lparr>mb_buckets = (\<lambda>_. []), mb_seqs = (\<lambda>_. 0)\<rparr>"

end
