(* ===== verification/Durable.thy ===== *)
theory Durable
  imports Bolt
begin

text \<open>
  internal/queue/durable.go, operation by operation. Every operation is a function of the
  environment \<open>E\<close> (bbolt, JSON and SHA-256), the broker and what the operation reads from
  outside: the context, the clock, the outcome of the commit, random bytes. It returns the
  Go result and the broker after it.

  The one-slot channel \<^verbatim>\<open>gate\<close> serialises the sections between \<^verbatim>\<open>enter\<close> and its release, so a
  section is one step of the model and the broker needs no field for the gate. A
  transaction works on a copy of the database that replaces it only when bbolt commits.
\<close>

section \<open>State and inputs\<close>

record 'db broker =
  b_db :: 'db
  b_opts :: durable_options
  b_stopped :: bool
  b_notify :: bool
  b_closed :: bool
  b_cleanupFailures :: u64

text \<open>
  \<open>i_ctx\<close> is the error of the caller's context when it is done, \<open>i_pick\<close> the choice of a
  \<^verbatim>\<open>select\<close> with several ready cases, \<open>i_now\<close> the clock in nanoseconds, \<open>i_begin\<close> and
  \<open>i_commit\<close> the errors with which bbolt refuses to begin or to commit the transaction,
  \<open>i_rand\<close> the outcome of \<^verbatim>\<open>rand.Read\<close>.
\<close>

record op_in =
  i_ctx :: "queue_error option"
  i_pick :: bool
  i_now :: int
  i_begin :: "queue_error option"
  i_commit :: "queue_error option"
  i_rand :: "bytes option"

section \<open>Transactions and helpers\<close>

definition enter :: "'db broker \<Rightarrow> op_in \<Rightarrow> queue_error + unit" where
  "enter d i =
     (case i_ctx i of
        Some e \<Rightarrow> if b_stopped d \<and> i_pick i then Inl ErrClosed else Inl e
      | None \<Rightarrow> if b_stopped d then Inl ErrClosed else Inr ())"

definition signal :: "'db broker \<Rightarrow> 'db broker" where
  "signal d = d\<lparr>b_notify := True\<rparr>"

definition lift_bolt :: "string + 'a \<Rightarrow> queue_error + 'a" where
  "lift_bolt x = (case x of Inl m \<Rightarrow> Inl (Bolt_error m) | Inr y \<Rightarrow> Inr y)"

definition tx_put :: "'db env \<Rightarrow> 'db \<Rightarrow> bucket \<Rightarrow> bytes \<Rightarrow> doc \<Rightarrow> queue_error + 'db" where
  "tx_put E db b k v = lift_bolt (bput E db b k v)"

definition tx_delete :: "'db env \<Rightarrow> 'db \<Rightarrow> bucket \<Rightarrow> bytes \<Rightarrow> queue_error + 'db" where
  "tx_delete E db b k = lift_bolt (bdelete E db b k)"

definition read_stats :: "'db env \<Rightarrow> 'db \<Rightarrow> queue_error + durable_stats" where
  "read_stats E db = (case bget E db Metadata ''stats'' of
     Some (DocStats s) \<Rightarrow> Inr s | _ \<Rightarrow> Inl Decode_error)"

definition view :: "'db broker \<Rightarrow> op_in \<Rightarrow> ('db \<Rightarrow> queue_error + 'a) \<Rightarrow> queue_error + 'a" where
  "view d i f = sbind (enter d i) (\<lambda>_.
     case i_begin i of Some e \<Rightarrow> Inl e | None \<Rightarrow> f (b_db d))"

type_synonym 'db tx = "'db \<times> durable_stats"

definition update_tx :: "'db env \<Rightarrow> int \<Rightarrow>
    ('db tx \<Rightarrow> int \<Rightarrow> queue_error + ('a \<times> 'db tx)) \<Rightarrow> 'db \<Rightarrow> queue_error + ('a \<times> 'db)" where
  "update_tx E now f db =
     sbind (read_stats E db) (\<lambda>s.
     sbind (f (db, s) now) (\<lambda>(x, db', s').
     sbind (tx_put E db' Metadata ''stats'' (DocStats s')) (\<lambda>db''.
     Inr (x, db''))))"

definition update :: "'db env \<Rightarrow> 'db broker \<Rightarrow> op_in \<Rightarrow>
    ('db tx \<Rightarrow> int \<Rightarrow> queue_error + ('a \<times> 'db tx)) \<Rightarrow> (queue_error + 'a) \<times> 'db broker" where
  "update E d i f =
     (case sbind (enter d i) (\<lambda>_.
             case i_begin i of Some e \<Rightarrow> Inl e | None \<Rightarrow> update_tx E (i_now i) f (b_db d)) of
        Inl e \<Rightarrow> (Inl e, d)
      | Inr (x, db') \<Rightarrow>
          (case i_commit i of
             Some e \<Rightarrow> (Inl e, d)
           | None \<Rightarrow> (Inr x, signal (d\<lparr>b_db := db'\<rparr>))))"

definition load :: "'db env \<Rightarrow> 'db \<Rightarrow> bytes \<Rightarrow> queue_error + (disk_record \<times> bool)" where
  "load E db eid = (case bget E db Records eid of
     None \<Rightarrow> Inr (zero_record, False)
   | Some (DocRecord r) \<Rightarrow> Inr (r, True)
   | Some _ \<Rightarrow> Inl Decode_error)"

definition save :: "'db env \<Rightarrow> 'db \<Rightarrow> bytes \<Rightarrow> disk_record \<Rightarrow> queue_error + 'db" where
  "save E db eid r = tx_put E db Records eid (DocRecord r)"

definition indexKey :: "int \<Rightarrow> u64 \<Rightarrow> bytes" where
  "indexKey due seq = put_uint64 (word_of_int due) @ put_uint64 seq"

definition dueFirst :: "'db env \<Rightarrow> 'db \<Rightarrow> bucket \<Rightarrow> int \<Rightarrow> (bytes \<times> doc) option" where
  "dueFirst E db b now = (case bfirst E db b of
     None \<Rightarrow> None
   | Some (k, v) \<Rightarrow> if sint (get_uint64 k) > now then None else Some (k, v))"

section \<open>Expiry\<close>

text \<open>One iteration of the loop of \<^verbatim>\<open>expireLeases\<close>, for the entry \<open>k \<mapsto> v\<close> it found.\<close>

definition expireLease :: "'db env \<Rightarrow> int \<Rightarrow> bytes \<Rightarrow> doc \<Rightarrow> 'db tx \<Rightarrow> queue_error + 'db tx" where
  "expireLease E now k v t = (case t of (db, s) \<Rightarrow>
     let eid = btext E v in
     sbind (load E db eid) (\<lambda>(r, _).
     sbind (tx_delete E db Leases k) (\<lambda>db1.
     let r' = r\<lparr>r_State := StReady, r_Token := [], r_Due := now\<rparr> in
     sbind (save E db1 eid r') (\<lambda>db2.
     sbind (tx_put E db2 Ready (indexKey now (r_Sequence r)) (DocBytes eid)) (\<lambda>db3.
     Inr (db3, s\<lparr>s_Leased := s_Leased s - 1, s_Ready := s_Ready s + 1\<rparr>))))))"

fun expireLeases_loop :: "'db env \<Rightarrow> int \<Rightarrow> nat \<Rightarrow> 'db tx \<Rightarrow> queue_error + 'db tx" where
  "expireLeases_loop E now 0 t = Inr t"
| "expireLeases_loop E now (Suc n) t =
     (case dueFirst E (fst t) Leases now of
        None \<Rightarrow> Inr t
      | Some (k, v) \<Rightarrow> sbind (expireLease E now k v t) (expireLeases_loop E now n))"

definition expireLeases :: "'db env \<Rightarrow> durable_options \<Rightarrow> int \<Rightarrow> 'db tx \<Rightarrow> queue_error + 'db tx" where
  "expireLeases E p now t = expireLeases_loop E now (nat (o_CleanupBatch p)) t"

definition removeCompleted :: "'db env \<Rightarrow> bytes \<Rightarrow> disk_record \<Rightarrow> 'db tx \<Rightarrow> queue_error + 'db tx" where
  "removeCompleted E eid r t = (case t of (db, s) \<Rightarrow>
     sbind (tx_delete E db Completions (indexKey (r_Due r) (r_Sequence r))) (\<lambda>db1.
     sbind (tx_delete E db1 Records eid) (\<lambda>db2.
     Inr (db2, s\<lparr>s_Completed := s_Completed s - 1,
                 s_LogicalBytes := s_LogicalBytes s - completedOverhead\<rparr>))))"

fun expireCompleted_loop :: "'db env \<Rightarrow> int \<Rightarrow> nat \<Rightarrow> 'db tx \<Rightarrow> queue_error + 'db tx" where
  "expireCompleted_loop E now 0 t = Inr t"
| "expireCompleted_loop E now (Suc n) t =
     (case dueFirst E (fst t) Completions now of
        None \<Rightarrow> Inr t
      | Some (k, v) \<Rightarrow>
          sbind (load E (fst t) (btext E v)) (\<lambda>(r, _).
          sbind (removeCompleted E (btext E v) r t) (expireCompleted_loop E now n)))"

definition expireCompleted :: "'db env \<Rightarrow> durable_options \<Rightarrow> int \<Rightarrow> 'db tx \<Rightarrow> queue_error + 'db tx" where
  "expireCompleted E p now t = expireCompleted_loop E now (nat (o_CleanupBatch p)) t"

section \<open>Publish\<close>

text \<open>Admission of a new identity: the two capacity checks, then the record and its index entry.\<close>

definition admit :: "'db env \<Rightarrow> durable_options \<Rightarrow> string \<Rightarrow> bytes \<Rightarrow> bytes \<Rightarrow> int \<Rightarrow> 'db tx \<Rightarrow>
    queue_error + (bool \<times> 'db tx)" where
  "admit E p eid data hash now t = (case t of (db, s) \<Rightarrow>
     if s_Ready s + s_Leased s + s_Quarantined s \<ge> o_Capacity p
        \<or> s_LogicalBytes s + int (length data) + activeOverhead > o_MaxLogicalBytes p
     then Inl ErrFull
     else if s_Ready s + s_Leased s + s_Quarantined s + s_Completed s \<ge> o_DedupCapacity p
     then Inl ErrDedupFull
     else
       sbind (lift_bolt (bnext E db Records)) (\<lambda>(seq, db1).
       let r = zero_record\<lparr>r_Event := data, r_Hash := hash, r_State := StReady,
                           r_Sequence := seq, r_Due := now\<rparr> in
       sbind (save E db1 eid r) (\<lambda>db2.
       sbind (tx_put E db2 Ready (indexKey now seq) (DocBytes eid)) (\<lambda>db3.
       Inr (False, db3, s\<lparr>s_Ready := s_Ready s + 1, s_Accepted := s_Accepted s + 1,
                          s_LogicalBytes := s_LogicalBytes s + (int (length data) + activeOverhead)\<rparr>)))))"

definition Publish_tx :: "'db env \<Rightarrow> durable_options \<Rightarrow> string \<Rightarrow> bytes \<Rightarrow> bytes \<Rightarrow>
    'db tx \<Rightarrow> int \<Rightarrow> queue_error + (bool \<times> 'db tx)" where
  "Publish_tx E p eid data hash t now =
     sbind (expireCompleted E p now t) (\<lambda>t1.
     sbind (load E (fst t1) eid) (\<lambda>(old, ok).
     if ok \<and> r_State old = StCompleted \<and> r_Due old \<le> now
     then sbind (removeCompleted E eid old t1) (admit E p eid data hash now)
     else if ok then (if r_Hash old \<noteq> hash then Inl ErrConflict else Inr (True, t1))
     else admit E p eid data hash now t1))"

definition PublishContext :: "'db env \<Rightarrow> 'db broker \<Rightarrow> op_in \<Rightarrow> event \<Rightarrow>
    (queue_error + bool) \<times> 'db broker" where
  "PublishContext E d i e =
     (case Event_Validate e of
        Inl v \<Rightarrow> (Inl (ErrInvalid (Invalid_event v)), d)
      | Inr _ \<Rightarrow>
          (case marshal E e of
             None \<Rightarrow> (Inl (ErrInvalid Invalid_encoding), d)
           | Some data \<Rightarrow>
               if int (length data) > o_MaxPayloadBytes (b_opts d)
               then (Inl (ErrInvalid Payload_too_large), d)
               else update E d i (Publish_tx E (b_opts d) (e_EventID e) data (sha256 E data))))"

section \<open>Lease\<close>

definition tryLease_tx :: "'db env \<Rightarrow> durable_options \<Rightarrow> bytes option \<Rightarrow> 'db tx \<Rightarrow> int \<Rightarrow>
    queue_error + (delivery \<times> 'db tx)" where
  "tryLease_tx E p rnd t now =
     sbind (expireLeases E p now t) (\<lambda>(db, s).
     case dueFirst E db Ready now of
       None \<Rightarrow> Inl ErrNoReady
     | Some (k, v) \<Rightarrow>
         let eid = btext E v in
         sbind (load E db eid) (\<lambda>(r, _).
         case NewID rnd of
           None \<Rightarrow> Inl Rand_error
         | Some token \<Rightarrow>
             sbind (tx_delete E db Ready k) (\<lambda>db1.
             let r' = r\<lparr>r_State := StLeased, r_Token := token,
                        r_Due := wrap64 (now + o_LeaseDuration p),
                        r_Attempt := r_Attempt r + 1, r_LastNackToken := [],
                        r_LastNackHash := zero_hash, r_Reason := []\<rparr> in
             sbind (save E db1 eid r') (\<lambda>db2.
             sbind (tx_put E db2 Leases (indexKey (r_Due r') (r_Sequence r')) (DocBytes eid)) (\<lambda>db3.
             let s' = s\<lparr>s_Ready := s_Ready s - 1, s_Leased := s_Leased s + 1,
                        s_Deliveries := s_Deliveries s + 1,
                        s_Redeliveries := (if r_Attempt r' > 1 then s_Redeliveries s + 1
                                           else s_Redeliveries s)\<rparr> in
             case unmarshal E (r_Event r') of
               None \<Rightarrow> Inl Decode_error
             | Some e \<Rightarrow>
                 Inr (\<lparr>d_Event = e, d_Token = token, d_ExpiresAt = unix_time (r_Due r'),
                       d_Attempt = r_Attempt r'\<rparr>, db3, s'))))))"

definition tryLease :: "'db env \<Rightarrow> 'db broker \<Rightarrow> op_in \<Rightarrow>
    (queue_error + delivery option) \<times> 'db broker" where
  "tryLease E d i =
     (case update E d i (tryLease_tx E (b_opts d) (i_rand i)) of
        (Inl ErrNoReady, d') \<Rightarrow> (Inr None, d')
      | (Inl e, d') \<Rightarrow> (Inl e, d')
      | (Inr x, d') \<Rightarrow> (Inr (Some x), d'))"

text \<open>
  One pass of the loop of \<^verbatim>\<open>Lease\<close> up to the \<^verbatim>\<open>select\<close>: \<open>Some\<close> of the result it returns, or
  \<open>None\<close> when it goes on to wait. Between the probe and \<^verbatim>\<open>tryLease\<close> and during the wait other
  callers may change the broker: \<open>l_between\<close> and \<open>l_others\<close> are what they do.
\<close>

datatype wake = WCtx queue_error | WStopped | WDeadline | WNotify | WTimer

record 'db lease_in =
  l_ctx :: "queue_error option"
  l_view :: op_in
  l_between :: "'db broker \<Rightarrow> 'db broker"
  l_try :: op_in
  l_others :: "'db broker \<Rightarrow> 'db broker"
  l_wake :: wake

definition lease_due :: "'db env \<Rightarrow> 'db broker \<Rightarrow> op_in \<Rightarrow> queue_error + bool" where
  "lease_due E d i = view d i (\<lambda>db.
     Inr (dueFirst E db Ready (i_now i) \<noteq> None \<or> dueFirst E db Leases (i_now i) \<noteq> None))"

definition Lease_round :: "'db env \<Rightarrow> int \<Rightarrow> 'db lease_in \<Rightarrow> 'db broker \<Rightarrow>
    (queue_error + delivery option) option \<times> 'db broker" where
  "Lease_round E wait x d =
     (case l_ctx x of
        Some e \<Rightarrow> (Some (Inl e), d)
      | None \<Rightarrow>
          (case lease_due E d (l_view x) of
             Inl e \<Rightarrow> (Some (Inl e), d)
           | Inr False \<Rightarrow> (if wait = 0 then Some (Inr None) else None, d)
           | Inr True \<Rightarrow>
               (case tryLease E (l_between x d) (l_try x) of
                  (Inl e, d') \<Rightarrow> (Some (Inl e), d')
                | (Inr (Some v), d') \<Rightarrow> (Some (Inr (Some v)), d')
                | (Inr None, d') \<Rightarrow> (if wait = 0 then Some (Inr None) else None, d'))))"

fun Lease_loop :: "'db env \<Rightarrow> int \<Rightarrow> 'db lease_in list \<Rightarrow> 'db broker \<Rightarrow>
    (queue_error + delivery option) option \<times> 'db broker" where
  "Lease_loop E wait [] d = (None, d)"
| "Lease_loop E wait (x # xs) d =
     (case Lease_round E wait x d of
        (Some res, d') \<Rightarrow> (Some res, d')
      | (None, d') \<Rightarrow>
          (let d'' = l_others x d' in
           case l_wake x of
             WCtx e \<Rightarrow> (Some (Inl e), d'')
           | WStopped \<Rightarrow> (Some (Inl ErrClosed), d'')
           | WDeadline \<Rightarrow> (Some (Inr None), d'')
           | WNotify \<Rightarrow> Lease_loop E wait xs (d''\<lparr>b_notify := False\<rparr>)
           | WTimer \<Rightarrow> Lease_loop E wait xs d''))"

definition Lease :: "'db env \<Rightarrow> int \<Rightarrow> 'db lease_in list \<Rightarrow> 'db broker \<Rightarrow>
    (queue_error + delivery option) option \<times> 'db broker" where
  "Lease E wait xs d =
     (if wait < 0 \<or> wait > MaxWait then (Some (Inl (ErrInvalid Bad_wait)), d)
      else Lease_loop E wait xs d)"

section \<open>Receipts\<close>

definition validateReceipt :: "string \<Rightarrow> string \<Rightarrow> queue_error + unit" where
  "validateReceipt eid token =
     (if eid = [] \<or> length eid > 128 \<or> length token \<noteq> 32 then Inl (ErrInvalid Bad_receipt) else Inr ())"

definition Ack_tx :: "'db env \<Rightarrow> durable_options \<Rightarrow> ack_request \<Rightarrow> 'db tx \<Rightarrow> int \<Rightarrow>
    queue_error + (bool \<times> 'db tx)" where
  "Ack_tx E p a t now = (case t of (db, s) \<Rightarrow>
     sbind (load E db (a_EventID a)) (\<lambda>(r, ok).
     if \<not> ok then Inl ErrStaleLease
     else if r_State r = StCompleted \<and> r_Token r = a_Token a \<and> r_Due r > now then Inr (True, t)
     else if r_State r \<noteq> StLeased \<or> r_Token r \<noteq> a_Token a \<or> r_Due r \<le> now then Inl ErrStaleLease
     else
       sbind (tx_delete E db Leases (indexKey (r_Due r) (r_Sequence r))) (\<lambda>db1.
       let s1 = s\<lparr>s_LogicalBytes := s_LogicalBytes s
                    - (int (length (r_Event r)) + activeOverhead - completedOverhead)\<rparr>;
           r' = r\<lparr>r_Event := [], r_State := StCompleted, r_Due := wrap64 (now + o_CompletionTTL p)\<rparr> in
       sbind (save E db1 (a_EventID a) r') (\<lambda>db2.
       sbind (tx_put E db2 Completions (indexKey (r_Due r') (r_Sequence r')) (DocBytes (a_EventID a)))
         (\<lambda>db3.
       Inr (False, db3, s1\<lparr>s_Leased := s_Leased s1 - 1, s_Completed := s_Completed s1 + 1,
                           s_Acked := s_Acked s1 + 1\<rparr>))))))"

definition Ack :: "'db env \<Rightarrow> 'db broker \<Rightarrow> op_in \<Rightarrow> ack_request \<Rightarrow>
    (queue_error + bool) \<times> 'db broker" where
  "Ack E d i a =
     (case validateReceipt (a_EventID a) (a_Token a) of
        Inl e \<Rightarrow> (Inl e, d)
      | Inr _ \<Rightarrow> update E d i (Ack_tx E (b_opts d) a))"

definition Nack_tx :: "'db env \<Rightarrow> durable_options \<Rightarrow> nack_request \<Rightarrow> bytes \<Rightarrow> 'db tx \<Rightarrow> int \<Rightarrow>
    queue_error + (bool \<times> 'db tx)" where
  "Nack_tx E p n hash t now = (case t of (db, s) \<Rightarrow>
     sbind (load E db (n_EventID n)) (\<lambda>(r, ok).
     if \<not> ok then Inl ErrStaleLease
     else if (r_State r = StReady \<or> r_State r = StQuarantined) \<and> r_LastNackToken r = n_Token n
     then (if r_LastNackHash r \<noteq> hash then Inl ErrConflict else Inr (True, t))
     else if r_State r \<noteq> StLeased \<or> r_Token r \<noteq> n_Token n \<or> r_Due r \<le> now then Inl ErrStaleLease
     else if n_Permanent n \<and> s_Quarantined s \<ge> o_QuarantineCapacity p then Inl ErrFull
     else
       sbind (tx_delete E db Leases (indexKey (r_Due r) (r_Sequence r))) (\<lambda>db1.
       let r1 = r\<lparr>r_LastNackToken := n_Token n, r_LastNackHash := hash, r_Token := [],
                  r_Reason := n_Reason n\<rparr>;
           s1 = s\<lparr>s_Leased := s_Leased s - 1\<rparr> in
       if n_Permanent n
       then
         sbind (save E db1 (n_EventID n) (r1\<lparr>r_State := StQuarantined, r_Due := 0\<rparr>)) (\<lambda>db2.
         Inr (False, db2, s1\<lparr>s_Quarantined := s_Quarantined s1 + 1\<rparr>))
       else
         let r2 = r1\<lparr>r_State := StReady,
                     r_Due := wrap64 (now + wrap64 (n_DelayMillis n * Millisecond))\<rparr> in
         sbind (tx_put E db1 Ready (indexKey (r_Due r2) (r_Sequence r2)) (DocBytes (n_EventID n)))
           (\<lambda>db2.
         sbind (save E db2 (n_EventID n) r2) (\<lambda>db3.
         Inr (False, db3, s1\<lparr>s_Ready := s_Ready s1 + 1\<rparr>))))))"

definition bad_nack :: "nack_request \<Rightarrow> bool" where
  "bad_nack n \<longleftrightarrow> n_DelayMillis n < 0 \<or> n_DelayMillis n > MaxNackDelay div Millisecond
     \<or> length (n_Reason n) > 256 \<or> n_Reason n = [] \<or> (n_Permanent n \<and> n_DelayMillis n \<noteq> 0)"

definition Nack :: "'db env \<Rightarrow> 'db broker \<Rightarrow> op_in \<Rightarrow> nack_request \<Rightarrow>
    (queue_error + bool) \<times> 'db broker" where
  "Nack E d i n =
     (case validateReceipt (n_EventID n) (n_Token n) of
        Inl e \<Rightarrow> (Inl e, d)
      | Inr _ \<Rightarrow>
          if bad_nack n then (Inl (ErrInvalid Bad_nack), d)
          else update E d i (Nack_tx E (b_opts d) n (sha256 E (marshal_nack E n))))"

section \<open>Cleanup, statistics, life cycle\<close>

definition Cleanup_tx :: "'db env \<Rightarrow> durable_options \<Rightarrow> 'db tx \<Rightarrow> int \<Rightarrow>
    queue_error + (unit \<times> 'db tx)" where
  "Cleanup_tx E p t now =
     sbind (expireLeases E p now t) (\<lambda>t1.
     sbind (expireCompleted E p now t1) (\<lambda>t2. Inr ((), t2)))"

definition cleanup_due :: "'db env \<Rightarrow> 'db broker \<Rightarrow> op_in \<Rightarrow> queue_error + bool" where
  "cleanup_due E d i = view d i (\<lambda>db.
     Inr (dueFirst E db Leases (i_now i) \<noteq> None \<or> dueFirst E db Completions (i_now i) \<noteq> None))"

text \<open>\<open>i\<close> is the input of the read-only probe, \<open>j\<close> of the transaction.\<close>

definition Cleanup :: "'db env \<Rightarrow> 'db broker \<Rightarrow> op_in \<Rightarrow> op_in \<Rightarrow>
    (queue_error + unit) \<times> 'db broker" where
  "Cleanup E d i j =
     (case cleanup_due E d i of
        Inl e \<Rightarrow> (Inl e, d)
      | Inr False \<Rightarrow> (Inr (), d)
      | Inr True \<Rightarrow> update E d j (Cleanup_tx E (b_opts d)))"

text \<open>A tick of the worker: it counts failures other than the shutdown.\<close>

definition worker_tick :: "'db env \<Rightarrow> 'db broker \<Rightarrow> op_in \<Rightarrow> op_in \<Rightarrow> 'db broker" where
  "worker_tick E d i j =
     (if b_stopped d then d
      else case Cleanup E d i j of
        (Inl e, d') \<Rightarrow> if e \<noteq> ErrClosed
          then d'\<lparr>b_cleanupFailures := b_cleanupFailures d' + 1\<rparr> else d'
      | (Inr _, d') \<Rightarrow> d')"

text \<open>\<open>fsize\<close> is the outcome of \<^verbatim>\<open>os.Stat\<close> on the database file.\<close>

definition Snapshot :: "'db env \<Rightarrow> 'db broker \<Rightarrow> op_in \<Rightarrow> int option \<Rightarrow> queue_error + durable_stats" where
  "Snapshot E d i fsize =
     sbind (view d i (read_stats E)) (\<lambda>s.
     case fsize of
       None \<Rightarrow> Inl (Os_error ''stat'')
     | Some n \<Rightarrow> Inr (s\<lparr>s_FileBytes := n, s_Capacity := o_Capacity (b_opts d),
                        s_MaxLogicalBytes := o_MaxLogicalBytes (b_opts d),
                        s_CleanupFailures := b_cleanupFailures d\<rparr>))"

definition Stop :: "'db broker \<Rightarrow> 'db broker" where
  "Stop d = d\<lparr>b_stopped := True\<rparr>"

definition Close :: "'db broker \<Rightarrow> 'db broker" where
  "Close d = (if b_closed d then d else (Stop d)\<lparr>b_closed := True\<rparr>)"

fun create_buckets :: "'db env \<Rightarrow> bucket list \<Rightarrow> 'db \<Rightarrow> queue_error + 'db" where
  "create_buckets E [] db = Inr db"
| "create_buckets E (b # bs) db = sbind (lift_bolt (bcreate E db b)) (create_buckets E bs)"

definition open_tx :: "'db env \<Rightarrow> 'db \<Rightarrow> queue_error + 'db" where
  "open_tx E db =
     sbind (create_buckets E [Records, Ready, Leases, Completions, Metadata] db) (\<lambda>db1.
     sbind (case bget E db1 Metadata ''version'' of
              None \<Rightarrow> Inr ()
            | Some v \<Rightarrow> fail_if (btext E v \<noteq> ''1'') Unsupported_version) (\<lambda>_.
     sbind (tx_put E db1 Metadata ''version'' (DocBytes ''1'')) (\<lambda>db2.
     if bget E db2 Metadata ''stats'' = None
     then tx_put E db2 Metadata ''stats'' (DocStats zero_stats) else Inr db2)))"

text \<open>
  \<open>dir\<close> is the outcome of \<^verbatim>\<open>os.MkdirAll\<close>, \<open>opened\<close> of \<^verbatim>\<open>bolt.Open\<close> (the database as the file
  has it), \<open>fault\<close> the error of the commit.
\<close>

definition OpenDurable :: "'db env \<Rightarrow> durable_options \<Rightarrow> queue_error option \<Rightarrow>
    queue_error + 'db \<Rightarrow> queue_error option \<Rightarrow> queue_error + 'db broker" where
  "OpenDurable E p dir opened fault =
     sbind (Options_Validate p) (\<lambda>_.
     case dir of Some e \<Rightarrow> Inl e | None \<Rightarrow>
     sbind opened (\<lambda>db.
     sbind (open_tx E db) (\<lambda>db'.
     case fault of Some e \<Rightarrow> Inl e | None \<Rightarrow>
     Inr \<lparr>b_db = db', b_opts = p, b_stopped = False, b_notify = False, b_closed = False,
          b_cleanupFailures = 0\<rparr>)))"

end
