(* ===== verification/Durable_Inv.thy ===== *)
theory Durable_Inv
  imports Durable
begin

text \<open>
  The well-formedness invariant of the broker's database and the effect of each primitive on
  it. \<open>recs\<close> reads the stored records as a map; \<open>wf_db\<close> says that the three indexes list
  exactly the records in the matching state, under keys made of due time and sequence number;
  \<open>wf_stats\<close> that the counters count them. Every transaction is a sequence of \<open>changes\<close> to a
  single record together with its index entries.
\<close>

section \<open>Index keys\<close>

lemma indexKey_seq: "indexKey d s = indexKey d' s' \<Longrightarrow> s = s'"
  by (simp add: indexKey_def append_eq_append_conv)

lemma indexKey_due: "sint (get_uint64 (indexKey d s)) = wrap64 d"
  by (simp add: indexKey_def wrap64_def)

definition due_ok :: "int \<Rightarrow> bool" where
  "due_ok d \<longleftrightarrow> 0 \<le> d \<and> d < 2 ^ 63"

lemma due_ok_wrap64 [simp]: "due_ok d \<Longrightarrow> wrap64 d = d"
  by (rule wrap64_id) (simp add: due_ok_def int64_range_def)

lemma due_ok_word_less:
  assumes "due_ok d" and "due_ok d'"
  shows "(word_of_int d :: u64) < word_of_int d' \<longleftrightarrow> d < d'"
    and "(word_of_int d :: u64) = word_of_int d' \<longleftrightarrow> d = d'"
proof -
  have u: "uint (word_of_int x :: u64) = x" if "due_ok x" for x
    using that by (simp add: due_ok_def uint_word_of_int)
  show "(word_of_int d :: u64) < word_of_int d' \<longleftrightarrow> d < d'"
    using assms by (simp add: word_less_alt u)
  show "(word_of_int d :: u64) = word_of_int d' \<longleftrightarrow> d = d'"
    using assms by (metis u)
qed

lemma indexKey_less:
  assumes "due_ok d" and "due_ok d'"
  shows "indexKey d s < indexKey d' s' \<longleftrightarrow> d < d' \<or> (d = d' \<and> s < s')"
  using assms by (simp add: indexKey_def list_less_append due_ok_word_less)

lemma indexKey_le_due:
  assumes "due_ok d" and "due_ok d'" and "indexKey d s \<le> indexKey d' s'"
  shows "d \<le> d'"
  using assms indexKey_less [of d' d s' s] by (metis linorder_not_less)

section \<open>The clock\<close>

text \<open>
  The broker adds at most 365 days (the largest \<open>CompletionTTL\<close>) to the clock. Between 1970
  and the year 2261 the sum stays a non-negative \<open>int64\<close>, so that the unsigned byte order of
  the index keys is the order of the due times.
\<close>

definition clock_ok :: "int \<Rightarrow> bool" where
  "clock_ok now \<longleftrightarrow> 0 \<le> now \<and> now < 2 ^ 63 - 2 ^ 55"

lemma clock_due_ok:
  "clock_ok now \<Longrightarrow> 0 \<le> x \<Longrightarrow> x \<le> 31536000000000000 \<Longrightarrow> due_ok (now + x)"
  by (simp add: clock_ok_def due_ok_def)

lemma clock_now_ok: "clock_ok now \<Longrightarrow> due_ok now"
  by (simp add: clock_ok_def due_ok_def)

section \<open>Well-formed databases\<close>

definition recs :: "'db env \<Rightarrow> 'db \<Rightarrow> bytes \<Rightarrow> disk_record option" where
  "recs E db i = (case bget E db Records i of Some (DocRecord r) \<Rightarrow> Some r | _ \<Rightarrow> None)"

fun idx :: "rstate \<Rightarrow> bucket option" where
  "idx StReady = Some Ready"
| "idx StLeased = Some Leases"
| "idx StCompleted = Some Completions"
| "idx _ = None"

definition rkey :: "disk_record \<Rightarrow> bytes" where
  "rkey r = indexKey (r_Due r) (r_Sequence r)"

definition wf_db :: "'db env \<Rightarrow> 'db \<Rightarrow> bool" where
  "wf_db E db \<longleftrightarrow>
     (\<forall>i v. bget E db Records i = Some v \<longrightarrow>
        (\<exists>r. v = DocRecord r \<and> r_State r \<noteq> StNone \<and> r_Sequence r \<le> bseq E db Records
           \<and> due_ok (r_Due r)))
   \<and> (\<forall>i j r r'. recs E db i = Some r \<longrightarrow> recs E db j = Some r' \<longrightarrow>
        r_Sequence r = r_Sequence r' \<longrightarrow> i = j)
   \<and> (\<forall>st b k v. idx st = Some b \<longrightarrow>
        (bget E db b k = Some v \<longleftrightarrow>
          (\<exists>i r. v = DocBytes i \<and> recs E db i = Some r \<and> r_State r = st \<and> k = rkey r)))"

definition in_state :: "'db env \<Rightarrow> 'db \<Rightarrow> rstate \<Rightarrow> bytes set" where
  "in_state E db st = {i. \<exists>r. recs E db i = Some r \<and> r_State r = st}"

definition weight :: "disk_record \<Rightarrow> int" where
  "weight r = (if r_State r = StCompleted then completedOverhead
               else int (length (r_Event r)) + activeOverhead)"

definition total_weight :: "(bytes \<rightharpoonup> disk_record) \<Rightarrow> int" where
  "total_weight m = (\<Sum>i \<in> dom m. weight (the (m i)))"

definition wf_stats :: "'db env \<Rightarrow> 'db \<Rightarrow> durable_stats \<Rightarrow> bool" where
  "wf_stats E db s \<longleftrightarrow>
     s_Ready s = int (card (in_state E db StReady))
   \<and> s_Leased s = int (card (in_state E db StLeased))
   \<and> s_Quarantined s = int (card (in_state E db StQuarantined))
   \<and> s_Completed s = int (card (in_state E db StCompleted))
   \<and> s_LogicalBytes s = total_weight (recs E db)"

definition tx_inv :: "'db env \<Rightarrow> 'db tx \<Rightarrow> bool" where
  "tx_inv E t \<longleftrightarrow> wf_db E (fst t) \<and> wf_stats E (fst t) (snd t)"

definition broker_inv :: "'db env \<Rightarrow> 'db broker \<Rightarrow> bool" where
  "broker_inv E d \<longleftrightarrow> (\<exists>s. read_stats E (b_db d) = Inr s \<and> tx_inv E (b_db d, s))"

text \<open>
  \<open>db'\<close> is \<open>db\<close> with the record of \<open>i\<close> changed from \<open>ro\<close> to \<open>ro'\<close> and the index entries
  moved along.
\<close>

definition changes :: "'db env \<Rightarrow> 'db \<Rightarrow> bytes \<Rightarrow> disk_record option \<Rightarrow> disk_record option \<Rightarrow> 'db \<Rightarrow> bool" where
  "changes E db i ro ro' db' \<longleftrightarrow>
     (\<forall>b k. bget E db' b k =
        (if b = Records \<and> k = i then map_option DocRecord ro'
         else if \<exists>r. ro' = Some r \<and> idx (r_State r) = Some b \<and> k = rkey r then Some (DocBytes i)
         else if \<exists>r. ro = Some r \<and> idx (r_State r) = Some b \<and> k = rkey r then None
         else bget E db b k))"

lemma idx_not_Records [simp]: "idx st \<noteq> Some Records" "idx st \<noteq> Some Metadata"
  by (cases st; simp)+

lemma idx_inj: "idx st = Some b \<Longrightarrow> idx st' = Some b \<Longrightarrow> st = st'"
  by (cases st; cases st') auto

lemma wf_dbD:
  assumes "wf_db E db"
  shows wf_record: "recs E db i = Some r \<Longrightarrow>
      r_State r \<noteq> StNone \<and> r_Sequence r \<le> bseq E db Records \<and> due_ok (r_Due r)"
    and wf_get: "bget E db Records i = map_option DocRecord (recs E db i)"
    and wf_seq: "recs E db i = Some r \<Longrightarrow> recs E db j = Some r' \<Longrightarrow>
      r_Sequence r = r_Sequence r' \<Longrightarrow> i = j"
    and wf_index: "idx st = Some b \<Longrightarrow> bget E db b k = Some v \<longleftrightarrow>
      (\<exists>i r. v = DocBytes i \<and> recs E db i = Some r \<and> r_State r = st \<and> k = rkey r)"
proof -
  have 1: "\<And>i v. bget E db Records i = Some v \<Longrightarrow>
      \<exists>r. v = DocRecord r \<and> r_State r \<noteq> StNone \<and> r_Sequence r \<le> bseq E db Records \<and> due_ok (r_Due r)"
    using assms unfolding wf_db_def by blast
  show "recs E db i = Some r \<Longrightarrow>
      r_State r \<noteq> StNone \<and> r_Sequence r \<le> bseq E db Records \<and> due_ok (r_Due r)"
    using 1 [of i] by (fastforce simp: recs_def split: option.splits doc.splits)
  show "bget E db Records i = map_option DocRecord (recs E db i)"
    using 1 [of i] by (cases "bget E db Records i") (auto simp: recs_def)
  show "recs E db i = Some r \<Longrightarrow> recs E db j = Some r' \<Longrightarrow> r_Sequence r = r_Sequence r' \<Longrightarrow> i = j"
    using assms unfolding wf_db_def by blast
  show "idx st = Some b \<Longrightarrow> bget E db b k = Some v \<longleftrightarrow>
      (\<exists>i r. v = DocBytes i \<and> recs E db i = Some r \<and> r_State r = st \<and> k = rkey r)"
    using assms unfolding wf_db_def by blast
qed

lemma rkey_seq: "rkey r = rkey r' \<Longrightarrow> r_Sequence r = r_Sequence r'"
  unfolding rkey_def by (rule indexKey_seq)

lemma recs_changes: "changes E db i ro ro' db' \<Longrightarrow> recs E db' = (recs E db)(i := ro')"
  by (rule ext) (auto simp: changes_def recs_def split: option.splits)

text \<open>
  The central preservation lemma: a change that keeps the sequence number of an existing
  record, or gives a new record a number that no record has, keeps the database well-formed.
\<close>

lemma wf_db_changes:
  assumes wf: "wf_db E db" and ro: "recs E db i = ro" and ch: "changes E db i ro ro' db'"
    and seq: "bseq E db Records \<le> bseq E db' Records"
    and new: "\<And>r'. ro' = Some r' \<Longrightarrow>
      r_State r' \<noteq> StNone \<and> due_ok (r_Due r') \<and> r_Sequence r' \<le> bseq E db' Records
      \<and> (\<forall>j r. j \<noteq> i \<longrightarrow> recs E db j = Some r \<longrightarrow> r_Sequence r \<noteq> r_Sequence r')"
  shows "wf_db E db'"
  unfolding wf_db_def
proof (intro conjI allI impI)
  note recs' = recs_changes [OF ch]
  have get: "\<And>b k. bget E db' b k =
        (if b = Records \<and> k = i then map_option DocRecord ro'
         else if \<exists>r. ro' = Some r \<and> idx (r_State r) = Some b \<and> k = rkey r then Some (DocBytes i)
         else if \<exists>r. ro = Some r \<and> idx (r_State r) = Some b \<and> k = rkey r then None
         else bget E db b k)"
    using ch unfolding changes_def by blast
  fix j v
  assume "bget E db' Records j = Some v"
  then have "j = i \<and> map_option DocRecord ro' = Some v
      \<or> j \<noteq> i \<and> map_option DocRecord (recs E db j) = Some v"
    using wf_get [OF wf, of j] by (auto simp: get split: if_splits)
  then show "\<exists>r. v = DocRecord r \<and> r_State r \<noteq> StNone \<and> r_Sequence r \<le> bseq E db' Records
      \<and> due_ok (r_Due r)"
  proof
    assume "j = i \<and> map_option DocRecord ro' = Some v"
    with new show ?thesis by auto
  next
    assume "j \<noteq> i \<and> map_option DocRecord (recs E db j) = Some v"
    then obtain r where "recs E db j = Some r" and "v = DocRecord r" by auto
    with wf_record [OF wf, of j r] seq show ?thesis by (auto intro: order_trans)
  qed
next
  fix j l r r'
  assume j: "recs E db' j = Some r" and l: "recs E db' l = Some r'"
    and eq: "r_Sequence r = r_Sequence r'"
  note r = j [unfolded recs_changes [OF ch]] l [unfolded recs_changes [OF ch]]
  show "j = l"
  proof (cases "j = i"; cases "l = i")
    assume "j \<noteq> i" and "l \<noteq> i"
    with r eq show ?thesis by (auto intro: wf_seq [OF wf])
  qed (use r eq new in \<open>simp; metis\<close>)+
next
  fix st b k v
  assume b: "idx st = Some b"
  have get: "bget E db' b k =
        (if b = Records \<and> k = i then map_option DocRecord ro'
         else if \<exists>r. ro' = Some r \<and> idx (r_State r) = Some b \<and> k = rkey r then Some (DocBytes i)
         else if \<exists>r. ro = Some r \<and> idx (r_State r) = Some b \<and> k = rkey r then None
         else bget E db b k)"
    using ch unfolding changes_def by blast
  have nb: "b \<noteq> Records" using b by (metis idx_not_Records(1))
  have same: "idx (r_State r) = Some b \<longleftrightarrow> r_State r = st" for r
    using b idx_inj by blast
  note old = wf_index [OF wf b, of k]
  show "bget E db' b k = Some v \<longleftrightarrow>
      (\<exists>j r. v = DocBytes j \<and> recs E db' j = Some r \<and> r_State r = st \<and> k = rkey r)"
    (is "?L \<longleftrightarrow> ?R")
  proof (cases "\<exists>r. ro' = Some r \<and> r_State r = st \<and> k = rkey r")
    case True
    then obtain r where r: "ro' = Some r" "r_State r = st" "k = rkey r" by blast
    have "?L \<longleftrightarrow> v = DocBytes i" using True nb by (auto simp: get same)
    moreover have "?R \<longleftrightarrow> v = DocBytes i"
    proof
      assume ?R
      then obtain j r2 where j: "v = DocBytes j" "recs E db' j = Some r2" "k = rkey r2" by blast
      have "r_Sequence r2 = r_Sequence r" using j(3) r(3) rkey_seq by metis
      then have "j = i" using new [OF r(1)] j(2) by (auto simp: recs_changes [OF ch] split: if_splits)
      with j show "v = DocBytes i" by simp
    next
      assume "v = DocBytes i"
      with r show ?R by (auto simp: recs_changes [OF ch])
    qed
    ultimately show ?thesis by simp
  next
    case no_new: False
    show ?thesis
    proof (cases "\<exists>r. ro = Some r \<and> r_State r = st \<and> k = rkey r")
      case True
      then obtain r where r: "ro = Some r" "r_State r = st" "k = rkey r" by blast
      have "\<not> ?L" using True no_new nb by (auto simp: get same)
      moreover have "\<not> ?R"
      proof
        assume ?R
        then obtain j r2 where j: "recs E db' j = Some r2" "r_State r2 = st" "k = rkey r2" by blast
        show False
        proof (cases "j = i")
          case True
          with j no_new show False by (auto simp: recs_changes [OF ch])
        next
          case False
          with j have "recs E db j = Some r2" by (simp add: recs_changes [OF ch])
          with r ro j(3) have "j = i" using wf_seq [OF wf, of j r2 i r] rkey_seq by metis
          with False show False by simp
        qed
      qed
      ultimately show ?thesis by simp
    next
      case False
      have "?L \<longleftrightarrow> bget E db b k = Some v" using no_new False nb by (auto simp: get same)
      also have "\<dots> \<longleftrightarrow> ?R"
      proof -
        have "recs E db j = Some r \<longleftrightarrow> recs E db' j = Some r"
          if "r_State r = st" and "k = rkey r" for j r
        proof (cases "j = i")
          case True
          with that no_new False ro show ?thesis by (auto simp: recs_changes [OF ch])
        qed (simp add: recs_changes [OF ch])
        then show ?thesis unfolding old by metis
      qed
      finally show ?thesis .
    qed
  qed
qed

section \<open>Counters\<close>

definition st_ind :: "disk_record option \<Rightarrow> rstate \<Rightarrow> int" where
  "st_ind ro st = (case ro of Some r \<Rightarrow> if r_State r = st then 1 else 0 | None \<Rightarrow> 0)"

definition opt_weight :: "disk_record option \<Rightarrow> int" where
  "opt_weight ro = (case ro of Some r \<Rightarrow> weight r | None \<Rightarrow> 0)"

lemma card_in_state_update:
  fixes m :: "bytes \<rightharpoonup> disk_record"
  assumes fin: "finite (dom m)"
  shows "int (card {j. \<exists>r. (m(i := ro')) j = Some r \<and> r_State r = st})
       = int (card {j. \<exists>r. m j = Some r \<and> r_State r = st}) - st_ind (m i) st + st_ind ro' st"
    (is "int (card ?A') = int (card ?A) - _ + _")
proof -
  let ?B = "?A - {i}"
  have finA: "finite ?A" by (rule finite_subset [OF _ fin]) auto
  have A: "int (card ?A) = int (card ?B) + st_ind (m i) st"
  proof (cases "i \<in> ?A")
    case True
    then have "st_ind (m i) st = 1" by (auto simp: st_ind_def)
    with card_remove_int [OF finA True] show ?thesis by simp
  next
    case False
    then have "st_ind (m i) st = 0" by (auto simp: st_ind_def split: option.splits)
    with False show ?thesis by simp
  qed
  have A': "?A' = (if st_ind ro' st = 1 then insert i ?B else ?B)"
    by (auto simp: st_ind_def split: option.splits if_splits)
  have "st_ind ro' st = 0 \<or> st_ind ro' st = 1" by (auto simp: st_ind_def split: option.splits)
  moreover have "int (card (insert i ?B)) = int (card ?B) + 1"
    by (rule card_insert_int) (use finA in auto)
  ultimately have "int (card ?A') = int (card ?B) + st_ind ro' st"
    unfolding A' by auto
  with A show ?thesis by simp
qed

lemma total_weight_update:
  fixes m :: "bytes \<rightharpoonup> disk_record"
  assumes fin: "finite (dom m)"
  shows "total_weight (m(i := ro')) = total_weight m - opt_weight (m i) + opt_weight ro'"
proof -
  let ?B = "dom m - {i}"
  have B: "(\<Sum>j \<in> ?B. weight (the ((m(i := ro')) j))) = (\<Sum>j \<in> ?B. weight (the (m j)))"
    by (rule sum.cong) auto
  have old: "total_weight m = (\<Sum>j \<in> ?B. weight (the (m j))) + opt_weight (m i)"
  proof (cases "m i")
    case None
    then have "?B = dom m" by auto
    with None show ?thesis by (simp add: total_weight_def opt_weight_def)
  next
    case (Some r)
    then have "i \<in> dom m" by auto
    with Some sum.remove [OF fin this, of "\<lambda>j. weight (the (m j))"] show ?thesis
      by (simp add: total_weight_def opt_weight_def)
  qed
  have new: "total_weight (m(i := ro')) = (\<Sum>j \<in> ?B. weight (the (m j))) + opt_weight ro'"
  proof (cases ro')
    case None
    then have "dom (m(i := ro')) = ?B" by auto
    with None B show ?thesis by (simp add: total_weight_def opt_weight_def)
  next
    case (Some r)
    then have "dom (m(i := ro')) = insert i ?B" by auto
    moreover have "(\<Sum>j \<in> insert i ?B. weight (the ((m(i := ro')) j)))
        = weight (the ((m(i := ro')) i)) + (\<Sum>j \<in> ?B. weight (the ((m(i := ro')) j)))"
      by (rule sum.insert) (use fin in auto)
    ultimately have "total_weight (m(i := ro'))
        = weight (the ((m(i := ro')) i)) + (\<Sum>j \<in> ?B. weight (the ((m(i := ro')) j)))"
      unfolding total_weight_def by (simp only:)
    with Some B show ?thesis by (simp add: opt_weight_def)
  qed
  from old new show ?thesis by simp
qed

context bolt_db
begin

lemma finite_recs [simp]: "finite (dom (recs E db))"
  by (rule finite_subset [OF _ finite_keys [of db Records]])
     (auto simp: recs_def dom_def split: option.splits)

lemma finite_in_state [simp]: "finite (in_state E db st)"
  by (rule finite_subset [OF _ finite_recs [of db]]) (auto simp: in_state_def)

lemma in_state_changes:
  assumes "recs E db i = ro" and "changes E db i ro ro' db'"
  shows "int (card (in_state E db' st)) = int (card (in_state E db st)) - st_ind ro st + st_ind ro' st"
  unfolding in_state_def recs_changes [OF assms(2)] assms(1) [symmetric]
  by (rule card_in_state_update) simp

lemma total_weight_changes:
  assumes "recs E db i = ro" and "changes E db i ro ro' db'"
  shows "total_weight (recs E db') = total_weight (recs E db) - opt_weight ro + opt_weight ro'"
  unfolding recs_changes [OF assms(2)] assms(1) [symmetric]
  by (rule total_weight_update) simp

lemma wf_stats_changes:
  assumes "wf_stats E db s" and "recs E db i = ro" and "changes E db i ro ro' db'"
    and "s_Ready s' = s_Ready s - st_ind ro StReady + st_ind ro' StReady"
    and "s_Leased s' = s_Leased s - st_ind ro StLeased + st_ind ro' StLeased"
    and "s_Quarantined s' = s_Quarantined s - st_ind ro StQuarantined + st_ind ro' StQuarantined"
    and "s_Completed s' = s_Completed s - st_ind ro StCompleted + st_ind ro' StCompleted"
    and "s_LogicalBytes s' = s_LogicalBytes s - opt_weight ro + opt_weight ro'"
  shows "wf_stats E db' s'"
  using assms(1,4-)
  by (simp add: wf_stats_def in_state_changes [OF assms(2,3)] total_weight_changes [OF assms(2,3)])

end

end
