(* ===== verification/Durable_Steps.thy ===== *)
theory Durable_Steps
  imports Durable_Inv
begin

text \<open>
  What each transaction of the broker does to the stored records and the counters, as exact
  equations, and that it preserves the invariant. Everything is proved in the locale
  \<open>bolt_db\<close>, from the documented behaviour of bbolt alone.
\<close>

definition expired_record :: "int \<Rightarrow> disk_record \<Rightarrow> disk_record" where
  "expired_record now r = r\<lparr>r_State := StReady, r_Token := [], r_Due := now\<rparr>"

text \<open>The records of a state that are due.\<close>

definition due_set :: "(bytes \<rightharpoonup> disk_record) \<Rightarrow> rstate \<Rightarrow> int \<Rightarrow> bytes set" where
  "due_set m st now = {i. \<exists>r. m i = Some r \<and> r_State r = st \<and> r_Due r \<le> now}"

text \<open>\<open>m\<close> after the leases in \<open>X\<close> have expired, and after the completions in \<open>X\<close> have gone.\<close>

definition expire_in :: "int \<Rightarrow> bytes set \<Rightarrow> (bytes \<rightharpoonup> disk_record) \<Rightarrow> (bytes \<rightharpoonup> disk_record)" where
  "expire_in now X m = (\<lambda>i. if i \<in> X then map_option (expired_record now) (m i) else m i)"

definition forget_in :: "bytes set \<Rightarrow> (bytes \<rightharpoonup> disk_record) \<Rightarrow> (bytes \<rightharpoonup> disk_record)" where
  "forget_in X m = (\<lambda>i. if i \<in> X then None else m i)"

lemma in_due_set: "i \<in> due_set m st now \<longleftrightarrow> (\<exists>r. m i = Some r \<and> r_State r = st \<and> r_Due r \<le> now)"
  by (simp add: due_set_def)

lemma lift_bolt_Inr [simp]: "lift_bolt x = Inr y \<longleftrightarrow> x = Inr y"
  by (cases x) (auto simp: lift_bolt_def)

context bolt_db
begin

section \<open>Single steps\<close>

lemma load_wf:
  "wf_db E db \<Longrightarrow> load E db i =
     (case recs E db i of None \<Rightarrow> Inr (zero_record, False) | Some r \<Rightarrow> Inr (r, True))"
  by (simp add: load_def wf_get split: option.splits)

lemma changes_move:
  assumes "tx_delete E db b0 (rkey r) = Inr db1" and "save E db1 i r' = Inr db2"
    and "tx_put E db2 b1 (rkey r') (DocBytes i) = Inr db3"
    and "idx (r_State r) = Some b0" and "idx (r_State r') = Some b1"
  shows "changes E db i (Some r) (Some r') db3" and "bseq E db3 c = bseq E db c"
proof -
  from assms(1-3) have 1: "bdelete E db b0 (rkey r) = Inr db1"
    and 2: "bput E db1 Records i (DocRecord r') = Inr db2"
    and 3: "bput E db2 b1 (rkey r') (DocBytes i) = Inr db3"
    by (simp_all add: tx_delete_def tx_put_def save_def)
  have "b0 \<noteq> Records" "b1 \<noteq> Records" using assms(4,5) by auto
  then show "changes E db i (Some r) (Some r') db3"
    using assms(4,5)
    by (auto simp: changes_def get_put [OF 3] get_put [OF 2] get_delete [OF 1])
  show "bseq E db3 c = bseq E db c"
    by (simp add: seq_put [OF 3] seq_put [OF 2] seq_delete [OF 1])
qed

text \<open>NACK writes the index before the record, a quarantine writes no index at all.\<close>

lemma changes_requeue:
  assumes "tx_delete E db b0 (rkey r) = Inr db1"
    and "tx_put E db1 b1 (rkey r') (DocBytes i) = Inr db2" and "save E db2 i r' = Inr db3"
    and "idx (r_State r) = Some b0" and "idx (r_State r') = Some b1"
  shows "changes E db i (Some r) (Some r') db3" and "bseq E db3 c = bseq E db c"
proof -
  from assms(1-3) have 1: "bdelete E db b0 (rkey r) = Inr db1"
    and 2: "bput E db1 b1 (rkey r') (DocBytes i) = Inr db2"
    and 3: "bput E db2 Records i (DocRecord r') = Inr db3"
    by (simp_all add: tx_delete_def tx_put_def save_def)
  have "b0 \<noteq> Records" "b1 \<noteq> Records" using assms(4,5) by auto
  then show "changes E db i (Some r) (Some r') db3"
    using assms(4,5)
    by (auto simp: changes_def get_put [OF 3] get_put [OF 2] get_delete [OF 1])
  show "bseq E db3 c = bseq E db c"
    by (simp add: seq_put [OF 3] seq_put [OF 2] seq_delete [OF 1])
qed

lemma changes_unindexed:
  assumes "tx_delete E db b0 (rkey r) = Inr db1" and "save E db1 i r' = Inr db2"
    and "idx (r_State r) = Some b0" and "idx (r_State r') = None"
  shows "changes E db i (Some r) (Some r') db2" and "bseq E db2 c = bseq E db c"
proof -
  from assms(1,2) have 1: "bdelete E db b0 (rkey r) = Inr db1"
    and 2: "bput E db1 Records i (DocRecord r') = Inr db2"
    by (simp_all add: tx_delete_def tx_put_def save_def)
  have "b0 \<noteq> Records" using assms(3) by auto
  then show "changes E db i (Some r) (Some r') db2"
    using assms(3,4) by (auto simp: changes_def get_put [OF 2] get_delete [OF 1])
  show "bseq E db2 c = bseq E db c"
    by (simp add: seq_put [OF 2] seq_delete [OF 1])
qed

lemma changes_remove:
  assumes "tx_delete E db b0 (rkey r) = Inr db1" and "tx_delete E db1 Records i = Inr db2"
    and "idx (r_State r) = Some b0"
  shows "changes E db i (Some r) None db2" and "bseq E db2 c = bseq E db c"
proof -
  from assms(1,2) have 1: "bdelete E db b0 (rkey r) = Inr db1"
    and 2: "bdelete E db1 Records i = Inr db2"
    by (simp_all add: tx_delete_def)
  have "b0 \<noteq> Records" using assms(3) by auto
  then show "changes E db i (Some r) None db2"
    using assms(3) by (auto simp: changes_def get_delete [OF 2] get_delete [OF 1])
  show "bseq E db2 c = bseq E db c"
    by (simp add: seq_delete [OF 2] seq_delete [OF 1])
qed

lemma changes_admit:
  assumes "bnext E db Records = Inr (n, db1)" and "save E db1 i r' = Inr db2"
    and "tx_put E db2 b1 (rkey r') (DocBytes i) = Inr db3" and "idx (r_State r') = Some b1"
  shows "changes E db i None (Some r') db3" and "bseq E db3 Records = n"
    and "n = bseq E db Records + 1"
proof -
  note 1 = assms(1)
  from assms(2,3) have 2: "bput E db1 Records i (DocRecord r') = Inr db2"
    and 3: "bput E db2 b1 (rkey r') (DocBytes i) = Inr db3"
    by (simp_all add: tx_put_def save_def)
  have "b1 \<noteq> Records" using assms(4) by auto
  then show "changes E db i None (Some r') db3"
    using assms(4) by (auto simp: changes_def get_put [OF 3] get_put [OF 2] get_next [OF 1])
  show "bseq E db3 Records = n" and "n = bseq E db Records + 1"
    using seq_next [OF 1, of Records] by (simp_all add: seq_put [OF 3] seq_put [OF 2])
qed

text \<open>A record that keeps its sequence number keeps the database well-formed.\<close>

lemma wf_db_same_seq:
  assumes wf: "wf_db E db" and r: "recs E db i = Some r"
    and ch: "changes E db i (Some r) ro' db'" and "bseq E db' Records = bseq E db Records"
    and "\<And>r'. ro' = Some r' \<Longrightarrow>
      r_State r' \<noteq> StNone \<and> due_ok (r_Due r') \<and> r_Sequence r' = r_Sequence r"
  shows "wf_db E db'"
proof (rule wf_db_changes [OF wf r ch])
  show "bseq E db Records \<le> bseq E db' Records" using assms(4) by simp
  fix r' assume "ro' = Some r'"
  from assms(5) [OF this] wf_record [OF wf r] wf_seq [OF wf r] assms(4)
  show "r_State r' \<noteq> StNone \<and> due_ok (r_Due r') \<and> r_Sequence r' \<le> bseq E db' Records
      \<and> (\<forall>j ra. j \<noteq> i \<longrightarrow> recs E db j = Some ra \<longrightarrow> r_Sequence ra \<noteq> r_Sequence r')"
    by metis
qed

section \<open>Due entries\<close>

lemma dueFirst_SomeE:
  assumes "wf_db E db" and "idx st = Some b" and "dueFirst E db b now = Some (k, v)"
  obtains i r where "v = DocBytes i" and "btext E v = i" and "recs E db i = Some r"
    and "r_State r = st" and "k = rkey r" and "r_Due r \<le> now"
    and "\<forall>j r'. recs E db j = Some r' \<longrightarrow> r_State r' = st \<longrightarrow> rkey r \<le> rkey r'"
proof -
  from assms(3) have first: "bfirst E db b = Some (k, v)" and le: "sint (get_uint64 k) \<le> now"
    by (auto simp: dueFirst_def split: option.splits if_splits)
  from first_get [OF first] wf_index [OF assms(1,2)]
  obtain i r where i: "v = DocBytes i" "recs E db i = Some r" "r_State r = st" "k = rkey r"
    by blast
  have "r_Due r \<le> now"
    using le wf_record [OF assms(1) i(2)] by (simp add: i(4) rkey_def indexKey_due)
  moreover have "rkey r \<le> rkey r'" if "recs E db j = Some r'" and "r_State r' = st" for j r'
  proof -
    have "bget E db b (rkey r') = Some (DocBytes j)"
      using that by (auto simp: wf_index [OF assms(1,2)])
    with first_least [OF first] i(4) show ?thesis by simp
  qed
  ultimately show ?thesis using that i by (simp add: text_bytes)
qed

lemma dueFirst_None:
  assumes wf: "wf_db E db" and b: "idx st = Some b" and "dueFirst E db b now = None"
  shows "due_set (recs E db) st now = {}"
proof -
  have False if i: "recs E db i = Some r" "r_State r = st" "r_Due r \<le> now" for i r
  proof -
    have "bget E db b (rkey r) = Some (DocBytes i)"
      using i by (auto simp: wf_index [OF wf b])
    with first_exists obtain k v where first: "bfirst E db b = Some (k, v)" by blast
    from first_get [OF first] wf_index [OF wf b]
    obtain j r' where j: "recs E db j = Some r'" "r_State r' = st" "k = rkey r'" by blast
    have "rkey r' \<le> rkey r"
      using first_least [OF first \<open>bget E db b (rkey r) = Some (DocBytes i)\<close>] j(3) by simp
    then have "r_Due r' \<le> r_Due r"
      using wf_record [OF wf i(1)] wf_record [OF wf j(1)]
      by (auto simp: rkey_def intro: indexKey_le_due)
    with i(3) have "r_Due r' \<le> now" by simp
    then have "sint (get_uint64 k) \<le> now"
      using wf_record [OF wf j(1)] by (simp add: j(3) rkey_def indexKey_due)
    with first assms(3) show False by (simp add: dueFirst_def)
  qed
  then show ?thesis by (auto simp: due_set_def)
qed

lemma finite_due_set [simp]: "finite (due_set (recs E db) st now)"
  by (rule finite_subset [OF _ finite_recs [of db]]) (auto simp: due_set_def)

section \<open>Expiry of leases\<close>

lemma expireLease_spec:
  assumes inv: "tx_inv E (db, s)" and r: "recs E db i = Some r" and st: "r_State r = StLeased"
    and now: "due_ok now" and run: "expireLease E now (rkey r) (DocBytes i) (db, s) = Inr (db', s')"
  shows "recs E db' = (recs E db)(i \<mapsto> expired_record now r)"
    and "s' = s\<lparr>s_Leased := s_Leased s - 1, s_Ready := s_Ready s + 1\<rparr>"
    and "tx_inv E (db', s')" and "bseq E db' Records = bseq E db Records"
proof -
  let ?r' = "expired_record now r"
  from inv have wf: "wf_db E db" and ws: "wf_stats E db s" by (simp_all add: tx_inv_def)
  have "rkey ?r' = indexKey now (r_Sequence r)" by (simp add: rkey_def expired_record_def)
  with run have "sbind (tx_delete E db Leases (rkey r)) (\<lambda>db1. sbind (save E db1 i ?r') (\<lambda>db2.
      sbind (tx_put E db2 Ready (rkey ?r') (DocBytes i)) (\<lambda>db3.
      Inr (db3, s\<lparr>s_Leased := s_Leased s - 1, s_Ready := s_Ready s + 1\<rparr>)))) = Inr (db', s')"
    by (simp add: expireLease_def text_bytes load_wf [OF wf] r expired_record_def)
  then obtain db1 db2 where
    "tx_delete E db Leases (rkey r) = Inr db1" and "save E db1 i ?r' = Inr db2"
    and "tx_put E db2 Ready (rkey ?r') (DocBytes i) = Inr db'"
    and s': "s' = s\<lparr>s_Leased := s_Leased s - 1, s_Ready := s_Ready s + 1\<rparr>"
    by auto
  then have ch: "changes E db i (Some r) (Some ?r') db'" and bs: "bseq E db' Records = bseq E db Records"
    using changes_move [of db Leases r db1 i ?r' db2 Ready db'] st
    by (simp_all add: expired_record_def)
  show "recs E db' = (recs E db)(i \<mapsto> ?r')" using recs_changes [OF ch] by simp
  show "s' = s\<lparr>s_Leased := s_Leased s - 1, s_Ready := s_Ready s + 1\<rparr>" by (rule s')
  show "bseq E db' Records = bseq E db Records" by (rule bs)
  have "wf_db E db'"
    by (rule wf_db_same_seq [OF wf r ch bs]) (use now in \<open>simp add: expired_record_def\<close>)
  moreover have "wf_stats E db' s'"
    by (rule wf_stats_changes [OF ws r ch])
       (simp_all add: s' st st_ind_def opt_weight_def weight_def expired_record_def)
  ultimately show "tx_inv E (db', s')" by (simp add: tx_inv_def)
qed

lemma expireLeases_loop_spec:
  assumes "tx_inv E t" and "due_ok now" and "expireLeases_loop E now n t = Inr t'"
  shows "\<exists>X. X \<subseteq> due_set (recs E (fst t)) StLeased now
    \<and> card X = min n (card (due_set (recs E (fst t)) StLeased now))
    \<and> recs E (fst t') = expire_in now X (recs E (fst t))
    \<and> snd t' = (snd t)\<lparr>s_Leased := s_Leased (snd t) - int (card X),
                       s_Ready := s_Ready (snd t) + int (card X)\<rparr>
    \<and> tx_inv E t' \<and> bseq E (fst t') Records = bseq E (fst t) Records"
  using assms
proof (induction n arbitrary: t)
  case 0
  then show ?case by (intro exI [of _ "{}"]) (simp add: expire_in_def)
next
  case (Suc n)
  obtain db s where t: "t = (db, s)" by fastforce
  with Suc.prems have inv: "tx_inv E (db, s)" and wf: "wf_db E db" by (simp_all add: tx_inv_def)
  let ?D = "due_set (recs E db) StLeased now"
  show ?case
  proof (cases "dueFirst E db Leases now")
    case None
    with dueFirst_None [OF wf, of StLeased] have D: "?D = {}" by simp
    from None Suc.prems(3) t have "t' = t" by simp
    with D inv t show ?thesis by (intro exI [of _ "{}"]) (simp add: expire_in_def)
  next
    case (Some kv)
    then obtain k v where kv: "dueFirst E db Leases now = Some (k, v)" by (cases kv) auto
    obtain i r where v: "v = DocBytes i" "btext E v = i"
      and i: "recs E db i = Some r" "r_State r = StLeased" "k = rkey r" "r_Due r \<le> now"
      and "\<forall>j r'. recs E db j = Some r' \<longrightarrow> r_State r' = StLeased \<longrightarrow> rkey r \<le> rkey r'"
      by (rule dueFirst_SomeE [OF wf idx.simps(2) kv])
    from Suc.prems(3) t kv i v obtain t1 where
      step: "expireLease E now (rkey r) (DocBytes i) (db, s) = Inr t1"
      and rest: "expireLeases_loop E now n t1 = Inr t'" by auto
    obtain db1 s1 where t1: "t1 = (db1, s1)" by fastforce
    note sp = expireLease_spec [OF inv i(1,2) Suc.prems(2) step [unfolded t1]]
    have iD: "i \<in> ?D" using i by (auto simp: due_set_def)
    have D1: "due_set (recs E db1) StLeased now = ?D - {i}"
      unfolding sp(1) by (auto simp: due_set_def expired_record_def)
    note IH = Suc.IH [OF sp(3) Suc.prems(2) rest [unfolded t1], unfolded fst_conv snd_conv D1]
    then obtain X where
      X: "X \<subseteq> ?D - {i}" "card X = min n (card (?D - {i}))"
        "recs E (fst t') = expire_in now X (recs E db1)"
        "snd t' = s1\<lparr>s_Leased := s_Leased s1 - int (card X), s_Ready := s_Ready s1 + int (card X)\<rparr>"
        "tx_inv E t'" "bseq E (fst t') Records = bseq E db1 Records"
      by blast
    have finX: "finite X" by (rule finite_subset [OF X(1)]) simp
    have iX: "i \<notin> X" using X(1) by blast
    have card: "card (insert i X) = min (Suc n) (card ?D)"
      using X(2) card.remove [OF finite_due_set iD] finX iX by simp
    have rec: "recs E (fst t') = expire_in now (insert i X) (recs E db)"
      unfolding X(3) sp(1) using iX i(1) by (auto simp: expire_in_def)
    show ?thesis
      unfolding t fst_conv snd_conv
    proof (intro exI [of _ "insert i X"] conjI)
      show "insert i X \<subseteq> ?D" using X(1) iD by blast
      show "snd t' = s\<lparr>s_Leased := s_Leased s - int (card (insert i X)),
          s_Ready := s_Ready s + int (card (insert i X))\<rparr>"
        unfolding X(4) sp(2) using finX iX by (simp add: algebra_simps)
      show "bseq E (fst t') Records = bseq E db Records" using X(6) sp(4) by simp
    qed (rule card rec X(5))+
  qed
qed

lemma expireLeases_spec:
  assumes "tx_inv E (db, s)" and "due_ok now" and "expireLeases E p now (db, s) = Inr (db', s')"
  obtains X where "X \<subseteq> due_set (recs E db) StLeased now"
    and "card X = min (nat (o_CleanupBatch p)) (card (due_set (recs E db) StLeased now))"
    and "recs E db' = expire_in now X (recs E db)"
    and "s' = s\<lparr>s_Leased := s_Leased s - int (card X), s_Ready := s_Ready s + int (card X)\<rparr>"
    and "tx_inv E (db', s')" and "bseq E db' Records = bseq E db Records"
  using expireLeases_loop_spec [OF assms(1,2) assms(3) [unfolded expireLeases_def]] by auto

section \<open>Expiry of completions\<close>

lemma removeCompleted_spec:
  assumes inv: "tx_inv E (db, s)" and r: "recs E db i = Some r" and st: "r_State r = StCompleted"
    and run: "removeCompleted E i r (db, s) = Inr (db', s')"
  shows "recs E db' = (recs E db)(i := None)"
    and "s' = s\<lparr>s_Completed := s_Completed s - 1,
                s_LogicalBytes := s_LogicalBytes s - completedOverhead\<rparr>"
    and "tx_inv E (db', s')" and "bseq E db' Records = bseq E db Records"
proof -
  from inv have wf: "wf_db E db" and ws: "wf_stats E db s" by (simp_all add: tx_inv_def)
  from run have "sbind (tx_delete E db Completions (rkey r)) (\<lambda>db1.
      sbind (tx_delete E db1 Records i) (\<lambda>db2. Inr (db2, s\<lparr>s_Completed := s_Completed s - 1,
                s_LogicalBytes := s_LogicalBytes s - completedOverhead\<rparr>))) = Inr (db', s')"
    by (simp add: removeCompleted_def rkey_def)
  then obtain db1 where
    "tx_delete E db Completions (rkey r) = Inr db1" and "tx_delete E db1 Records i = Inr db'"
    and s': "s' = s\<lparr>s_Completed := s_Completed s - 1,
                s_LogicalBytes := s_LogicalBytes s - completedOverhead\<rparr>"
    by auto
  then have ch: "changes E db i (Some r) None db'" and bs: "bseq E db' Records = bseq E db Records"
    using changes_remove [of db Completions r db1 i db'] st by simp_all
  show "recs E db' = (recs E db)(i := None)" using recs_changes [OF ch] by simp
  show "s' = s\<lparr>s_Completed := s_Completed s - 1,
                s_LogicalBytes := s_LogicalBytes s - completedOverhead\<rparr>" by (rule s')
  show "bseq E db' Records = bseq E db Records" by (rule bs)
  have "wf_db E db'" by (rule wf_db_same_seq [OF wf r ch bs]) simp
  moreover have "wf_stats E db' s'"
    by (rule wf_stats_changes [OF ws r ch])
       (simp_all add: s' st st_ind_def opt_weight_def weight_def)
  ultimately show "tx_inv E (db', s')" by (simp add: tx_inv_def)
qed

lemma expireCompleted_loop_spec:
  assumes "tx_inv E t" and "expireCompleted_loop E now n t = Inr t'"
  shows "\<exists>X. X \<subseteq> due_set (recs E (fst t)) StCompleted now
    \<and> card X = min n (card (due_set (recs E (fst t)) StCompleted now))
    \<and> recs E (fst t') = forget_in X (recs E (fst t))
    \<and> snd t' = (snd t)\<lparr>s_Completed := s_Completed (snd t) - int (card X),
                s_LogicalBytes := s_LogicalBytes (snd t) - int (card X) * completedOverhead\<rparr>
    \<and> tx_inv E t' \<and> bseq E (fst t') Records = bseq E (fst t) Records"
  using assms
proof (induction n arbitrary: t)
  case 0
  then show ?case by (intro exI [of _ "{}"]) (simp add: forget_in_def)
next
  case (Suc n)
  obtain db s where t: "t = (db, s)" by fastforce
  with Suc.prems have inv: "tx_inv E (db, s)" and wf: "wf_db E db" by (simp_all add: tx_inv_def)
  let ?D = "due_set (recs E db) StCompleted now"
  show ?case
  proof (cases "dueFirst E db Completions now")
    case None
    with dueFirst_None [OF wf, of StCompleted] have D: "?D = {}" by simp
    from None Suc.prems(2) t have "t' = t" by simp
    with D inv t show ?thesis by (intro exI [of _ "{}"]) (simp add: forget_in_def)
  next
    case (Some kv)
    then obtain k v where kv: "dueFirst E db Completions now = Some (k, v)" by (cases kv) auto
    obtain i r where v: "v = DocBytes i" "btext E v = i"
      and i: "recs E db i = Some r" "r_State r = StCompleted" "k = rkey r" "r_Due r \<le> now"
      and "\<forall>j r'. recs E db j = Some r' \<longrightarrow> r_State r' = StCompleted \<longrightarrow> rkey r \<le> rkey r'"
      by (rule dueFirst_SomeE [OF wf idx.simps(3) kv])
    from Suc.prems(2) t kv i v obtain t1 where
      step: "removeCompleted E i r (db, s) = Inr t1"
      and rest: "expireCompleted_loop E now n t1 = Inr t'" by (auto simp: load_wf [OF wf])
    obtain db1 s1 where t1: "t1 = (db1, s1)" by fastforce
    note sp = removeCompleted_spec [OF inv i(1,2) step [unfolded t1]]
    have iD: "i \<in> ?D" using i by (auto simp: due_set_def)
    have D1: "due_set (recs E db1) StCompleted now = ?D - {i}"
      unfolding sp(1) by (auto simp: due_set_def)
    note IH = Suc.IH [OF sp(3) rest [unfolded t1], unfolded fst_conv snd_conv D1]
    then obtain X where
      X: "X \<subseteq> ?D - {i}" "card X = min n (card (?D - {i}))"
        "recs E (fst t') = forget_in X (recs E db1)"
        "snd t' = s1\<lparr>s_Completed := s_Completed s1 - int (card X),
                s_LogicalBytes := s_LogicalBytes s1 - int (card X) * completedOverhead\<rparr>"
        "tx_inv E t'" "bseq E (fst t') Records = bseq E db1 Records"
      by blast
    have finX: "finite X" by (rule finite_subset [OF X(1)]) simp
    have iX: "i \<notin> X" using X(1) by blast
    have card: "card (insert i X) = min (Suc n) (card ?D)"
      using X(2) card.remove [OF finite_due_set iD] finX iX by simp
    have rec: "recs E (fst t') = forget_in (insert i X) (recs E db)"
      unfolding X(3) sp(1) by (auto simp: forget_in_def)
    show ?thesis
      unfolding t fst_conv snd_conv
    proof (intro exI [of _ "insert i X"] conjI)
      show "insert i X \<subseteq> ?D" using X(1) iD by blast
      show "snd t' = s\<lparr>s_Completed := s_Completed s - int (card (insert i X)),
          s_LogicalBytes := s_LogicalBytes s - int (card (insert i X)) * completedOverhead\<rparr>"
        unfolding X(4) sp(2) using finX iX by (simp add: algebra_simps)
      show "bseq E (fst t') Records = bseq E db Records" using X(6) sp(4) by simp
    qed (rule card rec X(5))+
  qed
qed

lemma expireCompleted_spec:
  assumes "tx_inv E (db, s)" and "expireCompleted E p now (db, s) = Inr (db', s')"
  obtains X where "X \<subseteq> due_set (recs E db) StCompleted now"
    and "card X = min (nat (o_CleanupBatch p)) (card (due_set (recs E db) StCompleted now))"
    and "recs E db' = forget_in X (recs E db)"
    and "s' = s\<lparr>s_Completed := s_Completed s - int (card X),
                s_LogicalBytes := s_LogicalBytes s - int (card X) * completedOverhead\<rparr>"
    and "tx_inv E (db', s')" and "bseq E db' Records = bseq E db Records"
  using expireCompleted_loop_spec [OF assms(1) assms(2) [unfolded expireCompleted_def]] by auto

end

end
