(* ===== verification/Durable_Ops.thy ===== *)
theory Durable_Ops
  imports Durable_Steps
begin

text \<open>
  The transactions of the broker as equations on the stored records: publish, lease, ACK,
  NACK and cleanup. Each lemma gives the records and counters after a successful transaction
  and that the invariant still holds.
\<close>

definition new_record :: "bytes \<Rightarrow> bytes \<Rightarrow> u64 \<Rightarrow> int \<Rightarrow> disk_record" where
  "new_record data hash seq now = zero_record\<lparr>r_Event := data, r_Hash := hash,
     r_State := StReady, r_Sequence := seq, r_Due := now\<rparr>"

definition leased_record :: "durable_options \<Rightarrow> string \<Rightarrow> int \<Rightarrow> disk_record \<Rightarrow> disk_record" where
  "leased_record p token now r = r\<lparr>r_State := StLeased, r_Token := token,
     r_Due := wrap64 (now + o_LeaseDuration p), r_Attempt := r_Attempt r + 1,
     r_LastNackToken := [], r_LastNackHash := zero_hash, r_Reason := []\<rparr>"

definition completed_record :: "durable_options \<Rightarrow> int \<Rightarrow> disk_record \<Rightarrow> disk_record" where
  "completed_record p now r = r\<lparr>r_Event := [], r_State := StCompleted,
     r_Due := wrap64 (now + o_CompletionTTL p)\<rparr>"

definition nacked_record :: "nack_request \<Rightarrow> bytes \<Rightarrow> int \<Rightarrow> disk_record \<Rightarrow> disk_record" where
  "nacked_record n hash now r =
     (let r1 = r\<lparr>r_LastNackToken := n_Token n, r_LastNackHash := hash, r_Token := [],
                 r_Reason := n_Reason n\<rparr>
      in if n_Permanent n then r1\<lparr>r_State := StQuarantined, r_Due := 0\<rparr>
         else r1\<lparr>r_State := StReady, r_Due := wrap64 (now + wrap64 (n_DelayMillis n * Millisecond))\<rparr>)"

text \<open>The identity is still known at \<open>now\<close>: stored, and not a completion that has expired.\<close>

definition retained :: "(bytes \<rightharpoonup> disk_record) \<Rightarrow> int \<Rightarrow> bytes \<Rightarrow> bool" where
  "retained m now i \<longleftrightarrow> (\<exists>r. m i = Some r \<and> \<not> (r_State r = StCompleted \<and> r_Due r \<le> now))"

definition limits :: "durable_options \<Rightarrow> durable_stats \<Rightarrow> bool" where
  "limits p s \<longleftrightarrow>
     s_Ready s + s_Leased s + s_Quarantined s \<le> o_Capacity p
   \<and> s_Ready s + s_Leased s + s_Quarantined s + s_Completed s \<le> o_DedupCapacity p
   \<and> s_Quarantined s \<le> o_QuarantineCapacity p
   \<and> s_LogicalBytes s \<le> o_MaxLogicalBytes p"

text \<open>bbolt can still number a record: fewer than \<open>2 ^ 64 - 1\<close> have been accepted.\<close>

definition seq_left :: "'db env \<Rightarrow> 'db \<Rightarrow> bool" where
  "seq_left E db \<longleftrightarrow> bseq E db Records \<noteq> - 1"

lemma word_less_plus_one:
  assumes "(b::u64) \<noteq> - 1"
  shows "b < b + 1"
proof -
  have "unat b \<noteq> unat (- 1 :: u64)" using assms by (metis word_unat_eq_iff)
  then have "unat b \<noteq> 2 ^ 64 - 1" by (simp add: unsigned_minus_1_eq_mask mask_eq_exp_minus_1)
  moreover have "unat b < 2 ^ 64" using unsigned_less [of b, where ?'a = nat] by simp
  ultimately have "unat b + 1 < 2 ^ 64" by linarith
  then show ?thesis by (simp add: word_less_nat_alt unat_word_ariths)
qed

lemma forget_in_retained:
  "X \<subseteq> due_set m StCompleted now \<Longrightarrow> retained m now i \<Longrightarrow> forget_in X m i = m i"
  by (auto simp: forget_in_def due_set_def retained_def)

lemma retained_forget_in:
  "X \<subseteq> due_set m StCompleted now \<Longrightarrow> retained (forget_in X m) now i \<longleftrightarrow> retained m now i"
  by (auto simp: forget_in_def due_set_def retained_def)

context bolt_db
begin

section \<open>Publish\<close>

lemma admit_spec:
  assumes inv: "tx_inv E (db, s)" and none: "recs E db i = None" and now: "due_ok now"
    and seq: "seq_left E db" and run: "admit E p i data hash now (db, s) = Inr (dup, db', s')"
  shows "\<not> dup" and "recs E db' = (recs E db)(i \<mapsto> new_record data hash (bseq E db Records + 1) now)"
    and "bseq E db' Records = bseq E db Records + 1" and "tx_inv E (db', s')"
    and "s' = s\<lparr>s_Ready := s_Ready s + 1, s_Accepted := s_Accepted s + 1,
               s_LogicalBytes := s_LogicalBytes s + (int (length data) + activeOverhead)\<rparr>"
    and "s_Ready s + s_Leased s + s_Quarantined s < o_Capacity p"
    and "s_LogicalBytes s + int (length data) + activeOverhead \<le> o_MaxLogicalBytes p"
    and "s_Ready s + s_Leased s + s_Quarantined s + s_Completed s < o_DedupCapacity p"
proof -
  let ?n = "bseq E db Records + 1"
  let ?r = "new_record data hash ?n now"
  from inv have wf: "wf_db E db" and ws: "wf_stats E db s" by (simp_all add: tx_inv_def)
  show guards: "s_Ready s + s_Leased s + s_Quarantined s < o_Capacity p"
    "s_LogicalBytes s + int (length data) + activeOverhead \<le> o_MaxLogicalBytes p"
    "s_Ready s + s_Leased s + s_Quarantined s + s_Completed s < o_DedupCapacity p"
    using run by (simp_all add: admit_def not_le not_less split: if_splits)
  from run guards obtain n db1 db2 where
    next1: "bnext E db Records = Inr (n, db1)"
    and save: "save E db1 i (new_record data hash n now) = Inr db2"
    and put: "tx_put E db2 Ready (indexKey now n) (DocBytes i) = Inr db'"
    and dup: "\<not> dup"
    and s': "s' = s\<lparr>s_Ready := s_Ready s + 1, s_Accepted := s_Accepted s + 1,
               s_LogicalBytes := s_LogicalBytes s + (int (length data) + activeOverhead)\<rparr>"
    by (auto simp: admit_def new_record_def Let_def)
  have n: "n = ?n" using seq_next [OF next1] by blast
  have key: "rkey ?r = indexKey now ?n" by (simp add: rkey_def new_record_def)
  have ch: "changes E db i None (Some ?r) db'" and bs: "bseq E db' Records = ?n"
    using changes_admit [of db n db1 i ?r db2 Ready db'] next1 save put
    by (simp_all add: n key) (simp_all add: new_record_def)
  show "\<not> dup" by (rule dup)
  show "recs E db' = (recs E db)(i \<mapsto> ?r)" by (rule recs_changes [OF ch])
  show "bseq E db' Records = ?n" by (rule bs)
  show "s' = s\<lparr>s_Ready := s_Ready s + 1, s_Accepted := s_Accepted s + 1,
               s_LogicalBytes := s_LogicalBytes s + (int (length data) + activeOverhead)\<rparr>"
    by (rule s')
  have less: "bseq E db Records < ?n"
    using seq by (intro word_less_plus_one) (simp add: seq_left_def)
  have "wf_db E db'"
  proof (rule wf_db_changes [OF wf none ch])
    show "bseq E db Records \<le> bseq E db' Records" using less bs by simp
    fix r' assume "Some ?r = Some r'"
    then have r': "r' = ?r" by simp
    have "r_Sequence r \<noteq> ?n" if "recs E db j = Some r" for j r
      using wf_record [OF wf that] less by auto
    then show "r_State r' \<noteq> StNone \<and> due_ok (r_Due r') \<and> r_Sequence r' \<le> bseq E db' Records
        \<and> (\<forall>j r. j \<noteq> i \<longrightarrow> recs E db j = Some r \<longrightarrow> r_Sequence r \<noteq> r_Sequence r')"
      using now bs by (simp add: r') (simp add: new_record_def)
  qed
  moreover have "wf_stats E db' s'"
    by (rule wf_stats_changes [OF ws none ch])
       (simp_all add: s' st_ind_def opt_weight_def weight_def new_record_def)
  ultimately show "tx_inv E (db', s')" by (simp add: tx_inv_def)
qed

lemma Publish_tx_spec:
  assumes inv: "tx_inv E (db, s)" and now: "due_ok now" and seq: "seq_left E db"
    and run: "Publish_tx E p i data hash (db, s) now = Inr (dup, db', s')"
  obtains X where "X \<subseteq> due_set (recs E db) StCompleted now"
    and "tx_inv E (db', s')" and "dup \<longleftrightarrow> retained (recs E db) now i"
    and "dup \<longrightarrow> map_option r_Hash (recs E db i) = Some hash
                 \<and> recs E db' = forget_in X (recs E db) \<and> bseq E db' Records = bseq E db Records"
    and "\<not> dup \<longrightarrow> recs E db' = (forget_in X (recs E db))
                     (i \<mapsto> new_record data hash (bseq E db Records + 1) now)
                   \<and> bseq E db' Records = bseq E db Records + 1"
    and "s_Accepted s' = (if dup then s_Accepted s else s_Accepted s + 1)"
    and "limits p s \<longrightarrow> limits p s'"
proof -
  from run obtain t1 where exp: "expireCompleted E p now (db, s) = Inr t1"
    and rest: "sbind (load E (fst t1) i) (\<lambda>(old, ok).
       if ok \<and> r_State old = StCompleted \<and> r_Due old \<le> now
       then sbind (removeCompleted E i old t1) (admit E p i data hash now)
       else if ok then (if r_Hash old \<noteq> hash then Inl ErrConflict else Inr (True, t1))
       else admit E p i data hash now t1) = Inr (dup, db', s')"
    by (auto simp: Publish_tx_def simp del: sbind_Inr elim: sbind_Inr [THEN iffD1, elim_format])
  obtain db1 s1 where t1: "t1 = (db1, s1)" by fastforce
  obtain X where X: "X \<subseteq> due_set (recs E db) StCompleted now"
      "recs E db1 = forget_in X (recs E db)"
      "s1 = s\<lparr>s_Completed := s_Completed s - int (card X),
              s_LogicalBytes := s_LogicalBytes s - int (card X) * completedOverhead\<rparr>"
      "tx_inv E (db1, s1)" "bseq E db1 Records = bseq E db Records"
    by (rule expireCompleted_spec [OF inv exp [unfolded t1]])
  from X(4) have wf1: "wf_db E db1" by (simp add: tx_inv_def)
  have lim1: "limits p s \<longrightarrow> limits p s1" by (simp add: X(3) limits_def completedOverhead_def)
  note rest' = rest [unfolded t1 fst_conv load_wf [OF wf1]]
  show ?thesis
  proof (cases "retained (recs E db1) now i")
    case True
    then obtain old where old: "recs E db1 i = Some old"
        "\<not> (r_State old = StCompleted \<and> r_Due old \<le> now)" by (auto simp: retained_def)
    with rest' have res: "dup" "db' = db1" "s' = s1" "r_Hash old = hash"
      by (simp_all split: if_splits)
    have "recs E db i = Some old"
      using forget_in_retained [OF X(1)] True old(1) retained_forget_in [OF X(1)]
      by (simp add: X(2))
    then show ?thesis
      using that [OF X(1)] X True res lim1 retained_forget_in [OF X(1)] by simp
  next
    case False
    have notret: "\<not> retained (recs E db) now i"
      using False retained_forget_in [OF X(1)] by (simp add: X(2))
    have "\<exists>db2 s2. tx_inv E (db2, s2) \<and> recs E db2 i = None
        \<and> (recs E db2)(i := None) = (forget_in X (recs E db))(i := None)
        \<and> bseq E db2 Records = bseq E db Records \<and> (limits p s \<longrightarrow> limits p s2)
        \<and> s_Accepted s2 = s_Accepted s
        \<and> admit E p i data hash now (db2, s2) = Inr (dup, db', s')"
    proof (cases "recs E db1 i")
      case None
      with rest' have "admit E p i data hash now (db1, s1) = Inr (dup, db', s')" by simp
      with None X lim1 show ?thesis by (intro exI [of _ db1] exI [of _ s1]) simp
    next
      case (Some old)
      with False have old: "r_State old = StCompleted" "r_Due old \<le> now"
        by (auto simp: retained_def)
      from rest' Some old obtain db2 s2 where
        rem: "removeCompleted E i old (db1, s1) = Inr (db2, s2)"
        and adm: "admit E p i data hash now (db2, s2) = Inr (dup, db', s')" by auto
      note sp = removeCompleted_spec [OF X(4) Some old(1) rem]
      from sp X lim1 adm show ?thesis
        by (intro exI [of _ db2] exI [of _ s2]) (auto simp: limits_def completedOverhead_def)
    qed
    then obtain db2 s2 where 2: "tx_inv E (db2, s2)" "recs E db2 i = None"
        "(recs E db2)(i := None) = (forget_in X (recs E db))(i := None)"
        "bseq E db2 Records = bseq E db Records" "limits p s \<longrightarrow> limits p s2"
        "s_Accepted s2 = s_Accepted s"
        "admit E p i data hash now (db2, s2) = Inr (dup, db', s')" by blast
    have seq2: "seq_left E db2" using seq 2(4) by (simp add: seq_left_def)
    note sp = admit_spec [OF 2(1,2) now seq2 2(7)]
    have rec: "recs E db' = (forget_in X (recs E db))(i \<mapsto> new_record data hash (bseq E db Records + 1) now)"
      using sp(2) 2(3,4) by (metis fun_upd_upd)
    have lim: "limits p s'" if "limits p s"
      using 2(5) that sp(5-8) by (simp add: limits_def)
    show ?thesis
      using that [OF X(1) sp(4)] notret sp(1,3,5) rec 2(4,6) lim by simp
  qed
qed

section \<open>Lease\<close>

lemma tryLease_tx_spec:
  assumes inv: "tx_inv E (db, s)" and now: "clock_ok now" and p: "Options_Validate p = Inr ()"
    and run: "tryLease_tx E p rnd (db, s) now = Inr (dl, db', s')"
  obtains X i r token e where "X \<subseteq> due_set (recs E db) StLeased now"
    and "card X = min (nat (o_CleanupBatch p)) (card (due_set (recs E db) StLeased now))"
    and "expire_in now X (recs E db) i = Some r" and "r_State r = StReady" and "r_Due r \<le> now"
    and "\<forall>j r'. expire_in now X (recs E db) j = Some r' \<longrightarrow> r_State r' = StReady
           \<longrightarrow> rkey r \<le> rkey r'"
    and "NewID rnd = Some token" and "unmarshal E (r_Event r) = Some e"
    and "dl = \<lparr>d_Event = e, d_Token = token,
               d_ExpiresAt = unix_time (wrap64 (now + o_LeaseDuration p)),
               d_Attempt = r_Attempt r + 1\<rparr>"
    and "recs E db' = (expire_in now X (recs E db))(i \<mapsto> leased_record p token now r)"
    and "tx_inv E (db', s')" and "bseq E db' Records = bseq E db Records"
    and "limits p s \<longrightarrow> limits p s'" and "s_Deliveries s' = s_Deliveries s + 1"
proof -
  from run obtain db1 s1 where exp: "expireLeases E p now (db, s) = Inr (db1, s1)"
    and rest: "tryLease_tx E p rnd (db, s) now = Inr (dl, db', s')"
    by (auto simp: tryLease_tx_def)
  obtain X where X: "X \<subseteq> due_set (recs E db) StLeased now"
    "card X = min (nat (o_CleanupBatch p)) (card (due_set (recs E db) StLeased now))"
    "recs E db1 = expire_in now X (recs E db)"
    "s1 = s\<lparr>s_Leased := s_Leased s - int (card X), s_Ready := s_Ready s + int (card X)\<rparr>"
    "tx_inv E (db1, s1)" "bseq E db1 Records = bseq E db Records"
    by (rule expireLeases_spec [OF inv clock_now_ok [OF now] exp])
  from X(5) have wf1: "wf_db E db1" and ws1: "wf_stats E db1 s1" by (simp_all add: tx_inv_def)
  from rest exp obtain k v where kv: "dueFirst E db1 Ready now = Some (k, v)"
    by (auto simp: tryLease_tx_def split: option.splits)
  obtain i r where v: "v = DocBytes i" "btext E v = i"
    and i: "recs E db1 i = Some r" "r_State r = StReady" "k = rkey r" "r_Due r \<le> now"
    and least: "\<forall>j r'. recs E db1 j = Some r' \<longrightarrow> r_State r' = StReady \<longrightarrow> rkey r \<le> rkey r'"
    by (rule dueFirst_SomeE [OF wf1 idx.simps(1) kv])
  from rest exp kv v i obtain token where token: "NewID rnd = Some token"
    by (auto simp: tryLease_tx_def load_wf [OF wf1] split: option.splits)
  let ?r' = "leased_record p token now r"
  have key: "indexKey (r_Due ?r') (r_Sequence ?r') = rkey ?r'" by (simp add: rkey_def)
  have fields: "r_Due ?r' = wrap64 (now + o_LeaseDuration p)" "r_Sequence ?r' = r_Sequence r"
    "r_Event ?r' = r_Event r" "r_Attempt ?r' = r_Attempt r + 1" "r_State ?r' = StLeased"
    by (simp_all add: leased_record_def)
  from rest exp kv v i(1) token obtain db2 db3 e where
    del: "tx_delete E db1 Ready (rkey r) = Inr db2"
    and sav: "save E db2 i ?r' = Inr db3"
    and put: "tx_put E db3 Leases (rkey ?r') (DocBytes i) = Inr db'"
    and e: "unmarshal E (r_Event r) = Some e"
    and s': "s' = s1\<lparr>s_Ready := s_Ready s1 - 1, s_Leased := s_Leased s1 + 1,
                     s_Deliveries := s_Deliveries s1 + 1,
                     s_Redeliveries := (if r_Attempt r + 1 > 1 then s_Redeliveries s1 + 1
                                        else s_Redeliveries s1)\<rparr>"
    and dl: "dl = \<lparr>d_Event = e, d_Token = token,
               d_ExpiresAt = unix_time (wrap64 (now + o_LeaseDuration p)),
               d_Attempt = r_Attempt r + 1\<rparr>"
    unfolding key [symmetric] fields(1,2)
    by (simp add: tryLease_tx_def load_wf [OF wf1] i(3) leased_record_def Let_def
        split: option.splits) (metis (no_types, lifting))
  have ch: "changes E db1 i (Some r) (Some ?r') db'" and bs: "bseq E db' Records = bseq E db1 Records"
    using changes_move [OF del sav put] i(2) fields(5) by simp_all
  have due: "due_ok (wrap64 (now + o_LeaseDuration p))"
  proof -
    have "due_ok (now + o_LeaseDuration p)"
      using Options_Validate_ok [OF p] by (intro clock_due_ok [OF now]) simp_all
    then show ?thesis by simp
  qed
  have "wf_db E db'"
    by (rule wf_db_same_seq [OF wf1 i(1) ch bs]) (use due fields in simp)
  moreover have "wf_stats E db' s'"
    by (rule wf_stats_changes [OF ws1 i(1) ch])
       (simp_all add: s' i(2) fields st_ind_def opt_weight_def weight_def)
  ultimately have inv': "tx_inv E (db', s')" by (simp add: tx_inv_def)
  have rec: "recs E db' = (expire_in now X (recs E db))(i \<mapsto> ?r')"
    using recs_changes [OF ch] X(3) by simp
  have lim: "limits p s \<longrightarrow> limits p s'" by (simp add: limits_def s' X(4))
  have del: "s_Deliveries s' = s_Deliveries s + 1" by (simp add: s' X(4))
  show ?thesis
    by (rule that [OF X(1,2) i(1) [unfolded X(3)] i(2,4) least [unfolded X(3)] token e dl rec inv' _ lim del])
       (simp_all add: bs X(6))
qed

end

end
