(* ===== verification/Durable_Receipts.thy ===== *)
theory Durable_Receipts
  imports Durable_Ops
begin

text \<open>
  ACK, NACK and cleanup as equations on the stored records, and the passage from a
  transaction to the broker: what \<^verbatim>\<open>update\<close> does when the transaction succeeds and that it does
  nothing when anything fails.
\<close>

text \<open>A transaction that fails leaves the broker as it was.\<close>

lemma update_Inl: "update E d i f = (Inl e, d') \<Longrightarrow> d' = d"
  by (auto simp: update_def split: sum.splits option.splits prod.splits)

context bolt_db
begin

section \<open>ACK\<close>

lemma Ack_tx_spec:
  assumes inv: "tx_inv E (db, s)" and now: "clock_ok now" and p: "Options_Validate p = Inr ()"
    and run: "Ack_tx E p a (db, s) now = Inr (dup, db', s')"
  obtains r where "recs E db (a_EventID a) = Some r" and "r_Token r = a_Token a" and "now < r_Due r"
    and "r_State r = (if dup then StCompleted else StLeased)"
    and "recs E db' = (if dup then recs E db
                       else (recs E db)(a_EventID a \<mapsto> completed_record p now r))"
    and "tx_inv E (db', s')" and "bseq E db' Records = bseq E db Records"
    and "limits p s \<longrightarrow> limits p s'"
    and "s_Acked s' = (if dup then s_Acked s else s_Acked s + 1)"
proof -
  let ?i = "a_EventID a"
  from inv have wf: "wf_db E db" and ws: "wf_stats E db s" by (simp_all add: tx_inv_def)
  from run obtain r where r: "recs E db ?i = Some r"
    by (auto simp: Ack_tx_def load_wf [OF wf] split: option.splits)
  show ?thesis
  proof (cases "r_State r = StCompleted \<and> r_Token r = a_Token a \<and> r_Due r > now")
    case True
    with run r have "dup" "db' = db" "s' = s" by (simp_all add: Ack_tx_def load_wf [OF wf])
    with that [OF r] True inv show ?thesis by simp
  next
    case False
    with run r have st: "r_State r = StLeased" and tok: "r_Token r = a_Token a" and due: "now < r_Due r"
      by (auto simp: Ack_tx_def load_wf [OF wf] split: if_splits)
    let ?r' = "completed_record p now r"
    have key: "rkey ?r' = indexKey (wrap64 (now + o_CompletionTTL p)) (r_Sequence r)"
      by (simp add: rkey_def completed_record_def)
    from run r st tok due obtain db1 db2 where
      del: "tx_delete E db Leases (rkey r) = Inr db1"
      and sav: "save E db1 ?i ?r' = Inr db2"
      and put: "tx_put E db2 Completions (rkey ?r') (DocBytes ?i) = Inr db'"
      and dup: "\<not> dup"
      and s': "s' = s\<lparr>s_LogicalBytes := s_LogicalBytes s
                    - (int (length (r_Event r)) + activeOverhead - completedOverhead),
                 s_Leased := s_Leased s - 1, s_Completed := s_Completed s + 1,
                 s_Acked := s_Acked s + 1\<rparr>"
      unfolding key by (auto simp: Ack_tx_def load_wf [OF wf] completed_record_def rkey_def Let_def)
    have st': "r_State ?r' = StCompleted" "r_Due ?r' = wrap64 (now + o_CompletionTTL p)"
      "r_Sequence ?r' = r_Sequence r" by (simp_all add: completed_record_def)
    have ch: "changes E db ?i (Some r) (Some ?r') db'"
      and bs: "bseq E db' Records = bseq E db Records"
      using changes_move [OF del sav put] st st' by simp_all
    have "due_ok (now + o_CompletionTTL p)"
      using Options_Validate_ok [OF p] by (intro clock_due_ok [OF now]) simp_all
    then have "wf_db E db'"
      by (intro wf_db_same_seq [OF wf r ch bs]) (auto simp: st' split: if_splits)
    moreover have "wf_stats E db' s'"
      by (rule wf_stats_changes [OF ws r ch])
         (simp_all add: s' st st' st_ind_def opt_weight_def weight_def)
    ultimately have inv': "tx_inv E (db', s')" by (simp add: tx_inv_def)
    have "0 \<le> int (length (r_Event r)) + activeOverhead - completedOverhead"
      by (simp add: activeOverhead_def completedOverhead_def)
    then have lim: "limits p s \<longrightarrow> limits p s'" by (simp add: limits_def s')
    show ?thesis
      using that [OF r tok due _ _ inv' bs lim] dup st recs_changes [OF ch] by (simp add: s')
  qed
qed

section \<open>NACK\<close>

lemma Nack_tx_spec:
  assumes inv: "tx_inv E (db, s)" and now: "clock_ok now" and ok: "\<not> bad_nack n"
    and run: "Nack_tx E p n hash (db, s) now = Inr (dup, db', s')"
  obtains r where "recs E db (n_EventID n) = Some r"
    and "dup \<longrightarrow> r_State r \<in> {StReady, StQuarantined} \<and> r_LastNackToken r = n_Token n
           \<and> r_LastNackHash r = hash \<and> db' = db \<and> s' = s"
    and "\<not> dup \<longrightarrow> r_State r = StLeased \<and> r_Token r = n_Token n \<and> now < r_Due r
           \<and> (n_Permanent n \<longrightarrow> s_Quarantined s < o_QuarantineCapacity p)
           \<and> recs E db' = (recs E db)(n_EventID n \<mapsto> nacked_record n hash now r)"
    and "tx_inv E (db', s')" and "bseq E db' Records = bseq E db Records"
    and "limits p s \<longrightarrow> limits p s'"
proof -
  let ?i = "n_EventID n"
  from inv have wf: "wf_db E db" and ws: "wf_stats E db s" by (simp_all add: tx_inv_def)
  from run obtain r where r: "recs E db ?i = Some r"
    by (auto simp: Nack_tx_def load_wf [OF wf] split: option.splits)
  show ?thesis
  proof (cases "(r_State r = StReady \<or> r_State r = StQuarantined) \<and> r_LastNackToken r = n_Token n")
    case True
    with run r have res: "dup" "db' = db" "s' = s" "r_LastNackHash r = hash"
      by (auto simp: Nack_tx_def load_wf [OF wf] split: if_splits)
    with that [OF r] True inv show ?thesis by simp
  next
    case False
    with run r have st: "r_State r = StLeased" and tok: "r_Token r = n_Token n" and due: "now < r_Due r"
      and cap: "n_Permanent n \<longrightarrow> s_Quarantined s < o_QuarantineCapacity p"
      by (auto simp: Nack_tx_def load_wf [OF wf] split: if_splits)
    let ?r' = "nacked_record n hash now r"
    have st': "r_State ?r' = (if n_Permanent n then StQuarantined else StReady)"
      "r_Sequence ?r' = r_Sequence r" "r_Event ?r' = r_Event r"
      by (simp_all add: nacked_record_def Let_def)
    have ch: "changes E db ?i (Some r) (Some ?r') db'"
      and bs: "bseq E db' Records = bseq E db Records" and dup: "\<not> dup"
      and s': "s' = (if n_Permanent n
                 then s\<lparr>s_Leased := s_Leased s - 1, s_Quarantined := s_Quarantined s + 1\<rparr>
                 else s\<lparr>s_Leased := s_Leased s - 1, s_Ready := s_Ready s + 1\<rparr>)"
    proof -
      have "changes E db ?i (Some r) (Some ?r') db' \<and> bseq E db' Records = bseq E db Records \<and> \<not> dup
          \<and> s' = (if n_Permanent n
                 then s\<lparr>s_Leased := s_Leased s - 1, s_Quarantined := s_Quarantined s + 1\<rparr>
                 else s\<lparr>s_Leased := s_Leased s - 1, s_Ready := s_Ready s + 1\<rparr>)"
      proof (cases "n_Permanent n")
        case True
        with run r st tok due cap obtain db1 where
          "tx_delete E db Leases (rkey r) = Inr db1" and "save E db1 ?i ?r' = Inr db'"
          and "\<not> dup"
          and "s' = s\<lparr>s_Leased := s_Leased s - 1, s_Quarantined := s_Quarantined s + 1\<rparr>"
          by (auto simp: Nack_tx_def load_wf [OF wf] nacked_record_def rkey_def Let_def)
        then show ?thesis
          using changes_unindexed [of db Leases r db1 ?i ?r' db'] st st' True by simp
      next
        case False
        have key: "rkey ?r' = indexKey (r_Due ?r') (r_Sequence ?r')" by (simp add: rkey_def)
        from False run r st tok due obtain db1 db2 where
          "tx_delete E db Leases (rkey r) = Inr db1"
          and "tx_put E db1 Ready (rkey ?r') (DocBytes ?i) = Inr db2"
          and "save E db2 ?i ?r' = Inr db'" and "\<not> dup"
          and "s' = s\<lparr>s_Leased := s_Leased s - 1, s_Ready := s_Ready s + 1\<rparr>"
          unfolding key by (auto simp: Nack_tx_def load_wf [OF wf] nacked_record_def rkey_def Let_def)
        then show ?thesis
          using changes_requeue [of db Leases r db1 Ready ?r' ?i db2 db'] st st' False by simp
      qed
      then show "changes E db ?i (Some r) (Some ?r') db'"
        and "bseq E db' Records = bseq E db Records" and "\<not> dup"
        and "s' = (if n_Permanent n
                 then s\<lparr>s_Leased := s_Leased s - 1, s_Quarantined := s_Quarantined s + 1\<rparr>
                 else s\<lparr>s_Leased := s_Leased s - 1, s_Ready := s_Ready s + 1\<rparr>)" by blast+
    qed
    have "due_ok (r_Due ?r')"
    proof (cases "n_Permanent n")
      case True
      then show ?thesis by (simp add: nacked_record_def Let_def due_ok_def)
    next
      case False
      have delay: "0 \<le> n_DelayMillis n" "n_DelayMillis n \<le> 3600000"
        using ok by (simp_all add: bad_nack_def unit_defs not_less)
      have "0 \<le> n_DelayMillis n * Millisecond"
        and le: "n_DelayMillis n * Millisecond \<le> 3600000000000"
        using delay by (simp_all add: Millisecond_def)
      then have "due_ok (n_DelayMillis n * Millisecond)" by (simp add: due_ok_def)
      moreover have "due_ok (now + n_DelayMillis n * Millisecond)"
        using \<open>0 \<le> n_DelayMillis n * Millisecond\<close> le by (intro clock_due_ok [OF now]) simp_all
      ultimately show ?thesis using False by (simp add: nacked_record_def Let_def)
    qed
    then have "wf_db E db'"
      by (intro wf_db_same_seq [OF wf r ch bs]) (auto simp: st' split: if_splits)
    moreover have "wf_stats E db' s'"
      by (rule wf_stats_changes [OF ws r ch])
         (simp_all add: s' st st' st_ind_def opt_weight_def weight_def)
    ultimately have inv': "tx_inv E (db', s')" by (simp add: tx_inv_def)
    have lim: "limits p s \<longrightarrow> limits p s'"
      using cap by (auto simp: limits_def s')
    show ?thesis
      using that [OF r _ _ inv' bs lim] dup st tok due cap recs_changes [OF ch] by simp
  qed
qed

section \<open>Cleanup\<close>

lemma Cleanup_tx_spec:
  assumes inv: "tx_inv E (db, s)" and now: "due_ok now"
    and run: "Cleanup_tx E p (db, s) now = Inr (u, db', s')"
  obtains X Y where "X \<subseteq> due_set (recs E db) StLeased now"
    and "card X = min (nat (o_CleanupBatch p)) (card (due_set (recs E db) StLeased now))"
    and "Y \<subseteq> due_set (recs E db) StCompleted now"
    and "card Y = min (nat (o_CleanupBatch p)) (card (due_set (recs E db) StCompleted now))"
    and "recs E db' = forget_in Y (expire_in now X (recs E db))"
    and "tx_inv E (db', s')" and "bseq E db' Records = bseq E db Records"
    and "limits p s \<longrightarrow> limits p s'"
proof -
  from run obtain db1 s1 where exp: "expireLeases E p now (db, s) = Inr (db1, s1)"
    and com: "expireCompleted E p now (db1, s1) = Inr (db', s')"
    by (auto simp: Cleanup_tx_def)
  obtain X where X: "X \<subseteq> due_set (recs E db) StLeased now"
    "card X = min (nat (o_CleanupBatch p)) (card (due_set (recs E db) StLeased now))"
    "recs E db1 = expire_in now X (recs E db)"
    "s1 = s\<lparr>s_Leased := s_Leased s - int (card X), s_Ready := s_Ready s + int (card X)\<rparr>"
    "tx_inv E (db1, s1)" "bseq E db1 Records = bseq E db Records"
    by (rule expireLeases_spec [OF inv now exp])
  obtain Y where Y: "Y \<subseteq> due_set (recs E db1) StCompleted now"
    "card Y = min (nat (o_CleanupBatch p)) (card (due_set (recs E db1) StCompleted now))"
    "recs E db' = forget_in Y (recs E db1)"
    "s' = s1\<lparr>s_Completed := s_Completed s1 - int (card Y),
             s_LogicalBytes := s_LogicalBytes s1 - int (card Y) * completedOverhead\<rparr>"
    "tx_inv E (db', s')" "bseq E db' Records = bseq E db1 Records"
    by (rule expireCompleted_spec [OF X(5) com])
  have same: "due_set (recs E db1) StCompleted now = due_set (recs E db) StCompleted now"
    using X(1) unfolding X(3)
    by (auto simp: due_set_def expire_in_def expired_record_def split: if_splits)
  have lim: "limits p s \<longrightarrow> limits p s'"
    by (simp add: limits_def Y(4) X(4) completedOverhead_def)
  show ?thesis
    by (rule that [OF X(1,2) Y(1,2) [unfolded same] Y(3) [unfolded X(3)] Y(5) _ lim])
       (simp_all add: Y(6) X(6))
qed

section \<open>From transactions to the broker\<close>

text \<open>The invariant looks at the metadata bucket only through the counters.\<close>

lemma tx_inv_metadata:
  assumes "\<And>b k. b \<noteq> Metadata \<Longrightarrow> bget E db' b k = bget E db b k"
    and "bseq E db' Records = bseq E db Records"
  shows "recs E db' = recs E db" and "tx_inv E (db', s) \<longleftrightarrow> tx_inv E (db, s)"
proof -
  show rec: "recs E db' = recs E db" by (rule ext) (simp add: recs_def assms(1))
  have "bget E db' b k = bget E db b k" if "idx st = Some b" for st b k
    using that by (intro assms(1)) auto
  then have "wf_db E db' \<longleftrightarrow> wf_db E db"
    unfolding wf_db_def rec assms(2) assms(1) [of Records, simplified] by simp
  then show "tx_inv E (db', s) \<longleftrightarrow> tx_inv E (db, s)"
    by (simp add: tx_inv_def wf_stats_def in_state_def rec)
qed

lemma stats_put_inv:
  assumes "tx_put E db' Metadata ''stats'' (DocStats s') = Inr db''"
  shows "recs E db'' = recs E db'" and "bseq E db'' Records = bseq E db' Records"
    and "read_stats E db'' = Inr s'" and "tx_inv E (db', s') \<longrightarrow> tx_inv E (db'', s')"
proof -
  from assms have put: "bput E db' Metadata ''stats'' (DocStats s') = Inr db''"
    by (simp add: tx_put_def)
  show bs: "bseq E db'' Records = bseq E db' Records" by (simp add: seq_put [OF put])
  have other: "bget E db'' b k = bget E db' b k" if "b \<noteq> Metadata" for b k
    using that by (simp add: get_put [OF put])
  show "read_stats E db'' = Inr s'" by (simp add: read_stats_def get_put [OF put])
  show "recs E db'' = recs E db'" and "tx_inv E (db', s') \<longrightarrow> tx_inv E (db'', s')"
    using tx_inv_metadata [OF other bs] by simp_all
qed

text \<open>
  A successful \<open>update\<close> ran its transaction on the committed state with the committed
  counters and committed the result; a failed one left the broker as it was.
\<close>

lemma update_InrE:
  assumes "update E d i f = (Inr x, d')"
  obtains s db' s' where "read_stats E (b_db d) = Inr s" and "i_ctx i = None" and "\<not> b_stopped d"
    and "f (b_db d, s) (i_now i) = Inr (x, db', s')"
    and "recs E (b_db d') = recs E db'" and "bseq E (b_db d') Records = bseq E db' Records"
    and "read_stats E (b_db d') = Inr s'" and "tx_inv E (db', s') \<longrightarrow> tx_inv E (b_db d', s')"
    and "b_opts d' = b_opts d" and "b_stopped d' = b_stopped d" and "b_notify d'"
proof -
  from assms obtain db'' where enter: "enter d i = Inr ()"
    and tx: "update_tx E (i_now i) f (b_db d) = Inr (x, db'')" and d': "d' = signal (d\<lparr>b_db := db''\<rparr>)"
    by (auto simp: update_def split: sum.splits option.splits prod.splits)
  from tx obtain s db' s' where s: "read_stats E (b_db d) = Inr s"
    and f: "f (b_db d, s) (i_now i) = Inr (x, db', s')"
    and put: "tx_put E db' Metadata ''stats'' (DocStats s') = Inr db''"
    by (auto simp: update_tx_def)
  have "i_ctx i = None \<and> \<not> b_stopped d"
    using enter by (auto simp: enter_def split: option.splits if_splits)
  then show ?thesis
    using that [OF s _ _ f] stats_put_inv [OF put] by (simp add: d' signal_def)
qed

end

end
