(* ===== verification/Durable_Broker.thy ===== *)
theory Durable_Broker
  imports Durable_Receipts
begin

text \<open>
  The broker as a state machine: \<open>broker_step\<close> is one completed operation of one of its
  concurrent callers, \<open>reachable\<close> the states of a broker opened on an empty file and driven by
  any sequence of operations, clock readings, failing commits, shutdowns and restarts.
\<close>

section \<open>Steps\<close>

text \<open>What an operation was and what it returned.\<close>

datatype label =
  LPublish event "queue_error + bool"
| LLease "queue_error + delivery option"
| LAck ack_request int "queue_error + bool"
| LNack nack_request int "queue_error + bool"
| LCleanup "queue_error + unit"
| LStop
| LWake
| LRestart

text \<open>
  The clock of every operation is in the range of \<open>clock_ok\<close>; it need not be monotonic. A
  restart is a crash or shutdown at any time followed by \<open>OpenDurable\<close> on the same file: what
  survives is the committed database.
\<close>

inductive broker_step :: "'db env \<Rightarrow> durable_options \<Rightarrow> 'db broker \<Rightarrow> label \<Rightarrow> 'db broker \<Rightarrow> bool"
  for E :: "'db env" and p :: durable_options where
  publish: "clock_ok (i_now i) \<Longrightarrow> seq_left E (b_db d) \<Longrightarrow> PublishContext E d i e = (res, d') \<Longrightarrow>
    broker_step E p d (LPublish e res) d'"
| lease: "clock_ok (i_now i) \<Longrightarrow> tryLease E d i = (res, d') \<Longrightarrow> broker_step E p d (LLease res) d'"
| ack: "clock_ok (i_now i) \<Longrightarrow> Ack E d i a = (res, d') \<Longrightarrow> broker_step E p d (LAck a (i_now i) res) d'"
| nack: "clock_ok (i_now i) \<Longrightarrow> Nack E d i n = (res, d') \<Longrightarrow> broker_step E p d (LNack n (i_now i) res) d'"
| cleanup: "clock_ok (i_now j) \<Longrightarrow> Cleanup E d i j = (res, d') \<Longrightarrow> broker_step E p d (LCleanup res) d'"
| stop: "broker_step E p d LStop (Stop d)"
| wake: "broker_step E p d LWake (d\<lparr>b_notify := False\<rparr>)"
| restart: "OpenDurable E p None (Inr (b_db d)) None = Inr d' \<Longrightarrow> broker_step E p d LRestart d'"

inductive_cases broker_stepE: "broker_step E p d l d'"
inductive_cases lease_stepE: "broker_step E p d (LLease res) d'"

text \<open>An empty database file: no bucket has an entry.\<close>

definition empty_db :: "'db env \<Rightarrow> 'db \<Rightarrow> bool" where
  "empty_db E db \<longleftrightarrow> (\<forall>b k. bget E db b k = None)"

inductive reachable :: "'db env \<Rightarrow> durable_options \<Rightarrow> 'db broker \<Rightarrow> bool"
  for E :: "'db env" and p :: durable_options where
  opened: "empty_db E db \<Longrightarrow> OpenDurable E p None (Inr db) None = Inr d \<Longrightarrow> reachable E p d"
| stepped: "reachable E p d \<Longrightarrow> broker_step E p d l d' \<Longrightarrow> reachable E p d'"

section \<open>The invariant of a running broker\<close>

text \<open>Every stored payload is the encoding of a valid event with the record's identity.\<close>

definition payload_ok :: "'db env \<Rightarrow> (bytes \<rightharpoonup> disk_record) \<Rightarrow> bool" where
  "payload_ok E m \<longleftrightarrow> (\<forall>i r. m i = Some r \<longrightarrow> r_State r \<noteq> StCompleted \<longrightarrow>
     (\<exists>e. Event_Validate e = Inr () \<and> e_EventID e = i \<and> marshal E e = Some (r_Event r)
        \<and> r_Hash r = sha256 E (r_Event r)))"

definition good_broker :: "'db env \<Rightarrow> durable_options \<Rightarrow> 'db broker \<Rightarrow> bool" where
  "good_broker E p d \<longleftrightarrow> Options_Validate p = Inr () \<and> b_opts d = p
     \<and> payload_ok E (recs E (b_db d))
     \<and> (\<exists>s. read_stats E (b_db d) = Inr s \<and> tx_inv E (b_db d, s) \<and> limits p s)"

lemma payload_ok_upd:
  assumes "payload_ok E m" and "m i = Some r" and "r_Hash r' = r_Hash r"
    and "r_State r' \<noteq> StCompleted \<Longrightarrow> r_State r \<noteq> StCompleted \<and> r_Event r' = r_Event r"
  shows "payload_ok E (m(i \<mapsto> r'))"
  using assms by (auto simp: payload_ok_def)

lemma payload_ok_expire_in: "payload_ok E m \<Longrightarrow> X \<subseteq> due_set m StLeased now \<Longrightarrow> payload_ok E (expire_in now X m)"
  unfolding payload_ok_def expire_in_def due_set_def expired_record_def
  by (fastforce split: if_splits)

lemma payload_ok_forget_in: "payload_ok E m \<Longrightarrow> payload_ok E (forget_in X m)"
  by (auto simp: payload_ok_def forget_in_def)

section \<open>Failures\<close>

lemma tryLease_other: "tryLease E d i = (res, d') \<Longrightarrow> \<not> (\<exists>dl. res = Inr (Some dl)) \<Longrightarrow> d' = d"
  by (auto simp: tryLease_def dest!: update_Inl split: prod.splits sum.splits queue_error.splits)

lemma Publish_err: "PublishContext E d i e = (Inl err, d') \<Longrightarrow> d' = d"
  by (auto simp: PublishContext_def dest: update_Inl split: sum.splits option.splits if_splits)

lemma Ack_err: "Ack E d i a = (Inl err, d') \<Longrightarrow> d' = d"
  by (auto simp: Ack_def dest: update_Inl split: sum.splits)

lemma Nack_err: "Nack E d i n = (Inl err, d') \<Longrightarrow> d' = d"
  by (auto simp: Nack_def dest: update_Inl split: sum.splits if_splits)

lemma Cleanup_err: "Cleanup E d i j = (Inl err, d') \<Longrightarrow> d' = d"
  by (auto simp: Cleanup_def dest: update_Inl split: sum.splits bool.splits)

section \<open>The operations on a good broker\<close>

context bolt_db
begin

lemma Publish_okE:
  assumes good: "good_broker E p d" and now: "clock_ok (i_now i)" and seq: "seq_left E (b_db d)"
    and run: "PublishContext E d i e = (Inr dup, d')"
  obtains data X where "Event_Validate e = Inr ()" and "marshal E e = Some data"
    and "int (length data) \<le> o_MaxPayloadBytes p"
    and "X \<subseteq> due_set (recs E (b_db d)) StCompleted (i_now i)"
    and "dup \<longleftrightarrow> retained (recs E (b_db d)) (i_now i) (e_EventID e)"
    and "dup \<longrightarrow> map_option r_Hash (recs E (b_db d) (e_EventID e)) = Some (sha256 E data)
           \<and> recs E (b_db d') = forget_in X (recs E (b_db d))"
    and "\<not> dup \<longrightarrow> recs E (b_db d') = (forget_in X (recs E (b_db d)))
           (e_EventID e \<mapsto> new_record data (sha256 E data) (bseq E (b_db d) Records + 1) (i_now i))"
    and "good_broker E p d'"
proof -
  from good have p: "Options_Validate p = Inr ()" and opts: "b_opts d = p"
    and pay: "payload_ok E (recs E (b_db d))" by (simp_all add: good_broker_def)
  from run opts obtain data where valid: "Event_Validate e = Inr ()" and data: "marshal E e = Some data"
    and len: "int (length data) \<le> o_MaxPayloadBytes p"
    and upd: "update E d i (Publish_tx E p (e_EventID e) data (sha256 E data)) = (Inr dup, d')"
    by (auto simp: PublishContext_def not_less split: sum.splits option.splits if_splits)
  obtain s db' s' where s: "read_stats E (b_db d) = Inr s"
    and "i_ctx i = None" and "\<not> b_stopped d"
    and tx: "Publish_tx E p (e_EventID e) data (sha256 E data) (b_db d, s) (i_now i) = Inr (dup, db', s')"
    and rec: "recs E (b_db d') = recs E db'" and bs: "bseq E (b_db d') Records = bseq E db' Records"
    and s': "read_stats E (b_db d') = Inr s'" and inv': "tx_inv E (db', s') \<longrightarrow> tx_inv E (b_db d', s')"
    and opts': "b_opts d' = b_opts d" and "b_stopped d' = b_stopped d" and "b_notify d'"
    by (rule update_InrE [OF upd])
  from good s have inv: "tx_inv E (b_db d, s)" and lim: "limits p s"
    by (auto simp: good_broker_def)
  obtain X where X: "X \<subseteq> due_set (recs E (b_db d)) StCompleted (i_now i)"
    and inv2: "tx_inv E (db', s')" and dup: "dup \<longleftrightarrow> retained (recs E (b_db d)) (i_now i) (e_EventID e)"
    and d1: "dup \<longrightarrow> map_option r_Hash (recs E (b_db d) (e_EventID e)) = Some (sha256 E data)
                 \<and> recs E db' = forget_in X (recs E (b_db d)) \<and> bseq E db' Records = bseq E (b_db d) Records"
    and d2: "\<not> dup \<longrightarrow> recs E db' = (forget_in X (recs E (b_db d)))
          (e_EventID e \<mapsto> new_record data (sha256 E data) (bseq E (b_db d) Records + 1) (i_now i))
                   \<and> bseq E db' Records = bseq E (b_db d) Records + 1"
    and "s_Accepted s' = (if dup then s_Accepted s else s_Accepted s + 1)"
    and lim': "limits p s \<longrightarrow> limits p s'"
    by (rule Publish_tx_spec [OF inv clock_now_ok [OF now] seq tx])
  have "payload_ok E (recs E db')"
  proof (cases dup)
    case True
    with d1 pay show ?thesis by (simp add: payload_ok_forget_in)
  next
    case False
    have "payload_ok E (forget_in X (recs E (b_db d)))" using pay by (rule payload_ok_forget_in)
    with False d2 valid data show ?thesis by (auto simp: payload_ok_def new_record_def)
  qed
  then have "good_broker E p d'"
    using p opts opts' s' inv' inv2 lim' lim by (simp add: good_broker_def rec)
  with that [OF valid data len X dup] d1 d2 rec show ?thesis by simp
qed

lemma tryLease_okE:
  assumes good: "good_broker E p d" and now: "clock_ok (i_now i)"
    and run: "tryLease E d i = (Inr (Some dl), d')"
  obtains X j r token e where "X \<subseteq> due_set (recs E (b_db d)) StLeased (i_now i)"
    and "card X = min (nat (o_CleanupBatch p)) (card (due_set (recs E (b_db d)) StLeased (i_now i)))"
    and "expire_in (i_now i) X (recs E (b_db d)) j = Some r" and "r_State r = StReady"
    and "r_Due r \<le> i_now i"
    and "\<forall>l r'. expire_in (i_now i) X (recs E (b_db d)) l = Some r' \<longrightarrow> r_State r' = StReady
           \<longrightarrow> rkey r \<le> rkey r'"
    and "NewID (i_rand i) = Some token" and "unmarshal E (r_Event r) = Some e"
    and "dl = \<lparr>d_Event = e, d_Token = token,
               d_ExpiresAt = unix_time (wrap64 (i_now i + o_LeaseDuration p)),
               d_Attempt = r_Attempt r + 1\<rparr>"
    and "recs E (b_db d') = (expire_in (i_now i) X (recs E (b_db d)))
           (j \<mapsto> leased_record p token (i_now i) r)"
    and "good_broker E p d'"
proof -
  from good have p: "Options_Validate p = Inr ()" and opts: "b_opts d = p"
    and pay: "payload_ok E (recs E (b_db d))" by (simp_all add: good_broker_def)
  from run opts have upd: "update E d i (tryLease_tx E p (i_rand i)) = (Inr dl, d')"
    by (auto simp: tryLease_def split: prod.splits sum.splits queue_error.splits)
  obtain s db' s' where s: "read_stats E (b_db d) = Inr s"
    and "i_ctx i = None" and "\<not> b_stopped d"
    and tx: "tryLease_tx E p (i_rand i) (b_db d, s) (i_now i) = Inr (dl, db', s')"
    and rec: "recs E (b_db d') = recs E db'" and "bseq E (b_db d') Records = bseq E db' Records"
    and s': "read_stats E (b_db d') = Inr s'" and inv': "tx_inv E (db', s') \<longrightarrow> tx_inv E (b_db d', s')"
    and opts': "b_opts d' = b_opts d" and "b_stopped d' = b_stopped d" and "b_notify d'"
    by (rule update_InrE [OF upd])
  from good s have inv: "tx_inv E (b_db d, s)" and lim: "limits p s"
    by (auto simp: good_broker_def)
  obtain X j r token e where X: "X \<subseteq> due_set (recs E (b_db d)) StLeased (i_now i)"
    "card X = min (nat (o_CleanupBatch p)) (card (due_set (recs E (b_db d)) StLeased (i_now i)))"
    and r: "expire_in (i_now i) X (recs E (b_db d)) j = Some r" "r_State r = StReady"
      "r_Due r \<le> i_now i"
    and least: "\<forall>l r'. expire_in (i_now i) X (recs E (b_db d)) l = Some r' \<longrightarrow> r_State r' = StReady
           \<longrightarrow> rkey r \<le> rkey r'"
    and token: "NewID (i_rand i) = Some token" and e: "unmarshal E (r_Event r) = Some e"
    and dl: "dl = \<lparr>d_Event = e, d_Token = token,
               d_ExpiresAt = unix_time (wrap64 (i_now i + o_LeaseDuration p)),
               d_Attempt = r_Attempt r + 1\<rparr>"
    and rec': "recs E db' = (expire_in (i_now i) X (recs E (b_db d)))
           (j \<mapsto> leased_record p token (i_now i) r)"
    and inv2: "tx_inv E (db', s')" and "bseq E db' Records = bseq E (b_db d) Records"
    and lim': "limits p s \<longrightarrow> limits p s'" and "s_Deliveries s' = s_Deliveries s + 1"
    by (rule tryLease_tx_spec [OF inv now p tx])
  have "payload_ok E (recs E db')"
    unfolding rec'
    by (rule payload_ok_upd [OF payload_ok_expire_in [OF pay X(1)] r(1)])
       (simp_all add: leased_record_def r(2))
  then have "good_broker E p d'"
    using p opts opts' s' inv' inv2 lim' lim by (simp add: good_broker_def rec)
  with that [OF X r least token e dl] rec rec' show ?thesis by simp
qed

lemma Ack_okE:
  assumes good: "good_broker E p d" and now: "clock_ok (i_now i)"
    and run: "Ack E d i a = (Inr dup, d')"
  obtains r where "recs E (b_db d) (a_EventID a) = Some r" and "r_Token r = a_Token a"
    and "i_now i < r_Due r" and "r_State r = (if dup then StCompleted else StLeased)"
    and "recs E (b_db d') = (if dup then recs E (b_db d)
           else (recs E (b_db d))(a_EventID a \<mapsto> completed_record p (i_now i) r))"
    and "good_broker E p d'" and "length (a_Token a) = 32"
proof -
  from good have p: "Options_Validate p = Inr ()" and opts: "b_opts d = p"
    and pay: "payload_ok E (recs E (b_db d))" by (simp_all add: good_broker_def)
  from run opts have upd: "update E d i (Ack_tx E p a) = (Inr dup, d')"
    and tok: "length (a_Token a) = 32"
    by (auto simp: Ack_def validateReceipt_def split: sum.splits if_splits)
  obtain s db' s' where s: "read_stats E (b_db d) = Inr s"
    and "i_ctx i = None" and "\<not> b_stopped d"
    and tx: "Ack_tx E p a (b_db d, s) (i_now i) = Inr (dup, db', s')"
    and rec: "recs E (b_db d') = recs E db'" and "bseq E (b_db d') Records = bseq E db' Records"
    and s': "read_stats E (b_db d') = Inr s'" and inv': "tx_inv E (db', s') \<longrightarrow> tx_inv E (b_db d', s')"
    and opts': "b_opts d' = b_opts d" and "b_stopped d' = b_stopped d" and "b_notify d'"
    by (rule update_InrE [OF upd])
  from good s have inv: "tx_inv E (b_db d, s)" and lim: "limits p s"
    by (auto simp: good_broker_def)
  obtain r where r: "recs E (b_db d) (a_EventID a) = Some r" "r_Token r = a_Token a"
      "i_now i < r_Due r" "r_State r = (if dup then StCompleted else StLeased)"
    and rec': "recs E db' = (if dup then recs E (b_db d)
           else (recs E (b_db d))(a_EventID a \<mapsto> completed_record p (i_now i) r))"
    and inv2: "tx_inv E (db', s')" and "bseq E db' Records = bseq E (b_db d) Records"
    and lim': "limits p s \<longrightarrow> limits p s'"
    and "s_Acked s' = (if dup then s_Acked s else s_Acked s + 1)"
    by (rule Ack_tx_spec [OF inv now p tx])
  have "payload_ok E ((recs E (b_db d))(a_EventID a \<mapsto> completed_record p (i_now i) r))"
    by (rule payload_ok_upd [OF pay r(1)]) (simp_all add: completed_record_def)
  then have "payload_ok E (recs E db')" using pay by (simp add: rec')
  then have "good_broker E p d'"
    using p opts opts' s' inv' inv2 lim' lim by (simp add: good_broker_def rec)
  with that [OF r] rec rec' tok show ?thesis by simp
qed

lemma Nack_okE:
  assumes good: "good_broker E p d" and now: "clock_ok (i_now i)"
    and run: "Nack E d i n = (Inr dup, d')"
  obtains r where "recs E (b_db d) (n_EventID n) = Some r"
    and "dup \<longrightarrow> r_State r \<in> {StReady, StQuarantined} \<and> r_LastNackToken r = n_Token n
           \<and> r_LastNackHash r = sha256 E (marshal_nack E n) \<and> recs E (b_db d') = recs E (b_db d)"
    and "\<not> dup \<longrightarrow> r_State r = StLeased \<and> r_Token r = n_Token n \<and> i_now i < r_Due r
           \<and> recs E (b_db d') = (recs E (b_db d))
               (n_EventID n \<mapsto> nacked_record n (sha256 E (marshal_nack E n)) (i_now i) r)"
    and "good_broker E p d'" and "\<not> bad_nack n"
proof -
  from good have p: "Options_Validate p = Inr ()" and opts: "b_opts d = p"
    and pay: "payload_ok E (recs E (b_db d))" by (simp_all add: good_broker_def)
  let ?h = "sha256 E (marshal_nack E n)"
  from run opts have upd: "update E d i (Nack_tx E p n ?h) = (Inr dup, d')" and ok: "\<not> bad_nack n"
    by (auto simp: Nack_def split: sum.splits if_splits)
  obtain s db' s' where s: "read_stats E (b_db d) = Inr s"
    and "i_ctx i = None" and "\<not> b_stopped d"
    and tx: "Nack_tx E p n ?h (b_db d, s) (i_now i) = Inr (dup, db', s')"
    and rec: "recs E (b_db d') = recs E db'" and "bseq E (b_db d') Records = bseq E db' Records"
    and s': "read_stats E (b_db d') = Inr s'" and inv': "tx_inv E (db', s') \<longrightarrow> tx_inv E (b_db d', s')"
    and opts': "b_opts d' = b_opts d" and "b_stopped d' = b_stopped d" and "b_notify d'"
    by (rule update_InrE [OF upd])
  from good s have inv: "tx_inv E (b_db d, s)" and lim: "limits p s"
    by (auto simp: good_broker_def)
  obtain r where r: "recs E (b_db d) (n_EventID n) = Some r"
    and d1: "dup \<longrightarrow> r_State r \<in> {StReady, StQuarantined} \<and> r_LastNackToken r = n_Token n
           \<and> r_LastNackHash r = ?h \<and> db' = b_db d \<and> s' = s"
    and d2: "\<not> dup \<longrightarrow> r_State r = StLeased \<and> r_Token r = n_Token n \<and> i_now i < r_Due r
           \<and> (n_Permanent n \<longrightarrow> s_Quarantined s < o_QuarantineCapacity p)
           \<and> recs E db' = (recs E (b_db d))(n_EventID n \<mapsto> nacked_record n ?h (i_now i) r)"
    and inv2: "tx_inv E (db', s')" and "bseq E db' Records = bseq E (b_db d) Records"
    and lim': "limits p s \<longrightarrow> limits p s'"
    by (rule Nack_tx_spec [OF inv now ok tx])
  have "payload_ok E (recs E db')"
  proof (cases dup)
    case True
    with d1 pay show ?thesis by simp
  next
    case False
    have "payload_ok E ((recs E (b_db d))(n_EventID n \<mapsto> nacked_record n ?h (i_now i) r))"
      by (rule payload_ok_upd [OF pay r]) (use False d2 in \<open>simp_all add: nacked_record_def Let_def\<close>)
    with False d2 show ?thesis by simp
  qed
  then have "good_broker E p d'"
    using p opts opts' s' inv' inv2 lim' lim by (simp add: good_broker_def rec)
  with that [OF r] d1 d2 rec ok show ?thesis by simp
qed

lemma Cleanup_runE:
  assumes good: "good_broker E p d" and now: "clock_ok (i_now j)"
    and upd: "update E d j (Cleanup_tx E p) = (Inr u, d')"
  obtains X Y where "X \<subseteq> due_set (recs E (b_db d)) StLeased (i_now j)"
    and "card X = min (nat (o_CleanupBatch p)) (card (due_set (recs E (b_db d)) StLeased (i_now j)))"
    and "Y \<subseteq> due_set (recs E (b_db d)) StCompleted (i_now j)"
    and "card Y = min (nat (o_CleanupBatch p)) (card (due_set (recs E (b_db d)) StCompleted (i_now j)))"
    and "recs E (b_db d') = forget_in Y (expire_in (i_now j) X (recs E (b_db d)))"
    and "good_broker E p d'"
proof -
  from good have p: "Options_Validate p = Inr ()" and opts: "b_opts d = p"
    and pay: "payload_ok E (recs E (b_db d))" by (simp_all add: good_broker_def)
  obtain s db' s' where s: "read_stats E (b_db d) = Inr s"
    and "i_ctx j = None" and "\<not> b_stopped d"
    and tx: "Cleanup_tx E p (b_db d, s) (i_now j) = Inr (u, db', s')"
    and rec: "recs E (b_db d') = recs E db'" and "bseq E (b_db d') Records = bseq E db' Records"
    and s': "read_stats E (b_db d') = Inr s'" and inv': "tx_inv E (db', s') \<longrightarrow> tx_inv E (b_db d', s')"
    and opts': "b_opts d' = b_opts d" and "b_stopped d' = b_stopped d" and "b_notify d'"
    by (rule update_InrE [OF upd])
  from good s have inv: "tx_inv E (b_db d, s)" and lim: "limits p s"
    by (auto simp: good_broker_def)
  obtain X Y where XY: "X \<subseteq> due_set (recs E (b_db d)) StLeased (i_now j)"
    "card X = min (nat (o_CleanupBatch p)) (card (due_set (recs E (b_db d)) StLeased (i_now j)))"
    "Y \<subseteq> due_set (recs E (b_db d)) StCompleted (i_now j)"
    "card Y = min (nat (o_CleanupBatch p)) (card (due_set (recs E (b_db d)) StCompleted (i_now j)))"
    and rec': "recs E db' = forget_in Y (expire_in (i_now j) X (recs E (b_db d)))"
    and inv2: "tx_inv E (db', s')" and "bseq E db' Records = bseq E (b_db d) Records"
    and lim': "limits p s \<longrightarrow> limits p s'"
    by (rule Cleanup_tx_spec [OF inv clock_now_ok [OF now] tx])
  have "payload_ok E (recs E db')"
    unfolding rec' by (intro payload_ok_forget_in payload_ok_expire_in [OF pay XY(1)])
  then have "good_broker E p d'"
    using p opts opts' s' inv' inv2 lim' lim by (simp add: good_broker_def rec)
  with that [OF XY] rec rec' show ?thesis by simp
qed

lemma Cleanup_okE:
  assumes good: "good_broker E p d" and now: "clock_ok (i_now j)"
    and run: "Cleanup E d i j = (Inr u, d')" and moved: "d' \<noteq> d"
  obtains X Y where "X \<subseteq> due_set (recs E (b_db d)) StLeased (i_now j)"
    and "Y \<subseteq> due_set (recs E (b_db d)) StCompleted (i_now j)"
    and "recs E (b_db d') = forget_in Y (expire_in (i_now j) X (recs E (b_db d)))"
    and "good_broker E p d'"
proof -
  from good have "b_opts d = p" by (simp add: good_broker_def)
  with run moved have upd: "update E d j (Cleanup_tx E p) = (Inr u, d')"
    by (auto simp: Cleanup_def split: sum.splits bool.splits)
  show ?thesis by (rule Cleanup_runE [OF good now upd]) (rule that)
qed

section \<open>Restarts\<close>

lemma create_buckets_same:
  "create_buckets E bs db = Inr db' \<Longrightarrow>
     bget E db' c k = bget E db c k \<and> bseq E db' c = bseq E db c"
proof (induction bs arbitrary: db)
  case Nil
  then show ?case by simp
next
  case (Cons b bs)
  then obtain db1 where 1: "bcreate E db b = Inr db1" and "create_buckets E bs db1 = Inr db'" by auto
  with Cons.IH show ?case by (simp add: get_create [OF 1] seq_create [OF 1])
qed

lemma open_tx_spec:
  assumes "open_tx E db = Inr db'"
  shows "b \<noteq> Metadata \<Longrightarrow> bget E db' b k = bget E db b k"
    and "bseq E db' Records = bseq E db Records"
    and "read_stats E db' = (if bget E db Metadata ''stats'' = None then Inr zero_stats
                             else read_stats E db)"
proof -
  from assms obtain db1 db2 where
    c: "create_buckets E [Records, Ready, Leases, Completions, Metadata] db = Inr db1"
    and v: "bput E db1 Metadata ''version'' (DocBytes ''1'') = Inr db2"
    and r: "(if bget E db2 Metadata ''stats'' = None
             then tx_put E db2 Metadata ''stats'' (DocStats zero_stats) else Inr db2) = Inr db'"
    by (auto simp: open_tx_def tx_put_def simp del: create_buckets.simps split: option.splits)
  note same = create_buckets_same [OF c]
  have stats: "bget E db2 Metadata ''stats'' = bget E db Metadata ''stats''"
    by (simp add: get_put [OF v] same)
  have "(\<forall>b k. b \<noteq> Metadata \<longrightarrow> bget E db' b k = bget E db b k)
      \<and> bseq E db' Records = bseq E db Records
      \<and> read_stats E db' = (if bget E db Metadata ''stats'' = None then Inr zero_stats
                             else read_stats E db)"
  proof (cases "bget E db Metadata ''stats'' = None")
    case True
    with r stats have p: "bput E db2 Metadata ''stats'' (DocStats zero_stats) = Inr db'"
      by (simp add: tx_put_def)
    with True show ?thesis
      by (simp add: read_stats_def get_put [OF p] get_put [OF v] seq_put [OF p] seq_put [OF v] same)
  next
    case False
    with r stats have "db' = db2" by simp
    with False show ?thesis
      by (simp add: read_stats_def get_put [OF v] seq_put [OF v] same stats)
  qed
  then show "b \<noteq> Metadata \<Longrightarrow> bget E db' b k = bget E db b k"
    and "bseq E db' Records = bseq E db Records"
    and "read_stats E db' = (if bget E db Metadata ''stats'' = None then Inr zero_stats
                             else read_stats E db)" by blast+
qed

lemma OpenDurable_okE:
  assumes "OpenDurable E q dir (Inr db) fault = Inr d"
  obtains "Options_Validate q = Inr ()" and "b_opts d = q" and "\<not> b_stopped d"
    and "recs E (b_db d) = recs E db" and "bseq E (b_db d) Records = bseq E db Records"
    and "\<forall>s. tx_inv E (b_db d, s) \<longleftrightarrow> tx_inv E (db, s)"
    and "read_stats E (b_db d) = (if bget E db Metadata ''stats'' = None then Inr zero_stats
                                  else read_stats E db)"
proof -
  from assms obtain db' where q: "Options_Validate q = Inr ()" and tx: "open_tx E db = Inr db'"
    and d: "d = \<lparr>b_db = db', b_opts = q, b_stopped = False, b_notify = False, b_closed = False,
                b_cleanupFailures = 0\<rparr>"
    by (auto simp: OpenDurable_def split: option.splits)
  note sp = open_tx_spec [OF tx]
  show ?thesis
    using that q d tx_inv_metadata [OF sp(1,2)] sp(2,3) by simp
qed

lemma empty_db_inv: "empty_db E db \<Longrightarrow> recs E db = Map.empty \<and> tx_inv E (db, zero_stats)"
proof -
  assume e: "empty_db E db"
  then have r: "recs E db = Map.empty" by (auto simp: recs_def empty_db_def)
  with e show ?thesis
    by (auto simp: tx_inv_def wf_db_def wf_stats_def in_state_def total_weight_def empty_db_def
        zero_stats_def)
qed

lemma good_open:
  assumes "empty_db E db" and "OpenDurable E p dir (Inr db) fault = Inr d"
  shows "good_broker E p d" and "recs E (b_db d) = Map.empty"
proof -
  have "good_broker E p d \<and> recs E (b_db d) = Map.empty"
  proof (rule OpenDurable_okE [OF assms(2)])
    assume o: "Options_Validate p = Inr ()" "b_opts d = p" "\<not> b_stopped d"
      "recs E (b_db d) = recs E db" "bseq E (b_db d) Records = bseq E db Records"
      "\<forall>s. tx_inv E (b_db d, s) \<longleftrightarrow> tx_inv E (db, s)"
      "read_stats E (b_db d) = (if bget E db Metadata ''stats'' = None then Inr zero_stats
                                  else read_stats E db)"
    have "limits p zero_stats"
      using Options_Validate_ok [OF o(1)] o(1)
      by (auto simp: limits_def zero_stats_def Options_Validate_def unit_defs split: if_splits)
    moreover have "bget E db Metadata ''stats'' = None" using assms(1) by (simp add: empty_db_def)
    ultimately show ?thesis
      using o empty_db_inv [OF assms(1)] by (simp add: good_broker_def payload_ok_def)
  qed
  then show "good_broker E p d" and "recs E (b_db d) = Map.empty" by blast+
qed

lemma good_restart:
  assumes "good_broker E p d" and "OpenDurable E p dir (Inr (b_db d)) fault = Inr d'"
  shows "good_broker E p d'" and "recs E (b_db d') = recs E (b_db d)"
proof -
  from assms(1) obtain s where s: "read_stats E (b_db d) = Inr s" "tx_inv E (b_db d, s)" "limits p s"
    and pay: "payload_ok E (recs E (b_db d))" by (auto simp: good_broker_def)
  have "good_broker E p d' \<and> recs E (b_db d') = recs E (b_db d)"
  proof (rule OpenDurable_okE [OF assms(2)])
    assume o: "Options_Validate p = Inr ()" "b_opts d' = p" "\<not> b_stopped d'"
      "recs E (b_db d') = recs E (b_db d)" "bseq E (b_db d') Records = bseq E (b_db d) Records"
      "\<forall>s. tx_inv E (b_db d', s) \<longleftrightarrow> tx_inv E (b_db d, s)"
      "read_stats E (b_db d') = (if bget E (b_db d) Metadata ''stats'' = None then Inr zero_stats
                                  else read_stats E (b_db d))"
    have "bget E (b_db d) Metadata ''stats'' \<noteq> None"
      using s(1) by (auto simp: read_stats_def split: option.splits)
    with o s pay show ?thesis by (simp add: good_broker_def)
  qed
  then show "good_broker E p d'" and "recs E (b_db d') = recs E (b_db d)" by blast+
qed

end

end
