(* ===== verification/Durable_Spec.thy ===== *)
theory Durable_Spec
  imports Durable_Broker
begin

text \<open>
  What the broker promises, on the map from event identities to records alone: no buckets, no
  indexes, no counters, no transactions. \<open>spec_step\<close> has one rule per outcome of an operation.
  Every step of the broker is a step of the specification (\<open>broker_refines_spec\<close>), and the
  safety properties of delivery are read off the rules.
\<close>

section \<open>The specification\<close>

text \<open>Outcomes that promise to change nothing: errors, an empty poll, shutdown and restart.\<close>

fun effect_free :: "label \<Rightarrow> bool" where
  "effect_free (LPublish e res) = isl res"
| "effect_free (LLease res) = (case res of Inl _ \<Rightarrow> True | Inr x \<Rightarrow> x = None)"
| "effect_free (LAck a now res) = isl res"
| "effect_free (LNack n now res) = isl res"
| "effect_free (LCleanup res) = True"
| "effect_free LStop = True"
| "effect_free LWake = True"
| "effect_free LRestart = True"

inductive spec_step :: "'db env \<Rightarrow> durable_options \<Rightarrow> (bytes \<rightharpoonup> disk_record) \<Rightarrow> label \<Rightarrow>
    (bytes \<rightharpoonup> disk_record) \<Rightarrow> bool"
  for E :: "'db env" and p :: durable_options and m :: "bytes \<rightharpoonup> disk_record" where
  nothing: "effect_free l \<Longrightarrow> spec_step E p m l m"
| duplicate: "Event_Validate e = Inr () \<Longrightarrow> marshal E e = Some data \<Longrightarrow> clock_ok now \<Longrightarrow>
    X \<subseteq> due_set m StCompleted now \<Longrightarrow> retained m now (e_EventID e) \<Longrightarrow>
    map_option r_Hash (m (e_EventID e)) = Some (sha256 E data) \<Longrightarrow>
    spec_step E p m (LPublish e (Inr True)) (forget_in X m)"
| accept: "Event_Validate e = Inr () \<Longrightarrow> marshal E e = Some data \<Longrightarrow>
    int (length data) \<le> o_MaxPayloadBytes p \<Longrightarrow> clock_ok now \<Longrightarrow>
    X \<subseteq> due_set m StCompleted now \<Longrightarrow> \<not> retained m now (e_EventID e) \<Longrightarrow>
    \<forall>j r. m j = Some r \<longrightarrow> r_Sequence r < seq \<Longrightarrow>
    spec_step E p m (LPublish e (Inr False))
      ((forget_in X m)(e_EventID e \<mapsto> new_record data (sha256 E data) seq now))"
| deliver: "clock_ok now \<Longrightarrow> X \<subseteq> due_set m StLeased now \<Longrightarrow>
    expire_in now X m j = Some r \<Longrightarrow> r_State r = StReady \<Longrightarrow> r_Due r \<le> now \<Longrightarrow>
    \<forall>l r'. expire_in now X m l = Some r' \<longrightarrow> r_State r' = StReady \<longrightarrow> rkey r \<le> rkey r' \<Longrightarrow>
    NewID rnd = Some token \<Longrightarrow> unmarshal E (r_Event r) = Some e \<Longrightarrow>
    spec_step E p m
      (LLease (Inr (Some \<lparr>d_Event = e, d_Token = token,
               d_ExpiresAt = unix_time (wrap64 (now + o_LeaseDuration p)),
               d_Attempt = r_Attempt r + 1\<rparr>)))
      ((expire_in now X m)(j \<mapsto> leased_record p token now r))"
| finish: "m (a_EventID a) = Some r \<Longrightarrow> r_State r = StLeased \<Longrightarrow> r_Token r = a_Token a \<Longrightarrow>
    now < r_Due r \<Longrightarrow> clock_ok now \<Longrightarrow>
    spec_step E p m (LAck a now (Inr False)) (m(a_EventID a \<mapsto> completed_record p now r))"
| finished: "m (a_EventID a) = Some r \<Longrightarrow> r_State r = StCompleted \<Longrightarrow> r_Token r = a_Token a \<Longrightarrow>
    now < r_Due r \<Longrightarrow> spec_step E p m (LAck a now (Inr True)) m"
| release: "m (n_EventID n) = Some r \<Longrightarrow> r_State r = StLeased \<Longrightarrow> r_Token r = n_Token n \<Longrightarrow>
    now < r_Due r \<Longrightarrow> clock_ok now \<Longrightarrow> \<not> bad_nack n \<Longrightarrow>
    spec_step E p m (LNack n now (Inr False))
      (m(n_EventID n \<mapsto> nacked_record n (sha256 E (marshal_nack E n)) now r))"
| released: "m (n_EventID n) = Some r \<Longrightarrow> r_State r \<in> {StReady, StQuarantined} \<Longrightarrow>
    r_LastNackToken r = n_Token n \<Longrightarrow> r_LastNackHash r = sha256 E (marshal_nack E n) \<Longrightarrow>
    spec_step E p m (LNack n now (Inr True)) m"
| expire: "clock_ok now \<Longrightarrow> X \<subseteq> due_set m StLeased now \<Longrightarrow> Y \<subseteq> due_set m StCompleted now \<Longrightarrow>
    spec_step E p m (LCleanup (Inr ())) (forget_in Y (expire_in now X m))"

inductive_cases spec_stepE: "spec_step E p m l m'"

section \<open>Refinement\<close>

context bolt_db
begin

lemma Publish_refines:
  assumes good: "good_broker E p d" and now: "clock_ok (i_now i)" and seq: "seq_left E (b_db d)"
    and run: "PublishContext E d i e = (res, d')"
  shows "good_broker E p d' \<and> spec_step E p (recs E (b_db d)) (LPublish e res) (recs E (b_db d'))"
proof (cases res)
  case (Inl err)
  from run Inl have "d' = d" by (auto dest: Publish_err)
  with good Inl show ?thesis by (simp add: spec_step.nothing)
next
  case (Inr dup)
  obtain data X where v: "Event_Validate e = Inr ()" "marshal E e = Some data"
    and len: "int (length data) \<le> o_MaxPayloadBytes p"
    and X: "X \<subseteq> due_set (recs E (b_db d)) StCompleted (i_now i)"
    and dup: "dup \<longleftrightarrow> retained (recs E (b_db d)) (i_now i) (e_EventID e)"
    and d1: "dup \<longrightarrow> map_option r_Hash (recs E (b_db d) (e_EventID e)) = Some (sha256 E data)
           \<and> recs E (b_db d') = forget_in X (recs E (b_db d))"
    and d2: "\<not> dup \<longrightarrow> recs E (b_db d') = (forget_in X (recs E (b_db d)))
           (e_EventID e \<mapsto> new_record data (sha256 E data) (bseq E (b_db d) Records + 1) (i_now i))"
    and good': "good_broker E p d'"
    by (rule Publish_okE [OF good now seq run [unfolded Inr]])
  show ?thesis
  proof (cases dup)
    case True
    have "spec_step E p (recs E (b_db d)) (LPublish e (Inr True)) (forget_in X (recs E (b_db d)))"
      by (rule spec_step.duplicate [OF v now X]) (use True dup d1 in simp_all)
    with True d1 good' Inr show ?thesis by simp
  next
    case False
    have wf: "wf_db E (b_db d)" using good by (auto simp: good_broker_def tx_inv_def)
    have "bseq E (b_db d) Records < bseq E (b_db d) Records + 1"
      using seq by (intro word_less_plus_one) (simp add: seq_left_def)
    then have "\<forall>j r. recs E (b_db d) j = Some r \<longrightarrow> r_Sequence r < bseq E (b_db d) Records + 1"
      using wf_record [OF wf] by (blast intro: le_less_trans)
    then have "spec_step E p (recs E (b_db d)) (LPublish e (Inr False)) ((forget_in X (recs E (b_db d)))
           (e_EventID e \<mapsto> new_record data (sha256 E data) (bseq E (b_db d) Records + 1) (i_now i)))"
      by (intro spec_step.accept [OF v len now X]) (use False dup in simp_all)
    with False d2 good' Inr show ?thesis by simp
  qed
qed

lemma tryLease_refines:
  assumes good: "good_broker E p d" and now: "clock_ok (i_now i)"
    and run: "tryLease E d i = (res, d')"
  shows "good_broker E p d' \<and> spec_step E p (recs E (b_db d)) (LLease res) (recs E (b_db d'))"
proof (cases "\<exists>dl. res = Inr (Some dl)")
  case False
  with tryLease_other [OF run] good show ?thesis
    by (auto intro!: spec_step.nothing split: sum.splits)
next
  case True
  then obtain dl where res: "res = Inr (Some dl)" by blast
  obtain X j r token e where X: "X \<subseteq> due_set (recs E (b_db d)) StLeased (i_now i)"
    and "card X = min (nat (o_CleanupBatch p)) (card (due_set (recs E (b_db d)) StLeased (i_now i)))"
    and r: "expire_in (i_now i) X (recs E (b_db d)) j = Some r" "r_State r = StReady"
      "r_Due r \<le> i_now i"
    and least: "\<forall>l r'. expire_in (i_now i) X (recs E (b_db d)) l = Some r' \<longrightarrow> r_State r' = StReady
           \<longrightarrow> rkey r \<le> rkey r'"
    and tok: "NewID (i_rand i) = Some token" and e: "unmarshal E (r_Event r) = Some e"
    and dl: "dl = \<lparr>d_Event = e, d_Token = token,
               d_ExpiresAt = unix_time (wrap64 (i_now i + o_LeaseDuration p)),
               d_Attempt = r_Attempt r + 1\<rparr>"
    and rec: "recs E (b_db d') = (expire_in (i_now i) X (recs E (b_db d)))
           (j \<mapsto> leased_record p token (i_now i) r)"
    and good': "good_broker E p d'"
    by (rule tryLease_okE [OF good now run [unfolded res]])
  show ?thesis
    unfolding res dl rec using good' spec_step.deliver [OF now X r least tok e] by blast
qed

lemma Ack_refines:
  assumes good: "good_broker E p d" and now: "clock_ok (i_now i)"
    and run: "Ack E d i a = (res, d')"
  shows "good_broker E p d' \<and> spec_step E p (recs E (b_db d)) (LAck a (i_now i) res) (recs E (b_db d'))"
proof (cases res)
  case (Inl err)
  from run Inl have "d' = d" by (auto dest: Ack_err)
  with good Inl show ?thesis by (simp add: spec_step.nothing)
next
  case (Inr dup)
  obtain r where r: "recs E (b_db d) (a_EventID a) = Some r" "r_Token r = a_Token a"
    "i_now i < r_Due r" "r_State r = (if dup then StCompleted else StLeased)"
    and rec: "recs E (b_db d') = (if dup then recs E (b_db d)
           else (recs E (b_db d))(a_EventID a \<mapsto> completed_record p (i_now i) r))"
    and good': "good_broker E p d'" and "length (a_Token a) = 32"
    by (rule Ack_okE [OF good now run [unfolded Inr]])
  show ?thesis
    using r rec good' now Inr by (cases dup) (auto intro: spec_step.finish spec_step.finished)
qed

lemma Nack_refines:
  assumes good: "good_broker E p d" and now: "clock_ok (i_now i)"
    and run: "Nack E d i n = (res, d')"
  shows "good_broker E p d' \<and> spec_step E p (recs E (b_db d)) (LNack n (i_now i) res) (recs E (b_db d'))"
proof (cases res)
  case (Inl err)
  from run Inl have "d' = d" by (auto dest: Nack_err)
  with good Inl show ?thesis by (simp add: spec_step.nothing)
next
  case (Inr dup)
  obtain r where r: "recs E (b_db d) (n_EventID n) = Some r"
    and d1: "dup \<longrightarrow> r_State r \<in> {StReady, StQuarantined} \<and> r_LastNackToken r = n_Token n
           \<and> r_LastNackHash r = sha256 E (marshal_nack E n) \<and> recs E (b_db d') = recs E (b_db d)"
    and d2: "\<not> dup \<longrightarrow> r_State r = StLeased \<and> r_Token r = n_Token n \<and> i_now i < r_Due r
           \<and> recs E (b_db d') = (recs E (b_db d))
               (n_EventID n \<mapsto> nacked_record n (sha256 E (marshal_nack E n)) (i_now i) r)"
    and good': "good_broker E p d'" and ok: "\<not> bad_nack n"
    by (rule Nack_okE [OF good now run [unfolded Inr]])
  show ?thesis
  proof (cases dup)
    case True
    with d1 good' Inr r show ?thesis by (simp add: spec_step.released)
  next
    case False
    with d2 good' Inr r now ok show ?thesis by (simp add: spec_step.release)
  qed
qed

lemma Cleanup_refines:
  assumes good: "good_broker E p d" and now: "clock_ok (i_now j)"
    and run: "Cleanup E d i j = (res, d')"
  shows "good_broker E p d' \<and> spec_step E p (recs E (b_db d)) (LCleanup res) (recs E (b_db d'))"
proof (cases "d' = d")
  case True
  with good show ?thesis by (auto intro: spec_step.nothing)
next
  case False
  with run obtain u where res: "res = Inr u" by (cases res) (auto dest: Cleanup_err)
  obtain X Y where XY: "X \<subseteq> due_set (recs E (b_db d)) StLeased (i_now j)"
    and Y: "Y \<subseteq> due_set (recs E (b_db d)) StCompleted (i_now j)"
    and rec: "recs E (b_db d') = forget_in Y (expire_in (i_now j) X (recs E (b_db d)))"
    and good': "good_broker E p d'"
    by (rule Cleanup_okE [OF good now run [unfolded res] False])
  show ?thesis
    unfolding res rec using good' spec_step.expire [OF now XY Y] by simp
qed

text \<open>An unexpired lease survives everything but its own receipts.\<close>

lemma tryLease_keeps_lease:
  assumes good: "good_broker E p d" and now: "clock_ok (i_now i)"
    and r: "recs E (b_db d) j = Some r" "r_State r = StLeased" "i_now i < r_Due r"
  shows "recs E (b_db (snd (tryLease E d i))) j = Some r"
proof (cases "\<exists>dl. fst (tryLease E d i) = Inr (Some dl)")
  case False
  then have "snd (tryLease E d i) = d" using tryLease_other [of E d i] by (metis prod.collapse)
  with r show ?thesis by simp
next
  case True
  then obtain dl d' where run: "tryLease E d i = (Inr (Some dl), d')" by (metis prod.collapse)
  obtain X k r0 token e where X: "X \<subseteq> due_set (recs E (b_db d)) StLeased (i_now i)"
    and "card X = min (nat (o_CleanupBatch p)) (card (due_set (recs E (b_db d)) StLeased (i_now i)))"
    and k: "expire_in (i_now i) X (recs E (b_db d)) k = Some r0" "r_State r0 = StReady"
      "r_Due r0 \<le> i_now i"
    and "\<forall>l r'. expire_in (i_now i) X (recs E (b_db d)) l = Some r' \<longrightarrow> r_State r' = StReady
           \<longrightarrow> rkey r0 \<le> rkey r'"
    and "NewID (i_rand i) = Some token" and "unmarshal E (r_Event r0) = Some e"
    and "dl = \<lparr>d_Event = e, d_Token = token,
               d_ExpiresAt = unix_time (wrap64 (i_now i + o_LeaseDuration p)),
               d_Attempt = r_Attempt r0 + 1\<rparr>"
    and rec: "recs E (b_db d') = (expire_in (i_now i) X (recs E (b_db d)))
           (k \<mapsto> leased_record p token (i_now i) r0)"
    and "good_broker E p d'"
    by (rule tryLease_okE [OF good now run])
  have jX: "j \<notin> X" using X r by (auto simp: due_set_def)
  then have j: "expire_in (i_now i) X (recs E (b_db d)) j = Some r" using r by (simp add: expire_in_def)
  with k r have "j \<noteq> k" by auto
  with j rec run show ?thesis by simp
qed

lemma Cleanup_keeps_lease:
  assumes good: "good_broker E p d" and now: "clock_ok (i_now i)"
    and r: "recs E (b_db d) j = Some r" "r_State r = StLeased" "i_now i < r_Due r"
  shows "recs E (b_db (snd (Cleanup E d k i))) j = Some r"
proof (cases "snd (Cleanup E d k i) = d")
  case True
  with r show ?thesis by simp
next
  case False
  obtain res d' where run0: "Cleanup E d k i = (res, d')" by fastforce
  with False have moved: "d' \<noteq> d" by simp
  with run0 obtain u where run: "Cleanup E d k i = (Inr u, d')"
    by (cases res) (auto dest: Cleanup_err)
  obtain X Y where X: "X \<subseteq> due_set (recs E (b_db d)) StLeased (i_now i)"
    and Y: "Y \<subseteq> due_set (recs E (b_db d)) StCompleted (i_now i)"
    and rec: "recs E (b_db d') = forget_in Y (expire_in (i_now i) X (recs E (b_db d)))"
    and "good_broker E p d'"
    by (rule Cleanup_okE [OF good now run moved])
  have "j \<notin> X" "j \<notin> Y" using X Y r by (auto simp: due_set_def)
  with r rec run show ?thesis by (simp add: expire_in_def forget_in_def)
qed

lemma Publish_keeps_lease:
  assumes good: "good_broker E p d" and now: "clock_ok (i_now i)" and seq: "seq_left E (b_db d)"
    and r: "recs E (b_db d) j = Some r" "r_State r = StLeased" "i_now i < r_Due r"
  shows "recs E (b_db (snd (PublishContext E d i e))) j = Some r"
proof -
  obtain res d' where run: "PublishContext E d i e = (res, d')" by fastforce
  show ?thesis
  proof (cases res)
    case (Inl err)
    with run Publish_err have "d' = d" by blast
    with r run show ?thesis by simp
  next
    case (Inr dup)
    from Publish_refines [OF good now seq run [unfolded Inr]]
    have step: "spec_step E p (recs E (b_db d)) (LPublish e (Inr dup)) (recs E (b_db d'))" by blast
    then have "recs E (b_db d') j = Some r"
    proof cases
      case (duplicate data now X)
      with r show ?thesis by (auto simp: forget_in_def due_set_def)
    next
      case (accept data now X seq)
      moreover have "j \<noteq> e_EventID e" using accept r by (auto simp: retained_def)
      ultimately show ?thesis using r by (auto simp: forget_in_def due_set_def)
    qed simp_all
    with run show ?thesis by simp
  qed
qed

lemma step_refines:
  assumes "broker_step E p d l d'" and good: "good_broker E p d"
  shows "good_broker E p d' \<and> spec_step E p (recs E (b_db d)) l (recs E (b_db d'))"
  using assms(1)
proof cases
  case (publish i e res)
  with good show ?thesis by (simp add: Publish_refines)
next
  case (lease i res)
  with good show ?thesis by (simp add: tryLease_refines)
next
  case (ack i a res)
  with good show ?thesis by (simp add: Ack_refines)
next
  case (nack i n res)
  with good show ?thesis by (simp add: Nack_refines)
next
  case (cleanup j i res)
  with good show ?thesis using Cleanup_refines by blast
next
  case stop
  with good show ?thesis by (auto simp: Stop_def good_broker_def intro: spec_step.nothing)
next
  case wake
  with good show ?thesis by (auto simp: good_broker_def intro: spec_step.nothing)
next
  case restart
  with good_restart [OF good restart(2)] show ?thesis by (auto intro: spec_step.nothing)
qed

lemma reachable_good: "reachable E p d \<Longrightarrow> good_broker E p d"
  by (induction rule: reachable.induct) (auto dest: good_open step_refines)

section \<open>Deliveries\<close>

lemma rkey_le_lex:
  assumes "due_ok (r_Due r)" and "due_ok (r_Due r')" and "rkey r \<le> rkey r'"
  shows "r_Due r < r_Due r' \<or> r_Due r = r_Due r' \<and> r_Sequence r \<le> r_Sequence r'"
  using assms indexKey_less [of "r_Due r'" "r_Due r" "r_Sequence r'" "r_Sequence r"]
  by (auto simp: rkey_def not_less [symmetric])

lemma tryLease_order:
  assumes good: "good_broker E p d" and now: "clock_ok (i_now i)"
    and run: "tryLease E d i = (Inr (Some dl), d')"
  shows "\<exists>X j r. X \<subseteq> due_set (recs E (b_db d)) StLeased (i_now i)
    \<and> expire_in (i_now i) X (recs E (b_db d)) j = Some r \<and> r_State r = StReady \<and> r_Due r \<le> i_now i
    \<and> recs E (b_db d') j = Some (leased_record p (d_Token dl) (i_now i) r)
    \<and> (\<forall>l r'. expire_in (i_now i) X (recs E (b_db d)) l = Some r' \<longrightarrow> r_State r' = StReady \<longrightarrow>
         r_Due r < r_Due r' \<or> r_Due r = r_Due r' \<and> r_Sequence r \<le> r_Sequence r')"
proof -
  obtain X j r token e where X: "X \<subseteq> due_set (recs E (b_db d)) StLeased (i_now i)"
    and "card X = min (nat (o_CleanupBatch p)) (card (due_set (recs E (b_db d)) StLeased (i_now i)))"
    and r: "expire_in (i_now i) X (recs E (b_db d)) j = Some r" "r_State r = StReady"
      "r_Due r \<le> i_now i"
    and least: "\<forall>l r'. expire_in (i_now i) X (recs E (b_db d)) l = Some r' \<longrightarrow> r_State r' = StReady
           \<longrightarrow> rkey r \<le> rkey r'"
    and "NewID (i_rand i) = Some token" and "unmarshal E (r_Event r) = Some e"
    and dl: "dl = \<lparr>d_Event = e, d_Token = token,
               d_ExpiresAt = unix_time (wrap64 (i_now i + o_LeaseDuration p)),
               d_Attempt = r_Attempt r + 1\<rparr>"
    and rec: "recs E (b_db d') = (expire_in (i_now i) X (recs E (b_db d)))
           (j \<mapsto> leased_record p token (i_now i) r)"
    and "good_broker E p d'"
    by (rule tryLease_okE [OF good now run])
  have wf: "wf_db E (b_db d)" using good by (auto simp: good_broker_def tx_inv_def)
  have due: "due_ok (r_Due r')" if "expire_in (i_now i) X (recs E (b_db d)) l = Some r'" for l r'
    using that wf_record [OF wf] clock_now_ok [OF now]
    by (auto simp: expire_in_def expired_record_def split: if_splits)
  have "r_Due r < r_Due r' \<or> r_Due r = r_Due r' \<and> r_Sequence r \<le> r_Sequence r'"
    if "expire_in (i_now i) X (recs E (b_db d)) l = Some r'" and "r_State r' = StReady" for l r'
    using rkey_le_lex [OF due [OF r(1)] due [OF that(1)]] least that by blast
  moreover have "recs E (b_db d') j = Some (leased_record p (d_Token dl) (i_now i) r)"
    by (simp add: rec dl)
  ultimately show ?thesis using X r by blast
qed

lemma tryLease_faithful:
  assumes good: "good_broker E p d" and now: "clock_ok (i_now i)"
    and run: "tryLease E d i = (Inr (Some dl), d')"
  shows "\<exists>e r. Event_Validate e = Inr () \<and> marshal E e = Some (r_Event r)
    \<and> recs E (b_db d') (e_EventID e) = Some r \<and> r_State r = StLeased
    \<and> r_Token r = d_Token dl \<and> unix_time (r_Due r) = d_ExpiresAt dl \<and> i_now i < r_Due r
    \<and> r_Attempt r = d_Attempt dl \<and> r_Hash r = sha256 E (r_Event r)
    \<and> unmarshal E (r_Event r) = Some (d_Event dl)
    \<and> (unmarshal E (r_Event r) = Some e \<longrightarrow> d_Event dl = e)"
proof -
  obtain X j r token e0 where "X \<subseteq> due_set (recs E (b_db d)) StLeased (i_now i)"
    and "card X = min (nat (o_CleanupBatch p)) (card (due_set (recs E (b_db d)) StLeased (i_now i)))"
    and "expire_in (i_now i) X (recs E (b_db d)) j = Some r" "r_State r = StReady"
      "r_Due r \<le> i_now i"
    and "\<forall>l r'. expire_in (i_now i) X (recs E (b_db d)) l = Some r' \<longrightarrow> r_State r' = StReady
           \<longrightarrow> rkey r \<le> rkey r'"
    and "NewID (i_rand i) = Some token" and e0: "unmarshal E (r_Event r) = Some e0"
    and dl: "dl = \<lparr>d_Event = e0, d_Token = token,
               d_ExpiresAt = unix_time (wrap64 (i_now i + o_LeaseDuration p)),
               d_Attempt = r_Attempt r + 1\<rparr>"
    and rec: "recs E (b_db d') = (expire_in (i_now i) X (recs E (b_db d)))
           (j \<mapsto> leased_record p token (i_now i) r)"
    and good': "good_broker E p d'"
    by (rule tryLease_okE [OF good now run])
  let ?r' = "leased_record p token (i_now i) r"
  have j: "recs E (b_db d') j = Some ?r'" by (simp add: rec)
  have st: "r_State ?r' = StLeased" "r_Event ?r' = r_Event r" "r_Attempt ?r' = r_Attempt r + 1"
    "r_Token ?r' = token" "r_Due ?r' = wrap64 (i_now i + o_LeaseDuration p)"
    by (simp_all add: leased_record_def)
  from good' j st obtain e where e: "Event_Validate e = Inr ()" "e_EventID e = j"
      "marshal E e = Some (r_Event r)" "r_Hash ?r' = sha256 E (r_Event r)"
    by (fastforce simp: good_broker_def payload_ok_def)
  have p: "0 < o_LeaseDuration p" "o_LeaseDuration p \<le> 31536000000000000"
    using good Options_Validate_ok(5,6) [of p] by (auto simp: good_broker_def)
  then have "due_ok (i_now i + o_LeaseDuration p)" by (intro clock_due_ok [OF now]) simp_all
  then have "i_now i < r_Due ?r'" using p by (simp add: st)
  with e e0 j st dl show ?thesis
    by (intro exI [of _ e] exI [of _ ?r']) simp
qed

end

section \<open>Consequences of the specification\<close>

text \<open>The phases of an event and their legal changes.\<close>

datatype phase = Absent | Waiting | Leased string | Done string | Parked

definition phase_of :: "disk_record option \<Rightarrow> phase" where
  "phase_of ro = (case ro of None \<Rightarrow> Absent
     | Some r \<Rightarrow> (case r_State r of
         StReady \<Rightarrow> Waiting | StLeased \<Rightarrow> Leased (r_Token r)
       | StCompleted \<Rightarrow> Done (r_Token r) | StQuarantined \<Rightarrow> Parked | StNone \<Rightarrow> Absent))"

inductive phase_step :: "phase \<Rightarrow> phase \<Rightarrow> bool" where
  stay: "phase_step x x"
| accepted: "phase_step Absent Waiting"
| leased: "phase_step Waiting (Leased t)"
| requeued: "phase_step (Leased t) Waiting"
| released: "phase_step (Leased t) (Leased t')"
| completed: "phase_step (Leased t) (Done t)"
| parked: "phase_step (Leased t) Parked"
| forgotten: "phase_step (Done t) Absent"
| accepted_again: "phase_step (Done t) Waiting"

lemma phase_expire_in:
  assumes "X \<subseteq> due_set m StLeased now"
  shows "phase_of (expire_in now X m i) = phase_of (m i)
    \<or> (\<exists>t. phase_of (m i) = Leased t \<and> phase_of (expire_in now X m i) = Waiting)"
  using assms by (auto simp: expire_in_def due_set_def phase_of_def expired_record_def)

lemma phase_forget_in:
  assumes "X \<subseteq> due_set m StCompleted now"
  shows "phase_of (forget_in X m i) = phase_of (m i)
    \<or> (\<exists>t. phase_of (m i) = Done t \<and> phase_of (forget_in X m i) = Absent)"
  using assms by (auto simp: forget_in_def due_set_def phase_of_def)

lemma spec_step_phase:
  assumes step: "spec_step E p m l m'"
  shows "phase_step (phase_of (m i)) (phase_of (m' i))"
  using step
proof cases
  case nothing
  then show ?thesis by (simp add: phase_step.stay)
next
  case (duplicate e data now X)
  with phase_forget_in [of X m now i] show ?thesis
    by (auto intro: phase_step.intros)
next
  case (accept e data now X seq)
  show ?thesis
  proof (cases "i = e_EventID e")
    case True
    have "phase_of (m i) = Absent \<or> (\<exists>t. phase_of (m i) = Done t)"
      using accept(8) True by (auto simp: retained_def phase_of_def split: option.splits rstate.splits)
    with True accept show ?thesis
      by (auto simp: phase_of_def new_record_def intro: phase_step.intros)
  next
    case False
    with accept phase_forget_in [of X m now i] show ?thesis
      by (auto intro: phase_step.intros)
  qed
next
  case (deliver now X j r rnd token e)
  show ?thesis
  proof (cases "i = j")
    case True
    have "phase_of (expire_in now X m i) = Waiting"
      using deliver True by (simp add: phase_of_def)
    with phase_expire_in [of X m now i] deliver True show ?thesis
      by (auto simp: phase_of_def leased_record_def intro: phase_step.intros)
  next
    case False
    with deliver phase_expire_in [of X m now i] show ?thesis
      by (auto intro: phase_step.intros)
  qed
next
  case (finish a r now)
  then show ?thesis
    by (auto simp: phase_of_def completed_record_def intro: phase_step.intros)
next
  case finished
  then show ?thesis by (simp add: phase_step.stay)
next
  case (release n r now)
  then show ?thesis
    by (auto simp: phase_of_def nacked_record_def Let_def intro: phase_step.intros)
next
  case released
  then show ?thesis by (simp add: phase_step.stay)
next
  case (expire now X Y)
  have Y': "Y \<subseteq> due_set (expire_in now X m) StCompleted now"
  proof
    fix x
    assume "x \<in> Y"
    with expire(5) obtain r where r: "m x = Some r" "r_State r = StCompleted" "r_Due r \<le> now"
      by (auto simp: due_set_def)
    with expire(4) have "x \<notin> X" by (auto simp: due_set_def)
    with r show "x \<in> due_set (expire_in now X m) StCompleted now"
      by (simp add: due_set_def expire_in_def)
  qed
  show ?thesis
    using phase_expire_in [OF expire(4), of i] phase_forget_in [OF Y', of i] expire(2)
    by (elim disjE exE conjE; simp add: phase_step.intros)
qed

text \<open>The only way out of a record that is not completed.\<close>

lemma spec_step_keeps:
  assumes step: "spec_step E p m l m'" and r: "m i = Some r" "r_State r \<noteq> StCompleted"
  shows "(\<exists>r'. m' i = Some r' \<and> r_State r' \<noteq> StCompleted
              \<and> r_Event r' = r_Event r \<and> r_Hash r' = r_Hash r \<and> r_Sequence r' = r_Sequence r)
    \<or> (\<exists>a now. l = LAck a now (Inr False) \<and> a_EventID a = i \<and> r_State r = StLeased
              \<and> a_Token a = r_Token r \<and> now < r_Due r \<and> m' i = Some (completed_record p now r))"
  using step
proof cases
  case (duplicate e data now X)
  with r show ?thesis by (auto simp: forget_in_def due_set_def)
next
  case (accept e data now X seq)
  with r show ?thesis by (auto simp: forget_in_def due_set_def retained_def)
next
  case (deliver now X j r0 rnd token e)
  with r show ?thesis
    by (cases "i \<in> X"; cases "i = j")
       (auto simp: expire_in_def expired_record_def leased_record_def)
next
  case (finish a r0 now)
  with r show ?thesis by auto
next
  case (release n r0 now)
  with r show ?thesis by (cases "n_EventID n = i") (auto simp: nacked_record_def Let_def)
next
  case (expire now X Y)
  with r have "i \<notin> Y" by (auto simp: due_set_def)
  with expire r show ?thesis by (auto simp: forget_in_def expire_in_def expired_record_def)
qed (use r in auto)

end
