(* ===== verification/Durable_Live.thy ===== *)
theory Durable_Live
  imports Durable_Spec
begin

text \<open>
  What the operations return when nothing outside the broker fails: the context is alive, the
  broker open, bbolt begins, writes and commits. The outcomes are then functions of the stored
  records, the clock and the limits alone, so in particular no operation is refused or stuck
  for another reason.
\<close>

section \<open>The absence of failures\<close>

definition reliable :: "'db env \<Rightarrow> bool" where
  "reliable E \<longleftrightarrow> (\<forall>db b k v. \<exists>db'. bput E db b k v = Inr db')
     \<and> (\<forall>db b k. \<exists>db'. bdelete E db b k = Inr db')
     \<and> (\<forall>db b. \<exists>n db'. bnext E db b = Inr (n, db'))"

definition quiet :: "'db broker \<Rightarrow> op_in \<Rightarrow> bool" where
  "quiet d i \<longleftrightarrow> \<not> b_stopped d \<and> i_ctx i = None \<and> i_begin i = None \<and> i_commit i = None"

lemma mem_env_reliable: "reliable (mem_env enc dec encn sha)"
  by (simp add: reliable_def mem_env_def)

lemma reliable_put: "reliable E \<Longrightarrow> \<exists>db'. tx_put E db b k v = Inr db'"
  by (simp add: reliable_def tx_put_def)

lemma reliable_delete: "reliable E \<Longrightarrow> \<exists>db'. tx_delete E db b k = Inr db'"
  by (simp add: reliable_def tx_delete_def)

lemma reliable_save: "reliable E \<Longrightarrow> \<exists>db'. save E db i r = Inr db'"
  by (simp add: save_def reliable_put)

lemma reliable_next: "reliable E \<Longrightarrow> \<exists>n db'. lift_bolt (bnext E db b) = Inr (n, db')"
  by (simp add: reliable_def)

text \<open>The three writes of every move of a record.\<close>

lemma reliable_move:
  assumes "reliable E"
  shows "\<exists>y. sbind (tx_delete E db b k) (\<lambda>db1. sbind (save E db1 i r) (\<lambda>db2.
           sbind (tx_put E db2 c l v) (\<lambda>db3. Inr (f db3)))) = Inr (f y)"
proof -
  obtain db1 where 1: "tx_delete E db b k = Inr db1" using reliable_delete [OF assms] by blast
  obtain db2 where 2: "save E db1 i r = Inr db2" using reliable_save [OF assms] by blast
  obtain db3 where 3: "tx_put E db2 c l v = Inr db3" using reliable_put [OF assms] by blast
  show ?thesis by (rule exI [of _ db3]) (simp only: 1 2 3 sbind_simps)
qed

lemma update_quiet:
  assumes rel: "reliable E" and q: "quiet d i" and s: "read_stats E (b_db d) = Inr s"
  shows "fst (update E d i f) = (case f (b_db d, s) (i_now i) of Inl e \<Rightarrow> Inl e | Inr (x, t) \<Rightarrow> Inr x)"
proof (cases "f (b_db d, s) (i_now i)")
  case (Inl e)
  with q s show ?thesis by (simp add: update_def quiet_def enter_def update_tx_def)
next
  case (Inr y)
  obtain x db' s' where y: "y = (x, db', s')" by (metis surj_pair)
  obtain db'' where "tx_put E db' Metadata ''stats'' (DocStats s') = Inr db''"
    using reliable_put [OF rel] by blast
  with q s Inr y show ?thesis by (simp add: update_def quiet_def enter_def update_tx_def)
qed

section \<open>The outcomes\<close>

definition ack_outcome :: "(bytes \<rightharpoonup> disk_record) \<Rightarrow> int \<Rightarrow> ack_request \<Rightarrow> queue_error + bool" where
  "ack_outcome m now a = (case m (a_EventID a) of
     None \<Rightarrow> Inl ErrStaleLease
   | Some r \<Rightarrow> if r_Token r \<noteq> a_Token a \<or> r_Due r \<le> now then Inl ErrStaleLease
       else if r_State r = StCompleted then Inr True
       else if r_State r = StLeased then Inr False
       else Inl ErrStaleLease)"

definition nack_outcome :: "'db env \<Rightarrow> durable_options \<Rightarrow> (bytes \<rightharpoonup> disk_record) \<Rightarrow> int \<Rightarrow> nack_request \<Rightarrow>
    queue_error + bool" where
  "nack_outcome E p m now n = (case m (n_EventID n) of
     None \<Rightarrow> Inl ErrStaleLease
   | Some r \<Rightarrow>
       if r_State r \<in> {StReady, StQuarantined} \<and> r_LastNackToken r = n_Token n
       then (if r_LastNackHash r = sha256 E (marshal_nack E n) then Inr True else Inl ErrConflict)
       else if r_State r = StLeased \<and> r_Token r = n_Token n \<and> now < r_Due r
       then (if n_Permanent n \<and>
                o_QuarantineCapacity p \<le> int (card {i. \<exists>r. m i = Some r \<and> r_State r = StQuarantined})
             then Inl ErrFull else Inr False)
       else Inl ErrStaleLease)"

text \<open>The records that count as active, and the outcome of a publish after \<open>m\<close> was cleaned.\<close>

definition active :: "(bytes \<rightharpoonup> disk_record) \<Rightarrow> bytes set" where
  "active m = {i. \<exists>r. m i = Some r \<and> r_State r \<in> {StReady, StLeased, StQuarantined}}"

definition admit_outcome :: "durable_options \<Rightarrow> (bytes \<rightharpoonup> disk_record) \<Rightarrow> bytes \<Rightarrow> queue_error + bool" where
  "admit_outcome p m data =
     (if o_Capacity p \<le> int (card (active m))
        \<or> o_MaxLogicalBytes p < total_weight m + int (length data) + activeOverhead
      then Inl ErrFull
      else if o_DedupCapacity p \<le> int (card (dom m)) then Inl ErrDedupFull
      else Inr False)"

context bolt_db
begin

lemma good_brokerE:
  assumes "good_broker E p d"
  obtains s where "read_stats E (b_db d) = Inr s" and "tx_inv E (b_db d, s)" and "wf_db E (b_db d)"
    and "wf_stats E (b_db d) s" and "limits p s" and "b_opts d = p"
  using assms that by (auto simp: good_broker_def tx_inv_def)

lemma Ack_tx_outcome:
  assumes rel: "reliable E" and wf: "wf_db E db"
  shows "(case Ack_tx E p a (db, s) now of Inl e \<Rightarrow> Inl e | Inr (x, t) \<Rightarrow> Inr x)
       = ack_outcome (recs E db) now a"
proof (cases "recs E db (a_EventID a)")
  case None
  then show ?thesis by (simp add: Ack_tx_def load_wf [OF wf] ack_outcome_def)
next
  case (Some r)
  show ?thesis
  proof (cases "r_State r = StLeased \<and> r_Token r = a_Token a \<and> now < r_Due r")
    case True
    obtain db1 where 1: "tx_delete E db Leases (indexKey (r_Due r) (r_Sequence r)) = Inr db1"
      using reliable_delete [OF rel] by blast
    let ?r' = "r\<lparr>r_Event := [], r_State := StCompleted, r_Due := wrap64 (now + o_CompletionTTL p)\<rparr>"
    obtain db2 where 2: "save E db1 (a_EventID a) ?r' = Inr db2"
      using reliable_save [OF rel] by blast
    obtain db3 where 3: "tx_put E db2 Completions (indexKey (wrap64 (now + o_CompletionTTL p))
        (r_Sequence r)) (DocBytes (a_EventID a)) = Inr db3"
      using reliable_put [OF rel] by blast
    from True Some 1 2 3 show ?thesis
      by (simp add: Ack_tx_def load_wf [OF wf] ack_outcome_def Let_def)
  next
    case False
    with Some show ?thesis by (auto simp: Ack_tx_def load_wf [OF wf] ack_outcome_def)
  qed
qed

lemma Nack_tx_outcome:
  assumes rel: "reliable E" and wf: "wf_db E db" and ws: "wf_stats E db s"
  shows "(case Nack_tx E p n (sha256 E (marshal_nack E n)) (db, s) now of
            Inl e \<Rightarrow> Inl e | Inr (x, t) \<Rightarrow> Inr x) = nack_outcome E p (recs E db) now n"
proof (cases "recs E db (n_EventID n)")
  case None
  then show ?thesis by (simp add: Nack_tx_def load_wf [OF wf] nack_outcome_def)
next
  case (Some r)
  have quar: "s_Quarantined s = int (card {i. \<exists>r. recs E db i = Some r \<and> r_State r = StQuarantined})"
    using ws by (simp add: wf_stats_def in_state_def)
  show ?thesis
  proof (cases "r_State r = StLeased \<and> r_Token r = n_Token n \<and> now < r_Due r
      \<and> \<not> (n_Permanent n \<and> s_Quarantined s \<ge> o_QuarantineCapacity p)")
    case True
    obtain db1 where 1: "tx_delete E db Leases (indexKey (r_Due r) (r_Sequence r)) = Inr db1"
      using reliable_delete [OF rel] by blast
    have put: "\<exists>db'. tx_put E x b k v = Inr db'" and sav: "\<exists>db'. save E x i r' = Inr db'"
      for x b k v i r' using reliable_put [OF rel] reliable_save [OF rel] by blast+
    have two: "(case sbind (tx_put E db1 b k v) (\<lambda>db2. sbind (save E db2 i r') (\<lambda>db3. Inr (False, db3, z)))
        of Inl e \<Rightarrow> Inl e | Inr (x, t) \<Rightarrow> Inr x) = (Inr False :: queue_error + bool)" for b k v i r' z
    proof -
      obtain db2 where 2: "tx_put E db1 b k v = Inr db2" using put by blast
      obtain db3 where "save E db2 i r' = Inr db3" using sav by blast
      with 2 show ?thesis by simp
    qed
    have one: "(case sbind (save E db1 i r') (\<lambda>db3. Inr (False, db3, z))
        of Inl e \<Rightarrow> Inl e | Inr (x, t) \<Rightarrow> Inr x) = (Inr False :: queue_error + bool)" for i r' z
      using sav [of db1 i r'] by auto
    from True Some 1 one two quar show ?thesis
      by (cases "n_Permanent n") (simp_all add: Nack_tx_def load_wf [OF wf] nack_outcome_def Let_def)
  next
    case False
    with Some quar show ?thesis by (auto simp: Nack_tx_def load_wf [OF wf] nack_outcome_def)
  qed
qed

section \<open>Expiry never fails\<close>

lemma expireLease_total:
  assumes rel: "reliable E" and wf: "wf_db E db" and r: "recs E db i = Some r"
  shows "\<exists>t. expireLease E now k (DocBytes i) (db, s) = Inr t"
proof -
  obtain db1 where 1: "tx_delete E db Leases k = Inr db1" using reliable_delete [OF rel] by blast
  let ?r' = "r\<lparr>r_State := StReady, r_Token := [], r_Due := now\<rparr>"
  obtain db2 where 2: "save E db1 i ?r' = Inr db2" using reliable_save [OF rel] by blast
  obtain db3 where 3: "tx_put E db2 Ready (indexKey now (r_Sequence r)) (DocBytes i) = Inr db3"
    using reliable_put [OF rel] by blast
  from 1 2 3 show ?thesis by (simp add: expireLease_def text_bytes load_wf [OF wf] r)
qed

lemma expireLeases_total:
  assumes "reliable E" and "tx_inv E t" and "due_ok now"
  shows "\<exists>t'. expireLeases_loop E now n t = Inr t'"
  using assms(2)
proof (induction n arbitrary: t)
  case 0
  then show ?case by simp
next
  case (Suc n)
  obtain db s where t: "t = (db, s)" by fastforce
  with Suc.prems have inv: "tx_inv E (db, s)" and wf: "wf_db E db" by (simp_all add: tx_inv_def)
  show ?case
  proof (cases "dueFirst E db Leases now")
    case None
    then show ?thesis by (simp add: t)
  next
    case (Some kv)
    then obtain k v where kv: "dueFirst E db Leases now = Some (k, v)" by (cases kv) auto
    obtain i r where v: "v = DocBytes i" "btext E v = i"
      and i: "recs E db i = Some r" "r_State r = StLeased" "k = rkey r" "r_Due r \<le> now"
      and "\<forall>j r'. recs E db j = Some r' \<longrightarrow> r_State r' = StLeased \<longrightarrow> rkey r \<le> rkey r'"
      by (rule dueFirst_SomeE [OF wf idx.simps(2) kv])
    obtain t1 where run: "expireLease E now (rkey r) (DocBytes i) (db, s) = Inr t1"
      using expireLease_total [OF assms(1) wf i(1)] by blast
    have "tx_inv E (fst t1, snd t1)"
      by (rule expireLease_spec(3) [OF inv i(1,2) assms(3)]) (simp add: run)
    then have "tx_inv E t1" by simp
    with Suc.IH obtain t' where "expireLeases_loop E now n t1 = Inr t'" by blast
    with run kv i(3) v(1) t show ?thesis by simp
  qed
qed

lemma removeCompleted_total:
  assumes rel: "reliable E"
  shows "\<exists>t. removeCompleted E i r (db, s) = Inr t"
proof -
  obtain db1 where 1: "tx_delete E db Completions (indexKey (r_Due r) (r_Sequence r)) = Inr db1"
    using reliable_delete [OF rel] by blast
  obtain db2 where 2: "tx_delete E db1 Records i = Inr db2" using reliable_delete [OF rel] by blast
  from 1 2 show ?thesis by (simp add: removeCompleted_def)
qed

lemma expireCompleted_total:
  assumes "reliable E" and "tx_inv E t"
  shows "\<exists>t'. expireCompleted_loop E now n t = Inr t'"
  using assms(2)
proof (induction n arbitrary: t)
  case 0
  then show ?case by simp
next
  case (Suc n)
  obtain db s where t: "t = (db, s)" by fastforce
  with Suc.prems have inv: "tx_inv E (db, s)" and wf: "wf_db E db" by (simp_all add: tx_inv_def)
  show ?case
  proof (cases "dueFirst E db Completions now")
    case None
    then show ?thesis by (simp add: t)
  next
    case (Some kv)
    then obtain k v where kv: "dueFirst E db Completions now = Some (k, v)" by (cases kv) auto
    obtain i r where v: "v = DocBytes i" "btext E v = i"
      and i: "recs E db i = Some r" "r_State r = StCompleted" "k = rkey r" "r_Due r \<le> now"
      and "\<forall>j r'. recs E db j = Some r' \<longrightarrow> r_State r' = StCompleted \<longrightarrow> rkey r \<le> rkey r'"
      by (rule dueFirst_SomeE [OF wf idx.simps(3) kv])
    obtain t1 where run: "removeCompleted E i r (db, s) = Inr t1"
      using removeCompleted_total [OF assms(1)] by blast
    have "tx_inv E (fst t1, snd t1)"
      by (rule removeCompleted_spec(3) [OF inv i(1,2)]) (simp add: run)
    then have "tx_inv E t1" by simp
    with Suc.IH obtain t' where "expireCompleted_loop E now n t1 = Inr t'" by blast
    with run kv i(1) v t show ?thesis by (simp add: load_wf [OF wf])
  qed
qed

section \<open>Lease\<close>

text \<open>The index has an entry that is due exactly when a record is.\<close>

lemma dueFirst_due_set:
  assumes wf: "wf_db E db" and b: "idx st = Some b"
  shows "dueFirst E db b now = None \<longleftrightarrow> due_set (recs E db) st now = {}"
proof
  assume "dueFirst E db b now = None"
  then show "due_set (recs E db) st now = {}" by (rule dueFirst_None [OF wf b])
next
  assume empty: "due_set (recs E db) st now = {}"
  show "dueFirst E db b now = None"
  proof (rule ccontr)
    assume "dueFirst E db b now \<noteq> None"
    then obtain k v where kv: "dueFirst E db b now = Some (k, v)" by auto
    obtain i r where "v = DocBytes i" and "btext E v = i" and "recs E db i = Some r"
      and "r_State r = st" and "k = rkey r" and "r_Due r \<le> now"
      and "\<forall>j r'. recs E db j = Some r' \<longrightarrow> r_State r' = st \<longrightarrow> rkey r \<le> rkey r'"
      by (rule dueFirst_SomeE [OF wf b kv])
    with empty show False by (auto simp: due_set_def)
  qed
qed

lemma due_after_expiry:
  assumes X: "X \<subseteq> due_set m StLeased now"
    and card: "card X = min (nat (o_CleanupBatch p)) (card (due_set m StLeased now))"
    and batch: "1 \<le> o_CleanupBatch p" and fin: "finite (due_set m StLeased now)"
  shows "due_set (expire_in now X m) StReady now = {} \<longleftrightarrow>
      due_set m StReady now = {} \<and> due_set m StLeased now = {}"
proof
  assume none: "due_set (expire_in now X m) StReady now = {}"
  have "X = {}"
  proof (rule ccontr)
    assume "X \<noteq> {}"
    then obtain x where x: "x \<in> X" by blast
    with X obtain r where "m x = Some r" by (auto simp: due_set_def)
    with x have "x \<in> due_set (expire_in now X m) StReady now"
      by (simp add: due_set_def expire_in_def expired_record_def)
    with none show False by simp
  qed
  with card batch have "card (due_set m StLeased now) = 0" by auto
  with fin have "due_set m StLeased now = {}" by simp
  with none \<open>X = {}\<close> show "due_set m StReady now = {} \<and> due_set m StLeased now = {}"
    by (simp add: expire_in_def)
next
  assume "due_set m StReady now = {} \<and> due_set m StLeased now = {}"
  with X show "due_set (expire_in now X m) StReady now = {}" by (simp add: expire_in_def)
qed

lemma tryLease_outcome:
  assumes rel: "reliable E" and good: "good_broker E p d" and q: "quiet d i"
    and now: "clock_ok (i_now i)" and rnd: "i_rand i = Some b"
    and dec: "\<forall>j r. recs E (b_db d) j = Some r \<longrightarrow> r_State r \<noteq> StCompleted \<longrightarrow>
      unmarshal E (r_Event r) \<noteq> None"
  shows "if due_set (recs E (b_db d)) StReady (i_now i) = {} \<and> due_set (recs E (b_db d)) StLeased (i_now i) = {}
         then fst (tryLease E d i) = Inr None
         else \<exists>dl. fst (tryLease E d i) = Inr (Some dl)"
proof -
  obtain s where s: "read_stats E (b_db d) = Inr s" and inv: "tx_inv E (b_db d, s)"
    and "wf_db E (b_db d)" and "wf_stats E (b_db d) s" and "limits p s" and opts: "b_opts d = p"
    by (rule good_brokerE [OF good])
  have p: "1 \<le> o_CleanupBatch p" using good Options_Validate_ok(4) by (auto simp: good_broker_def)
  let ?now = "i_now i"
  let ?m = "recs E (b_db d)"
  note nd = clock_now_ok [OF now]
  obtain db1 s1 where exp: "expireLeases E p ?now (b_db d, s) = Inr (db1, s1)"
    using expireLeases_total [OF rel inv nd] unfolding expireLeases_def by fastforce
  obtain X where X: "X \<subseteq> due_set ?m StLeased ?now"
    "card X = min (nat (o_CleanupBatch p)) (card (due_set ?m StLeased ?now))"
    "recs E db1 = expire_in ?now X ?m"
    "s1 = s\<lparr>s_Leased := s_Leased s - int (card X), s_Ready := s_Ready s + int (card X)\<rparr>"
    "tx_inv E (db1, s1)" "bseq E db1 Records = bseq E (b_db d) Records"
    by (rule expireLeases_spec [OF inv nd exp])
  from X(5) have wf1: "wf_db E db1" by (simp add: tx_inv_def)
  have due: "dueFirst E db1 Ready ?now = None \<longleftrightarrow>
      due_set ?m StReady ?now = {} \<and> due_set ?m StLeased ?now = {}"
    unfolding dueFirst_due_set [OF wf1 idx.simps(1)] X(3)
    by (rule due_after_expiry [OF X(1,2) p]) simp
  have upd: "fst (update E d i (tryLease_tx E p (i_rand i)))
      = (case tryLease_tx E p (i_rand i) (b_db d, s) ?now of Inl e \<Rightarrow> Inl e | Inr (x, t) \<Rightarrow> Inr x)"
    by (rule update_quiet [OF rel q s])
  show ?thesis
  proof (cases "dueFirst E db1 Ready ?now")
    case None
    then have "tryLease_tx E p (i_rand i) (b_db d, s) ?now = Inl ErrNoReady"
      by (simp add: tryLease_tx_def exp)
    with upd have "fst (update E d i (tryLease_tx E p (i_rand i))) = Inl ErrNoReady" by simp
    then have "fst (tryLease E d i) = Inr None"
      by (auto simp: tryLease_def opts split: prod.splits)
    with None due show ?thesis by simp
  next
    case (Some kv)
    then obtain k v where kv: "dueFirst E db1 Ready ?now = Some (k, v)" by (cases kv) auto
    obtain j r where v: "v = DocBytes j" "btext E v = j"
      and j: "recs E db1 j = Some r" "r_State r = StReady" "k = rkey r" "r_Due r \<le> ?now"
      and "\<forall>l r'. recs E db1 l = Some r' \<longrightarrow> r_State r' = StReady \<longrightarrow> rkey r \<le> rkey r'"
      by (rule dueFirst_SomeE [OF wf1 idx.simps(1) kv])
    obtain e where e: "unmarshal E (r_Event r) = Some e"
    proof -
      from j(1) obtain r0 where r0: "?m j = Some r0" "r_Event r = r_Event r0"
        "r_State r0 \<noteq> StCompleted"
        using X(1) j(2) unfolding X(3)
        by (auto simp: expire_in_def due_set_def expired_record_def split: if_splits)
      with dec that show thesis by fastforce
    qed
    have "\<exists>y. tryLease_tx E p (i_rand i) (b_db d, s) ?now = Inr y"
    proof -
      let ?r' = "r\<lparr>r_State := StLeased, r_Token := hex_encode b,
        r_Due := wrap64 (?now + o_LeaseDuration p), r_Attempt := r_Attempt r + 1,
        r_LastNackToken := [], r_LastNackHash := zero_hash, r_Reason := []\<rparr>"
      obtain db2 where 2: "tx_delete E db1 Ready (rkey r) = Inr db2"
        using reliable_delete [OF rel] by blast
      obtain db3 where 3: "save E db2 j ?r' = Inr db3" using reliable_save [OF rel] by blast
      obtain db4 where 4: "tx_put E db3 Leases
          (indexKey (wrap64 (?now + o_LeaseDuration p)) (r_Sequence r)) (DocBytes j) = Inr db4"
        using reliable_put [OF rel] by blast
      from kv v j(1,3) rnd e 2 3 4 show ?thesis
        by (simp add: tryLease_tx_def exp load_wf [OF wf1] NewID_def Let_def)
    qed
    then obtain x t where "tryLease_tx E p (i_rand i) (b_db d, s) ?now = Inr (x, t)" by fastforce
    with upd have "fst (update E d i (tryLease_tx E p (i_rand i))) = Inr x" by simp
    then have "fst (tryLease E d i) = Inr (Some x)"
      by (auto simp: tryLease_def opts split: prod.splits sum.splits)
    with Some due show ?thesis by (metis option.distinct(1))
  qed
qed

section \<open>Publish\<close>

lemma stats_cards:
  assumes wf: "wf_db E db" and ws: "wf_stats E db s"
  shows "int (card (active (recs E db))) = s_Ready s + s_Leased s + s_Quarantined s"
    and "int (card (dom (recs E db))) = s_Ready s + s_Leased s + s_Quarantined s + s_Completed s"
proof -
  let ?S = "in_state E db"
  have act: "active (recs E db) = ?S StReady \<union> ?S StLeased \<union> ?S StQuarantined"
    by (auto simp: active_def in_state_def)
  have all: "dom (recs E db) = active (recs E db) \<union> ?S StCompleted"
  proof
    show "dom (recs E db) \<subseteq> active (recs E db) \<union> ?S StCompleted"
    proof
      fix i assume "i \<in> dom (recs E db)"
      then obtain r where r: "recs E db i = Some r" by blast
      with wf_record [OF wf r] show "i \<in> active (recs E db) \<union> ?S StCompleted"
        by (cases "r_State r") (auto simp: active_def in_state_def)
    qed
  qed (auto simp: active_def in_state_def)
  have d1: "?S StReady \<inter> ?S StLeased = {}" "(?S StReady \<union> ?S StLeased) \<inter> ?S StQuarantined = {}"
    by (auto simp: in_state_def)
  have card_act: "card (active (recs E db)) = card (?S StReady) + card (?S StLeased) + card (?S StQuarantined)"
    unfolding act by (simp add: card_Un_disjoint d1)
  with ws show "int (card (active (recs E db))) = s_Ready s + s_Leased s + s_Quarantined s"
    by (simp add: wf_stats_def)
  have fin: "finite (active (recs E db))" unfolding act by simp
  have "active (recs E db) \<inter> ?S StCompleted = {}" by (auto simp: active_def in_state_def)
  then have "card (dom (recs E db)) = card (active (recs E db)) + card (?S StCompleted)"
    unfolding all by (simp add: card_Un_disjoint fin)
  with ws card_act
  show "int (card (dom (recs E db))) = s_Ready s + s_Leased s + s_Quarantined s + s_Completed s"
    by (simp add: wf_stats_def)
qed

lemma admit_tx_outcome:
  assumes rel: "reliable E" and inv: "tx_inv E (db, s)"
  shows "(case admit E p i data hash now (db, s) of Inl e \<Rightarrow> Inl e | Inr (x, t) \<Rightarrow> Inr x)
       = admit_outcome p (recs E db) data"
proof -
  from inv have wf: "wf_db E db" and ws: "wf_stats E db s" by (simp_all add: tx_inv_def)
  note cards = stats_cards [OF wf ws]
  have bytes: "s_LogicalBytes s = total_weight (recs E db)" using ws by (simp add: wf_stats_def)
  obtain n db1 where 1: "lift_bolt (bnext E db Records) = Inr (n, db1)"
    using reliable_next [OF rel] by blast
  let ?r = "zero_record\<lparr>r_Event := data, r_Hash := hash, r_State := StReady, r_Sequence := n,
    r_Due := now\<rparr>"
  obtain db2 where 2: "save E db1 i ?r = Inr db2" using reliable_save [OF rel] by blast
  obtain db3 where 3: "tx_put E db2 Ready (indexKey now n) (DocBytes i) = Inr db3"
    using reliable_put [OF rel] by blast
  from 1 2 3 show ?thesis
    by (simp add: admit_def admit_outcome_def cards bytes Let_def lift_bolt_def)
qed

lemma Publish_tx_outcome:
  assumes rel: "reliable E" and inv: "tx_inv E (db, s)"
  shows "\<exists>X. X \<subseteq> due_set (recs E db) StCompleted now
    \<and> card X = min (nat (o_CleanupBatch p)) (card (due_set (recs E db) StCompleted now))
    \<and> (case Publish_tx E p i data hash (db, s) now of Inl e \<Rightarrow> Inl e | Inr (x, t) \<Rightarrow> Inr x) =
      (if retained (recs E db) now i
       then (if map_option r_Hash (recs E db i) = Some hash then Inr True else Inl ErrConflict)
       else admit_outcome p ((forget_in X (recs E db))(i := None)) data)"
proof -
  obtain db1 s1 where exp: "expireCompleted E p now (db, s) = Inr (db1, s1)"
    using expireCompleted_total [OF rel inv] unfolding expireCompleted_def by fastforce
  obtain X where X: "X \<subseteq> due_set (recs E db) StCompleted now"
      "card X = min (nat (o_CleanupBatch p)) (card (due_set (recs E db) StCompleted now))"
      "recs E db1 = forget_in X (recs E db)"
      "s1 = s\<lparr>s_Completed := s_Completed s - int (card X),
              s_LogicalBytes := s_LogicalBytes s - int (card X) * completedOverhead\<rparr>"
      "tx_inv E (db1, s1)" "bseq E db1 Records = bseq E db Records"
    by (rule expireCompleted_spec [OF inv exp])
  from X(5) have wf1: "wf_db E db1" by (simp add: tx_inv_def)
  have "(case Publish_tx E p i data hash (db, s) now of Inl e \<Rightarrow> Inl e | Inr (x, t) \<Rightarrow> Inr x) =
      (if retained (recs E db) now i
       then (if map_option r_Hash (recs E db i) = Some hash then Inr True else Inl ErrConflict)
       else admit_outcome p ((forget_in X (recs E db))(i := None)) data)"
  proof (cases "retained (recs E db) now i")
    case True
    with forget_in_retained [OF X(1)] obtain r where r: "recs E db i = Some r" "recs E db1 i = Some r"
      "\<not> (r_State r = StCompleted \<and> r_Due r \<le> now)" by (auto simp: retained_def X(3))
    with True show ?thesis by (auto simp: Publish_tx_def exp load_wf [OF wf1])
  next
    case False
    with retained_forget_in [OF X(1)] have no: "\<not> retained (recs E db1) now i" by (simp add: X(3))
    show ?thesis
    proof (cases "recs E db1 i")
      case None
      then have "(forget_in X (recs E db))(i := None) = recs E db1"
        unfolding X(3) by (simp add: fun_upd_idem)
      with None False show ?thesis
        by (simp add: Publish_tx_def exp load_wf [OF wf1] admit_tx_outcome [OF rel X(5)])
    next
      case (Some r)
      with no have r: "r_State r = StCompleted" "r_Due r \<le> now" by (auto simp: retained_def)
      obtain db2 s2 where rem: "removeCompleted E i r (db1, s1) = Inr (db2, s2)"
        using removeCompleted_total [OF rel] by fastforce
      note sp = removeCompleted_spec [OF X(5) Some r(1) rem]
      have "(forget_in X (recs E db))(i := None) = recs E db2" using sp(1) X(3) by simp
      with Some r rem False show ?thesis
        by (simp add: Publish_tx_def exp load_wf [OF wf1] admit_tx_outcome [OF rel sp(3)])
    qed
  qed
  with X(1,2) show ?thesis by blast
qed

section \<open>The operations of the broker\<close>

lemma Ack_outcome:
  assumes "reliable E" and good: "good_broker E p d" and "quiet d i"
    and "validateReceipt (a_EventID a) (a_Token a) = Inr ()"
  shows "fst (Ack E d i a) = ack_outcome (recs E (b_db d)) (i_now i) a"
proof -
  obtain s where s: "read_stats E (b_db d) = Inr s" and "tx_inv E (b_db d, s)"
    and wf: "wf_db E (b_db d)" and "wf_stats E (b_db d) s" and "limits p s" and "b_opts d = p"
    by (rule good_brokerE [OF good])
  with assms show ?thesis
    by (simp add: Ack_def update_quiet [OF assms(1,3) s] Ack_tx_outcome [OF assms(1) wf])
qed

lemma Nack_outcome:
  assumes "reliable E" and good: "good_broker E p d" and "quiet d i"
    and "validateReceipt (n_EventID n) (n_Token n) = Inr ()" and "\<not> bad_nack n"
  shows "fst (Nack E d i n) = nack_outcome E p (recs E (b_db d)) (i_now i) n"
proof -
  obtain s where s: "read_stats E (b_db d) = Inr s" and "tx_inv E (b_db d, s)"
    and wf: "wf_db E (b_db d)" and ws: "wf_stats E (b_db d) s" and "limits p s" and "b_opts d = p"
    by (rule good_brokerE [OF good])
  with assms show ?thesis
    by (simp add: Nack_def update_quiet [OF assms(1,3) s] Nack_tx_outcome [OF assms(1) wf ws])
qed

lemma Publish_outcome:
  assumes "reliable E" and good: "good_broker E p d" and "quiet d i"
    and "Event_Validate e = Inr ()" and "marshal E e = Some data"
    and "int (length data) \<le> o_MaxPayloadBytes p"
  obtains X where "X \<subseteq> due_set (recs E (b_db d)) StCompleted (i_now i)"
    and "card X = min (nat (o_CleanupBatch p)) (card (due_set (recs E (b_db d)) StCompleted (i_now i)))"
    and "fst (PublishContext E d i e) =
      (if retained (recs E (b_db d)) (i_now i) (e_EventID e)
       then (if map_option r_Hash (recs E (b_db d) (e_EventID e)) = Some (sha256 E data)
             then Inr True else Inl ErrConflict)
       else admit_outcome p ((forget_in X (recs E (b_db d)))(e_EventID e := None)) data)"
proof -
  obtain s where s: "read_stats E (b_db d) = Inr s" and inv: "tx_inv E (b_db d, s)"
    and "wf_db E (b_db d)" and "wf_stats E (b_db d) s" and "limits p s" and opts: "b_opts d = p"
    by (rule good_brokerE [OF good])
  have "fst (PublishContext E d i e) =
      (case Publish_tx E p (e_EventID e) data (sha256 E data) (b_db d, s) (i_now i) of
         Inl e \<Rightarrow> Inl e | Inr (x, t) \<Rightarrow> Inr x)"
    using assms(4-) by (simp add: PublishContext_def opts update_quiet [OF assms(1,3) s])
  with Publish_tx_outcome [OF assms(1) inv, of "i_now i" p "e_EventID e" data "sha256 E data"] that
  show ?thesis by metis
qed

section \<open>Receipts after receipts\<close>

lemma tryLease_token:
  assumes good: "good_broker E p d" and now: "clock_ok (i_now i)"
    and run: "tryLease E d i = (Inr (Some dl), d')" and rnd: "i_rand i = Some b"
  shows "length (d_Token dl) = 2 * length b"
proof -
  obtain X j r token e where "X \<subseteq> due_set (recs E (b_db d)) StLeased (i_now i)"
    and "card X = min (nat (o_CleanupBatch p)) (card (due_set (recs E (b_db d)) StLeased (i_now i)))"
    and "expire_in (i_now i) X (recs E (b_db d)) j = Some r" and "r_State r = StReady"
    and "r_Due r \<le> i_now i"
    and "\<forall>l r'. expire_in (i_now i) X (recs E (b_db d)) l = Some r' \<longrightarrow> r_State r' = StReady
           \<longrightarrow> rkey r \<le> rkey r'"
    and token: "NewID (i_rand i) = Some token" and "unmarshal E (r_Event r) = Some e"
    and dl: "dl = \<lparr>d_Event = e, d_Token = token,
               d_ExpiresAt = unix_time (wrap64 (i_now i + o_LeaseDuration p)),
               d_Attempt = r_Attempt r + 1\<rparr>"
    and "recs E (b_db d') = (expire_in (i_now i) X (recs E (b_db d)))
           (j \<mapsto> leased_record p token (i_now i) r)"
    and "good_broker E p d'"
    by (rule tryLease_okE [OF good now run])
  from NewID_length [OF token rnd] dl show ?thesis by simp
qed

lemma Ack_completes:
  assumes good: "good_broker E p d" and now: "clock_ok (i_now i)" and run: "Ack E d i a = (Inr False, d')"
  shows "\<exists>r. recs E (b_db d) (a_EventID a) = Some r \<and> r_State r = StLeased \<and> good_broker E p d'
    \<and> recs E (b_db d') (a_EventID a) = Some (completed_record p (i_now i) r)
    \<and> r_State (completed_record p (i_now i) r) = StCompleted
    \<and> r_Token (completed_record p (i_now i) r) = a_Token a
    \<and> r_Due (completed_record p (i_now i) r) = i_now i + o_CompletionTTL p
    \<and> validateReceipt (a_EventID a) (a_Token a) = Inr ()"
proof -
  obtain r where r: "recs E (b_db d) (a_EventID a) = Some r" "r_Token r = a_Token a"
    "i_now i < r_Due r" "r_State r = (if False then StCompleted else StLeased)"
    and rec: "recs E (b_db d') = (if False then recs E (b_db d)
           else (recs E (b_db d))(a_EventID a \<mapsto> completed_record p (i_now i) r))"
    and good': "good_broker E p d'" and "length (a_Token a) = 32"
    by (rule Ack_okE [OF good now run])
  have p: "0 < o_CompletionTTL p" "o_CompletionTTL p \<le> 31536000000000000"
    using good Options_Validate_ok(7,8) [of p] by (auto simp: good_broker_def)
  then have "due_ok (i_now i + o_CompletionTTL p)" by (intro clock_due_ok [OF now]) simp_all
  moreover have "validateReceipt (a_EventID a) (a_Token a) = Inr ()"
    using run by (auto simp: Ack_def split: sum.splits)
  ultimately show ?thesis using r rec good' by (intro exI [of _ r]) (simp add: completed_record_def)
qed

lemma Ack_again:
  assumes rel: "reliable E" and good: "good_broker E p d" and now: "clock_ok (i_now i)"
    and run: "Ack E d i a = (Inr False, d')" and q: "quiet d' j"
    and soon: "i_now j < i_now i + o_CompletionTTL p"
  shows "fst (Ack E d' j a) = Inr True"
proof -
  from Ack_completes [OF good now run] obtain r' where good': "good_broker E p d'"
    and rec: "recs E (b_db d') (a_EventID a) = Some r'" "r_State r' = StCompleted"
      "r_Token r' = a_Token a" "r_Due r' = i_now i + o_CompletionTTL p"
    and receipt: "validateReceipt (a_EventID a) (a_Token a) = Inr ()" by blast
  show ?thesis
    using Ack_outcome [OF rel good' q receipt] rec soon by (simp add: ack_outcome_def)
qed

section \<open>Cleanup\<close>

lemma Cleanup_progress:
  assumes good: "good_broker E p d" and now: "clock_ok (i_now j)"
    and run: "Cleanup E d i j = (Inr (), d')"
  shows "d' = d \<and> due_set (recs E (b_db d)) StLeased (i_now i) = {}
           \<and> due_set (recs E (b_db d)) StCompleted (i_now i) = {}
    \<or> (card (due_set (recs E (b_db d')) StLeased (i_now j)) =
          card (due_set (recs E (b_db d)) StLeased (i_now j)) - nat (o_CleanupBatch p)
        \<and> card (due_set (recs E (b_db d')) StCompleted (i_now j)) =
          card (due_set (recs E (b_db d)) StCompleted (i_now j)) - nat (o_CleanupBatch p)
        \<and> (\<forall>x. x \<notin> due_set (recs E (b_db d)) StLeased (i_now j) \<longrightarrow>
              x \<notin> due_set (recs E (b_db d)) StCompleted (i_now j) \<longrightarrow>
              recs E (b_db d') x = recs E (b_db d) x))"
proof -
  let ?m = "recs E (b_db d)"
  let ?L = "due_set ?m StLeased (i_now j)" and ?C = "due_set ?m StCompleted (i_now j)"
  obtain s where s: "read_stats E (b_db d) = Inr s" and "tx_inv E (b_db d, s)"
    and wf: "wf_db E (b_db d)" and "wf_stats E (b_db d) s" and "limits p s" and opts: "b_opts d = p"
    by (rule good_brokerE [OF good])
  obtain b where probe: "cleanup_due E d i = Inr b"
    using run by (auto simp: Cleanup_def split: sum.splits)
  show ?thesis
  proof (cases b)
    case False
    with run probe have same: "d' = d" by (simp add: Cleanup_def)
    from probe False have none: "dueFirst E (b_db d) Leases (i_now i) = None
        \<and> dueFirst E (b_db d) Completions (i_now i) = None"
      by (cases "dueFirst E (b_db d) Leases (i_now i)"; cases "dueFirst E (b_db d) Completions (i_now i)")
         (auto simp: cleanup_due_def view_def split: option.splits)
    from none have "due_set ?m StLeased (i_now i) = {}" and "due_set ?m StCompleted (i_now i) = {}"
      using dueFirst_due_set [OF wf idx.simps(2)] dueFirst_due_set [OF wf idx.simps(3)] by blast+
    with same show ?thesis by blast
  next
    case True
    with run probe opts have "update E d j (Cleanup_tx E p) = (Inr (), d')"
      by (simp add: Cleanup_def)
    then have upd: "update E d j (Cleanup_tx E p) = (Inr (), d')" .
    obtain X Y where X: "X \<subseteq> ?L" "card X = min (nat (o_CleanupBatch p)) (card ?L)"
      and Y: "Y \<subseteq> ?C" "card Y = min (nat (o_CleanupBatch p)) (card ?C)"
      and rec: "recs E (b_db d') = forget_in Y (expire_in (i_now j) X ?m)"
      and "good_broker E p d'"
      by (rule Cleanup_runE [OF good now upd])
    have L: "due_set (recs E (b_db d')) StLeased (i_now j) = ?L - X"
      using X(1) Y(1) unfolding rec
      by (auto simp: due_set_def forget_in_def expire_in_def expired_record_def split: if_splits)
    have C: "due_set (recs E (b_db d')) StCompleted (i_now j) = ?C - Y"
      using X(1) Y(1) unfolding rec
      by (auto simp: due_set_def forget_in_def expire_in_def expired_record_def split: if_splits)
    have "finite X" "finite Y" using X(1) Y(1) by (auto intro: finite_subset)
    then have "card (?L - X) = card ?L - card X" "card (?C - Y) = card ?C - card Y"
      using X(1) Y(1) by (simp_all add: card_Diff_subset)
    moreover have "recs E (b_db d') x = ?m x" if "x \<notin> ?L" "x \<notin> ?C" for x
    proof -
      have "x \<notin> X" "x \<notin> Y" using that X(1) Y(1) by blast+
      then show ?thesis by (simp add: rec forget_in_def expire_in_def)
    qed
    ultimately show ?thesis unfolding L C using X(2) Y(2) by (simp add: min_def)
  qed
qed

end

section \<open>The waiting lease\<close>

lemma Lease_round_poll: "fst (Lease_round E 0 x d) \<noteq> None"
  by (auto simp: Lease_round_def split: option.splits sum.splits prod.splits bool.splits)

lemma Lease_loop_ends:
  "x \<in> set xs \<Longrightarrow> l_wake x = WDeadline \<or> l_wake x = WStopped \<or> l_wake x = WCtx e \<Longrightarrow>
     fst (Lease_loop E wait xs d) \<noteq> None"
proof (induction xs arbitrary: d)
  case Nil
  then show ?case by simp
next
  case (Cons y ys)
  then show ?case
    by (cases "y = x") (auto simp: Let_def split: prod.splits option.splits wake.splits)
qed

lemma Lease_round_delivers:
  "Lease_round E wait x d = (Some (Inr (Some dl)), d') \<Longrightarrow>
     \<exists>d0. tryLease E d0 (l_try x) = (Inr (Some dl), d')"
  by (auto simp: Lease_round_def split: option.splits sum.splits prod.splits bool.splits if_splits)

lemma Lease_loop_delivers:
  "Lease_loop E wait xs d = (Some (Inr (Some dl)), d') \<Longrightarrow>
     \<exists>y d0. y \<in> set xs \<and> tryLease E d0 (l_try y) = (Inr (Some dl), d')"
proof (induction xs arbitrary: d)
  case Nil
  then show ?case by simp
next
  case (Cons y ys)
  obtain res d1 where round: "Lease_round E wait y d = (res, d1)" by fastforce
  show ?case
  proof (cases res)
    case None
    with Cons.prems round show ?thesis
      by (auto simp: Let_def split: wake.splits dest!: Cons.IH)
  next
    case (Some z)
    with Cons.prems round have "Lease_round E wait y d = (Some (Inr (Some dl)), d')" by simp
    from Lease_round_delivers [OF this] show ?thesis by auto
  qed
qed

end
