(* ===== verification/Durable_Example.thy ===== *)
theory Durable_Example
  imports Durable_Live "HOL-Library.Code_Target_Numeral"
begin

text \<open>
  A concrete broker on which the witnesses run: the database of \<open>mem_env\<close>, an encoding that
  knows one event, and the states the broker passes through while that event is published,
  leased and acknowledged.
\<close>

definition demo_event :: event where
  "demo_event = \<lparr>e_SchemaVersion = 1, e_EventID = ''e1'', e_ProducerInstanceID = ''p1'',
     e_ReplayIndex = 0, e_RowIndex = 1, e_ProcessedAt = unix_time 5000,
     e_Measurement = \<lparr>m_SourceTimestamp = unix_time 0, m_GPUUUID = ''g1'',
       m_MetricName = ''util'', m_Value = Finite 1, m_LocalGPUID = [], m_Device = [],
       m_ModelName = [], m_Hostname = [], m_Container = [], m_Pod = [], m_Namespace = [],
       m_LabelsRaw = []\<rparr>\<rparr>"

instantiation bucket :: enum
begin

definition enum_bucket :: "bucket list" where
  "enum_bucket = [Records, Ready, Leases, Completions, Metadata]"

definition enum_all_bucket :: "(bucket \<Rightarrow> bool) \<Rightarrow> bool" where
  "enum_all_bucket P \<longleftrightarrow> P Records \<and> P Ready \<and> P Leases \<and> P Completions \<and> P Metadata"

definition enum_ex_bucket :: "(bucket \<Rightarrow> bool) \<Rightarrow> bool" where
  "enum_ex_bucket P \<longleftrightarrow> P Records \<or> P Ready \<or> P Leases \<or> P Completions \<or> P Metadata"

instance
proof
  have univ: "x \<in> set enum_class.enum" for x :: bucket by (cases x) (simp_all add: enum_bucket_def)
  then show "UNIV = set (enum_class.enum :: bucket list)" by blast
  show "distinct (enum_class.enum :: bucket list)" by (simp add: enum_bucket_def)
  show "enum_class.enum_all P = Ball UNIV P" for P :: "bucket \<Rightarrow> bool"
    using univ by (auto simp: enum_all_bucket_def enum_bucket_def) (metis bucket.exhaust)
  show "enum_class.enum_ex P = Bex UNIV P" for P :: "bucket \<Rightarrow> bool"
    using univ by (auto simp: enum_ex_bucket_def enum_bucket_def) (metis bucket.exhaust)
qed

end

definition demo_env :: "mem_db env" where
  "demo_env = mem_env (\<lambda>e. if e = demo_event then Some ''doc'' else None)
     (\<lambda>b. if b = ''doc'' then Some demo_event else None) n_Reason (\<lambda>b. b)"

definition demo_options :: durable_options where
  "demo_options = DefaultDurableOptions ''q.db''"

text \<open>An operation at second \<open>n\<close> of the demonstration, with no failure.\<close>

definition demo_in :: "int \<Rightarrow> op_in" where
  "demo_in n = \<lparr>i_ctx = None, i_pick = False, i_now = n * Second, i_begin = None,
     i_commit = None, i_rand = Some (replicate 16 CHR ''t'')\<rparr>"

definition demo_token :: string where
  "demo_token = hex_encode (replicate 16 CHR ''t'')"

definition demo_ack :: ack_request where
  "demo_ack = \<lparr>a_EventID = ''e1'', a_Token = demo_token\<rparr>"

definition demo_nack :: "bool \<Rightarrow> nack_request" where
  "demo_nack permanent = \<lparr>n_EventID = ''e1'', n_Token = demo_token, n_Permanent = permanent,
     n_DelayMillis = 0, n_Reason = ''sink''\<rparr>"

text \<open>The broker with at most one record, which is in the index \<open>ix\<close> of its state.\<close>

definition demo_broker :: "disk_record option \<Rightarrow> durable_stats \<Rightarrow> u64 \<Rightarrow> bool \<Rightarrow> mem_db broker" where
  "demo_broker ro s n signalled =
     \<lparr>b_db = \<lparr>mb_buckets = (\<lambda>b.
          if b = Metadata then [(''version'', DocBytes ''1''), (''stats'', DocStats s)]
          else case ro of None \<Rightarrow> []
            | Some r \<Rightarrow> if b = Records then [(''e1'', DocRecord r)]
                else if idx (r_State r) = Some b then [(rkey r, DocBytes ''e1'')] else []),
        mb_seqs = (\<lambda>b. if b = Records then n else 0)\<rparr>,
      b_opts = demo_options, b_stopped = False, b_notify = signalled, b_closed = False,
      b_cleanupFailures = 0\<rparr>"

definition demo_open :: "mem_db broker" where
  "demo_open = demo_broker None zero_stats 0 False"

definition demo_new :: disk_record where
  "demo_new = new_record ''doc'' ''doc'' 1 Second"

definition demo_published :: "mem_db broker" where
  "demo_published = demo_broker (Some demo_new)
     (zero_stats\<lparr>s_Ready := 1, s_Accepted := 1, s_LogicalBytes := 4099\<rparr>) 1 True"

definition demo_lease :: disk_record where
  "demo_lease = leased_record demo_options demo_token (2 * Second) demo_new"

definition demo_leased :: "mem_db broker" where
  "demo_leased = demo_broker (Some demo_lease)
     (zero_stats\<lparr>s_Leased := 1, s_Accepted := 1, s_Deliveries := 1, s_LogicalBytes := 4099\<rparr>) 1 True"

definition demo_delivery :: delivery where
  "demo_delivery = \<lparr>d_Event = demo_event, d_Token = demo_token,
     d_ExpiresAt = unix_time (32 * Second), d_Attempt = 1\<rparr>"

definition demo_acked :: "mem_db broker" where
  "demo_acked = demo_broker (Some (completed_record demo_options (3 * Second) demo_lease))
     (zero_stats\<lparr>s_Completed := 1, s_Accepted := 1, s_Deliveries := 1, s_Acked := 1,
        s_LogicalBytes := 1024\<rparr>) 1 True"

section \<open>The run\<close>

lemma demo_opened: "OpenDurable demo_env demo_options None (Inr empty_mem) None = Inr demo_open"
  by code_simp

lemma demo_publish:
  "PublishContext demo_env demo_open (demo_in 1) demo_event = (Inr False, demo_published)"
  by code_simp

lemma demo_try:
  "tryLease demo_env demo_published (demo_in 2) = (Inr (Some demo_delivery), demo_leased)"
  by code_simp

lemma demo_done: "Ack demo_env demo_leased (demo_in 3) demo_ack = (Inr False, demo_acked)"
  by code_simp

lemma demo_bolt_db: "bolt_db demo_env"
  unfolding demo_env_def by (rule mem_env_bolt_db)

lemma demo_clock: "0 \<le> n \<Longrightarrow> n < 1000000 \<Longrightarrow> clock_ok (i_now (demo_in n))"
  by (simp add: demo_in_def clock_ok_def unit_defs)

lemma demo_empty: "empty_db demo_env empty_mem"
  by (simp add: empty_db_def demo_env_def mem_env_def empty_mem_def)

lemma demo_seq_left: "seq_left demo_env (b_db demo_open)" "seq_left demo_env (b_db demo_leased)"
  "seq_left demo_env (b_db demo_acked)"
  by (simp_all add: seq_left_def demo_env_def mem_env_def demo_open_def demo_leased_def
      demo_acked_def demo_broker_def)

lemma demo_step_publish:
  "broker_step demo_env demo_options demo_open (LPublish demo_event (Inr False)) demo_published"
  by (rule broker_step.publish [OF demo_clock demo_seq_left(1) demo_publish]) simp_all

lemma demo_step_lease:
  "broker_step demo_env demo_options demo_published (LLease (Inr (Some demo_delivery))) demo_leased"
  by (rule broker_step.lease [OF demo_clock demo_try]) simp_all

lemma demo_step_ack:
  "broker_step demo_env demo_options demo_leased (LAck demo_ack (i_now (demo_in 3)) (Inr False)) demo_acked"
  by (rule broker_step.ack [OF demo_clock demo_done]) simp_all

lemma demo_reachable:
  "reachable demo_env demo_options demo_open"
  "reachable demo_env demo_options demo_published"
  "reachable demo_env demo_options demo_leased"
  "reachable demo_env demo_options demo_acked"
proof -
  show 1: "reachable demo_env demo_options demo_open"
    by (rule reachable.opened [OF demo_empty demo_opened])
  show 2: "reachable demo_env demo_options demo_published"
    by (rule reachable.stepped [OF 1 demo_step_publish])
  show 3: "reachable demo_env demo_options demo_leased"
    by (rule reachable.stepped [OF 2 demo_step_lease])
  show "reachable demo_env demo_options demo_acked"
    by (rule reachable.stepped [OF 3 demo_step_ack])
qed

lemma demo_recs:
  "recs demo_env (b_db demo_published) ''e1'' = Some demo_new"
  "recs demo_env (b_db demo_leased) ''e1'' = Some demo_lease"
  "recs demo_env (b_db demo_acked) ''e1'' = Some (completed_record demo_options (3 * Second) demo_lease)"
  by (simp_all add: recs_def demo_env_def mem_env_def demo_published_def demo_leased_def
      demo_acked_def demo_broker_def)

lemma demo_fields:
  "r_State demo_new = StReady" "r_Event demo_new = ''doc''"
  "r_State demo_lease = StLeased" "r_Token demo_lease = demo_token" "r_Due demo_lease = 32 * Second"
  "r_Event demo_lease = ''doc''"
  by (simp_all add: demo_new_def demo_lease_def new_record_def leased_record_def demo_options_def
      DefaultDurableOptions_def unit_defs wrap64_id int64_range_def)

lemma demo_reliable: "reliable demo_env"
  unfolding demo_env_def by (rule mem_env_reliable)

lemma demo_quiet:
  "quiet demo_open (demo_in n)" "quiet demo_published (demo_in n)" "quiet demo_leased (demo_in n)"
  "quiet demo_acked (demo_in n)"
  by (simp_all add: quiet_def demo_in_def demo_open_def demo_published_def demo_leased_def
      demo_acked_def demo_broker_def)

lemma demo_valid: "Event_Validate demo_event = Inr ()" "marshal demo_env demo_event = Some ''doc''"
  "unmarshal demo_env ''doc'' = Some demo_event" "e_EventID demo_event = ''e1''"
  "sha256 demo_env ''doc'' = ''doc''"
  "Options_Validate demo_options = Inr ()"
  by (code_simp, simp_all add: demo_env_def mem_env_select demo_event_def demo_options_def
      DefaultDurableOptions_def Options_Validate_def unit_defs)

lemma demo_receipt: "validateReceipt (a_EventID demo_ack) (a_Token demo_ack) = Inr ()"
  "validateReceipt (n_EventID (demo_nack b)) (n_Token (demo_nack b)) = Inr ()"
  "\<not> bad_nack (demo_nack b)"
  by (simp_all add: validateReceipt_def demo_ack_def demo_nack_def demo_token_def bad_nack_def unit_defs)

end
