(* ===== verification/Durable_Safety.thy ===== *)
theory Durable_Safety
  imports Durable_Example
begin

text \<open>
  The safety properties of the durable broker, over every reachable state: the invariant, the
  refinement of the specification, the legal phases of an event, the atomicity of failing
  operations, retention, exclusivity and the order of delivery.
\<close>

section \<open>The invariant\<close>

text \<open>
  C1: in every reachable state each index lists exactly the records of its state, under keys
  of due time and sequence number, no two records share a sequence number, and the counters
  and the logical size are exactly those of the stored records.
\<close>

theorem index_exact:
  assumes "bolt_db E" and "reachable E p d"
  shows "(idx st = Some b \<longrightarrow> (bget E (b_db d) b k = Some v \<longleftrightarrow>
            (\<exists>i r. v = DocBytes i \<and> recs E (b_db d) i = Some r \<and> r_State r = st
                 \<and> k = indexKey (r_Due r) (r_Sequence r))))
    \<and> (recs E (b_db d) i = Some r \<longrightarrow> recs E (b_db d) j = Some r' \<longrightarrow>
            r_Sequence r = r_Sequence r' \<longrightarrow> i = j)
    \<and> (\<exists>s. read_stats E (b_db d) = Inr s
         \<and> s_Ready s = int (card {i. \<exists>r. recs E (b_db d) i = Some r \<and> r_State r = StReady})
         \<and> s_Leased s = int (card {i. \<exists>r. recs E (b_db d) i = Some r \<and> r_State r = StLeased})
         \<and> s_Quarantined s = int (card {i. \<exists>r. recs E (b_db d) i = Some r \<and> r_State r = StQuarantined})
         \<and> s_Completed s = int (card {i. \<exists>r. recs E (b_db d) i = Some r \<and> r_State r = StCompleted})
         \<and> s_LogicalBytes s = (\<Sum>i \<in> dom (recs E (b_db d)). weight (the (recs E (b_db d) i))))"
proof -
  have good: "good_broker E p d" by (rule bolt_db.reachable_good [OF assms])
  obtain s where s: "read_stats E (b_db d) = Inr s" and "tx_inv E (b_db d, s)"
    and wf: "wf_db E (b_db d)" and ws: "wf_stats E (b_db d) s" and "limits p s" and "b_opts d = p"
    by (rule bolt_db.good_brokerE [OF assms(1) good])
  show ?thesis
    using wf_index [OF wf, of st b k v] wf_seq [OF wf, of i r j r'] s ws
    by (simp add: rkey_def wf_stats_def in_state_def total_weight_def)
qed

theorem index_exact_witness:
  "\<exists>s. read_stats demo_env (b_db demo_leased) = Inr s
     \<and> s_Leased s = int (card {i. \<exists>r. recs demo_env (b_db demo_leased) i = Some r \<and> r_State r = StLeased})"
  using index_exact [OF demo_bolt_db demo_reachable(3), of StReady Ready "[]" "DocBytes []"] by blast

text \<open>
  C2: no reachable state exceeds a configured limit: the active records, all records, the
  quarantined records and the logical bytes stay within their options.
\<close>

theorem limits_hold:
  assumes "bolt_db E" and "reachable E p d"
  shows "int (card (active (recs E (b_db d)))) \<le> o_Capacity p
    \<and> int (card (dom (recs E (b_db d)))) \<le> o_DedupCapacity p
    \<and> int (card {i. \<exists>r. recs E (b_db d) i = Some r \<and> r_State r = StQuarantined}) \<le> o_QuarantineCapacity p
    \<and> total_weight (recs E (b_db d)) \<le> o_MaxLogicalBytes p"
proof -
  have good: "good_broker E p d" by (rule bolt_db.reachable_good [OF assms])
  obtain s where s: "read_stats E (b_db d) = Inr s" and "tx_inv E (b_db d, s)"
    and wf: "wf_db E (b_db d)" and ws: "wf_stats E (b_db d) s" and "limits p s" and "b_opts d = p"
    by (rule bolt_db.good_brokerE [OF assms(1) good])
  then show ?thesis
    using bolt_db.stats_cards [OF assms(1) wf ws]
    by (simp add: limits_def wf_stats_def in_state_def)
qed

theorem limits_hold_witness: "int (card (active (recs demo_env (b_db demo_leased)))) \<le> 1000"
  using limits_hold [OF demo_bolt_db demo_reachable(3)]
  by (simp add: demo_options_def DefaultDurableOptions_def)

section \<open>Refinement\<close>

text \<open>
  C3: every step of the broker from a reachable state (transactions, index upkeep, counters,
  failing commits, shutdown and restart included) is one step of the specification on the
  bare map from identities to records.
\<close>

theorem broker_refines_spec:
  assumes "bolt_db E" and "reachable E p d" and "broker_step E p d l d'"
  shows "spec_step E p (recs E (b_db d)) l (recs E (b_db d'))"
  using bolt_db.step_refines [OF assms(1,3) bolt_db.reachable_good [OF assms(1,2)]] by blast

theorem broker_refines_spec_witness:
  "spec_step demo_env demo_options (recs demo_env (b_db demo_published))
     (LLease (Inr (Some demo_delivery))) (recs demo_env (b_db demo_leased))"
  by (rule broker_refines_spec [OF demo_bolt_db demo_reachable(2) demo_step_lease])

text \<open>
  C4: an event moves only along the arrows absent to waiting, waiting to leased, leased to
  waiting, leased anew, completed or quarantined, and completed to absent or (accepted anew)
  waiting; a quarantined event never moves.
\<close>

theorem phases_legal:
  assumes "bolt_db E" and "reachable E p d" and "broker_step E p d l d'"
  shows "phase_step (phase_of (recs E (b_db d) i)) (phase_of (recs E (b_db d') i))
    \<and> (phase_of (recs E (b_db d) i) = Parked \<longrightarrow> phase_of (recs E (b_db d') i) = Parked)"
proof -
  have "phase_step (phase_of (recs E (b_db d) i)) (phase_of (recs E (b_db d') i))"
    using bolt_db.step_refines [OF assms(1,3) bolt_db.reachable_good [OF assms(1,2)]]
    by (blast intro: spec_step_phase)
  then show ?thesis by (auto elim: phase_step.cases)
qed

theorem phases_legal_witness:
  "phase_step (phase_of (recs demo_env (b_db demo_published) ''e1''))
     (phase_of (recs demo_env (b_db demo_leased) ''e1''))"
  by (rule conjunct1 [OF phases_legal [OF demo_bolt_db demo_reachable(2) demo_step_lease]])

section \<open>Retention\<close>

text \<open>
  C5: no accepted event is lost. A step keeps a record that is not completed, with its
  identity, payload and hash, unless it is an ACK of this event with the token of its
  unexpired lease, which is the only way to complete it.
\<close>

theorem no_event_lost:
  assumes "bolt_db E" and "reachable E p d" and "broker_step E p d l d'"
    and "recs E (b_db d) i = Some r" and "r_State r \<noteq> StCompleted"
  shows "(\<exists>r'. recs E (b_db d') i = Some r' \<and> r_State r' \<noteq> StCompleted
              \<and> r_Event r' = r_Event r \<and> r_Hash r' = r_Hash r \<and> r_Sequence r' = r_Sequence r)
    \<or> (\<exists>a now. l = LAck a now (Inr False) \<and> a_EventID a = i \<and> r_State r = StLeased
              \<and> a_Token a = r_Token r \<and> now < r_Due r
              \<and> recs E (b_db d') i = Some (completed_record p now r))"
proof -
  have "spec_step E p (recs E (b_db d)) l (recs E (b_db d'))"
    using bolt_db.step_refines [OF assms(1,3) bolt_db.reachable_good [OF assms(1,2)]] by blast
  then show ?thesis by (rule spec_step_keeps) (fact assms(4,5))+
qed

theorem no_event_lost_witness:
  "\<exists>a now. LAck demo_ack (i_now (demo_in 3)) (Inr False) = LAck a now (Inr False)
     \<and> recs demo_env (b_db demo_acked) ''e1'' = Some (completed_record demo_options now demo_lease)"
  using no_event_lost [OF demo_bolt_db demo_reachable(3) demo_step_ack demo_recs(2)]
  by (simp add: demo_fields demo_recs completed_record_def)

text \<open>
  C6: a lease is exclusive until it expires. While the lease of an event is unexpired at the
  clock of an operation, no lease call delivers this event and no lease call, cleanup or
  publish changes its record, so its token stays valid.
\<close>

theorem lease_exclusive:
  assumes "bolt_db E" and "reachable E p d" and "recs E (b_db d) j = Some r"
    and "r_State r = StLeased" and "i_now i < r_Due r" and "clock_ok (i_now i)" and "seq_left E (b_db d)"
  shows "recs E (b_db (snd (tryLease E d i))) j = Some r
    \<and> recs E (b_db (snd (Cleanup E d k i))) j = Some r
    \<and> recs E (b_db (snd (PublishContext E d i e))) j = Some r"
proof -
  note good = bolt_db.reachable_good [OF assms(1,2)]
  show ?thesis
    using bolt_db.tryLease_keeps_lease [OF assms(1) good assms(6,3-5)]
      bolt_db.Cleanup_keeps_lease [OF assms(1) good assms(6,3-5)]
      bolt_db.Publish_keeps_lease [OF assms(1) good assms(6,7,3-5)]
    by blast
qed

theorem lease_exclusive_witness:
  "recs demo_env (b_db (snd (tryLease demo_env demo_leased (demo_in 5)))) ''e1'' = Some demo_lease"
proof -
  have "recs demo_env (b_db (snd (tryLease demo_env demo_leased (demo_in 5)))) ''e1'' = Some demo_lease
    \<and> recs demo_env (b_db (snd (Cleanup demo_env demo_leased (demo_in 5) (demo_in 5)))) ''e1'' = Some demo_lease
    \<and> recs demo_env (b_db (snd (PublishContext demo_env demo_leased (demo_in 5) demo_event))) ''e1'' = Some demo_lease"
    by (rule lease_exclusive [OF demo_bolt_db demo_reachable(3) demo_recs(2) demo_fields(3)])
       (simp_all add: demo_fields demo_clock demo_seq_left, simp add: demo_in_def unit_defs)
  then show ?thesis by blast
qed

section \<open>Delivery\<close>

text \<open>
  C7: deliveries are ordered. The record a lease call delivers is due and has the least due
  time among the ready records (those it requeued from expired leases included), and the
  least sequence number among those of the same due time.
\<close>

theorem delivery_order:
  assumes "bolt_db E" and "reachable E p d" and "clock_ok (i_now i)"
    and "tryLease E d i = (Inr (Some dl), d')"
  shows "\<exists>X j r. X \<subseteq> due_set (recs E (b_db d)) StLeased (i_now i)
    \<and> expire_in (i_now i) X (recs E (b_db d)) j = Some r \<and> r_State r = StReady \<and> r_Due r \<le> i_now i
    \<and> recs E (b_db d') j = Some (leased_record p (d_Token dl) (i_now i) r)
    \<and> (\<forall>l r'. expire_in (i_now i) X (recs E (b_db d)) l = Some r' \<longrightarrow> r_State r' = StReady \<longrightarrow>
         r_Due r < r_Due r' \<or> r_Due r = r_Due r' \<and> r_Sequence r \<le> r_Sequence r')"
  by (rule bolt_db.tryLease_order [OF assms(1) bolt_db.reachable_good [OF assms(1,2)] assms(3,4)])

theorem delivery_order_witness:
  "\<exists>j r. recs demo_env (b_db demo_leased) j
     = Some (leased_record demo_options demo_token (i_now (demo_in 2)) r) \<and> r_State r = StReady"
  using delivery_order [OF demo_bolt_db demo_reachable(2) demo_clock demo_try]
  by (auto simp: demo_delivery_def)

text \<open>
  C8: what is delivered is what was accepted. A delivery names a record that is now leased
  under exactly the token, deadline and attempt number it carries, and whose payload is the
  encoding of a valid event with the record's identity: when the encoding of that event
  decodes to it, the delivery carries that event.
\<close>

theorem delivery_faithful:
  assumes "bolt_db E" and "reachable E p d" and "clock_ok (i_now i)"
    and "tryLease E d i = (Inr (Some dl), d')"
  shows "\<exists>e r. Event_Validate e = Inr () \<and> marshal E e = Some (r_Event r)
    \<and> recs E (b_db d') (e_EventID e) = Some r \<and> r_State r = StLeased
    \<and> r_Token r = d_Token dl \<and> unix_time (r_Due r) = d_ExpiresAt dl \<and> i_now i < r_Due r
    \<and> r_Attempt r = d_Attempt dl \<and> r_Hash r = sha256 E (r_Event r)
    \<and> unmarshal E (r_Event r) = Some (d_Event dl)
    \<and> (unmarshal E (r_Event r) = Some e \<longrightarrow> d_Event dl = e)"
  by (rule bolt_db.tryLease_faithful [OF assms(1) bolt_db.reachable_good [OF assms(1,2)] assms(3,4)])

theorem delivery_faithful_witness:
  "\<exists>(e :: event) r. recs demo_env (b_db demo_leased) (e_EventID e) = Some r
     \<and> r_Token r = d_Token demo_delivery \<and> unmarshal demo_env (r_Event r) = Some (d_Event demo_delivery)"
proof -
  have "clock_ok (i_now (demo_in 2))" by (rule demo_clock) simp_all
  from delivery_faithful [OF demo_bolt_db demo_reachable(2) this demo_try]
  show ?thesis by blast
qed

end
