(* ===== verification/Durable_Outcomes.thy ===== *)
theory Durable_Outcomes
  imports Durable_Safety
begin

text \<open>
  What callers of the durable broker get: the exact outcome of every operation when nothing
  outside fails, the round trip from publish to ACK, idempotence of receipts, the
  deduplication window, progress of cleanup, restart and the waiting loop of \<open>Lease\<close>.
\<close>

section \<open>Exact outcomes\<close>

text \<open>
  C9: without outside failures a well-formed ACK succeeds exactly when its token is that of
  an unexpired lease, or of a completion still retained (then it reports a duplicate); every
  other ACK is refused as stale. No limit of the broker can make it fail.
\<close>

theorem ack_result:
  assumes "bolt_db E" and "reliable E" and "reachable E p d" and "quiet d i"
    and "validateReceipt (a_EventID a) (a_Token a) = Inr ()"
  shows "fst (Ack E d i a) = (case recs E (b_db d) (a_EventID a) of
      None \<Rightarrow> Inl ErrStaleLease
    | Some r \<Rightarrow> if r_Token r \<noteq> a_Token a \<or> r_Due r \<le> i_now i then Inl ErrStaleLease
        else if r_State r = StCompleted then Inr True
        else if r_State r = StLeased then Inr False
        else Inl ErrStaleLease)"
  using bolt_db.Ack_outcome [OF assms(1,2) bolt_db.reachable_good [OF assms(1,3)] assms(4,5)]
  unfolding ack_outcome_def .

theorem ack_result_witness: "fst (Ack demo_env demo_leased (demo_in 40) demo_ack) = Inl ErrStaleLease"
  by (subst ack_result [OF demo_bolt_db demo_reliable demo_reachable(3) demo_quiet(3) demo_receipt(1)])
     (simp add: demo_ack_def demo_recs demo_fields demo_in_def unit_defs)

text \<open>
  C10: without outside failures a well-formed NACK of an unexpired lease succeeds, except that
  a permanent one needs room in quarantine; repeating the last NACK of an event that waits or
  is quarantined is a duplicate, a different request under its token a conflict, and any
  other NACK is stale.
\<close>

theorem nack_result:
  assumes "bolt_db E" and "reliable E" and "reachable E p d" and "quiet d i"
    and "validateReceipt (n_EventID n) (n_Token n) = Inr ()" and "\<not> bad_nack n"
  shows "fst (Nack E d i n) = (case recs E (b_db d) (n_EventID n) of
      None \<Rightarrow> Inl ErrStaleLease
    | Some r \<Rightarrow>
        if r_State r \<in> {StReady, StQuarantined} \<and> r_LastNackToken r = n_Token n
        then (if r_LastNackHash r = sha256 E (marshal_nack E n) then Inr True else Inl ErrConflict)
        else if r_State r = StLeased \<and> r_Token r = n_Token n \<and> i_now i < r_Due r
        then (if n_Permanent n \<and> o_QuarantineCapacity p \<le>
                int (card {j. \<exists>r. recs E (b_db d) j = Some r \<and> r_State r = StQuarantined})
              then Inl ErrFull else Inr False)
        else Inl ErrStaleLease)"
  using bolt_db.Nack_outcome [OF assms(1,2) bolt_db.reachable_good [OF assms(1,3)] assms(4-6)]
  unfolding nack_outcome_def .

theorem nack_result_witness: "fst (Nack demo_env demo_leased (demo_in 3) (demo_nack False)) = Inr False"
  by (subst nack_result [OF demo_bolt_db demo_reliable demo_reachable(3) demo_quiet(3) demo_receipt(2,3)])
     (simp add: demo_nack_def demo_recs demo_fields demo_in_def unit_defs)

text \<open>
  C11: without outside failures a valid event of admissible size is, while its identity is
  retained, a duplicate when its encoding has the stored hash and a conflict otherwise;
  a new identity is accepted unless the limits on active records, bytes or identities are
  reached after at most one batch of expired completions has been removed.
\<close>

theorem publish_result:
  assumes "bolt_db E" and "reliable E" and "reachable E p d" and "quiet d i"
    and "Event_Validate e = Inr ()" and "marshal E e = Some data"
    and "int (length data) \<le> o_MaxPayloadBytes p"
  shows "\<exists>X. X \<subseteq> due_set (recs E (b_db d)) StCompleted (i_now i)
    \<and> card X = min (nat (o_CleanupBatch p)) (card (due_set (recs E (b_db d)) StCompleted (i_now i)))
    \<and> fst (PublishContext E d i e) =
      (if retained (recs E (b_db d)) (i_now i) (e_EventID e)
       then (if map_option r_Hash (recs E (b_db d) (e_EventID e)) = Some (sha256 E data)
             then Inr True else Inl ErrConflict)
       else admit_outcome p ((forget_in X (recs E (b_db d)))(e_EventID e := None)) data)"
  by (rule bolt_db.Publish_outcome [OF assms(1,2) bolt_db.reachable_good [OF assms(1,3)] assms(4-7)])
     blast

theorem publish_result_witness:
  "fst (PublishContext demo_env demo_leased (demo_in 3) demo_event) = Inr True"
proof -
  have "int (length ''doc'') \<le> o_MaxPayloadBytes demo_options"
    by (simp add: demo_options_def DefaultDurableOptions_def unit_defs)
  from publish_result [OF demo_bolt_db demo_reliable demo_reachable(3) demo_quiet(3) demo_valid(1,2) this]
  show ?thesis
    by (auto simp: retained_def demo_valid demo_recs demo_fields demo_lease_def demo_new_def
        leased_record_def new_record_def)
qed

text \<open>
  C12: without outside failures, and when the stored payloads decode, a lease call delivers
  something whenever any event is due (ready, or under an expired lease), and otherwise
  reports that there is nothing.
\<close>

theorem lease_result:
  assumes "bolt_db E" and "reliable E" and "reachable E p d" and "quiet d i"
    and "clock_ok (i_now i)" and "i_rand i = Some b"
    and "\<forall>j r. recs E (b_db d) j = Some r \<longrightarrow> r_State r \<noteq> StCompleted \<longrightarrow>
      unmarshal E (r_Event r) \<noteq> None"
  shows "if \<exists>j r. recs E (b_db d) j = Some r \<and> r_State r \<in> {StReady, StLeased} \<and> r_Due r \<le> i_now i
         then \<exists>dl. fst (tryLease E d i) = Inr (Some dl)
         else fst (tryLease E d i) = Inr None"
proof -
  have "(due_set (recs E (b_db d)) StReady (i_now i) = {} \<and> due_set (recs E (b_db d)) StLeased (i_now i) = {})
      \<longleftrightarrow> \<not> (\<exists>j r. recs E (b_db d) j = Some r \<and> r_State r \<in> {StReady, StLeased} \<and> r_Due r \<le> i_now i)"
    by (auto simp: due_set_def)
  with bolt_db.tryLease_outcome [OF assms(1,2) bolt_db.reachable_good [OF assms(1,3)] assms(4-7)]
  show ?thesis by (simp split: if_splits)
qed

lemma demo_recs_only: "recs demo_env (b_db demo_leased) j = Some r \<Longrightarrow> j = ''e1'' \<and> r = demo_lease"
  by (auto simp: recs_def demo_env_def mem_env_def demo_leased_def demo_broker_def split: if_splits)

theorem lease_result_witness: "\<exists>dl. fst (tryLease demo_env demo_leased (demo_in 40)) = Inr (Some dl)"
proof -
  have "clock_ok (i_now (demo_in 40))" by (rule demo_clock) simp_all
  moreover have "i_rand (demo_in 40) = Some (replicate 16 CHR ''t'')" by (simp add: demo_in_def)
  moreover have "\<forall>j r. recs demo_env (b_db demo_leased) j = Some r \<longrightarrow> r_State r \<noteq> StCompleted \<longrightarrow>
      unmarshal demo_env (r_Event r) \<noteq> None"
    by (auto dest!: demo_recs_only simp: demo_fields demo_valid)
  moreover have "\<exists>j r. recs demo_env (b_db demo_leased) j = Some r \<and> r_State r \<in> {StReady, StLeased}
      \<and> r_Due r \<le> i_now (demo_in 40)"
    by (intro exI [of _ "''e1''"] exI [of _ demo_lease])
       (simp add: demo_recs demo_fields demo_in_def unit_defs)
  ultimately show ?thesis
    using lease_result [OF demo_bolt_db demo_reliable demo_reachable(3) demo_quiet(3)] by simp
qed

section \<open>Round trips\<close>

text \<open>
  C13: a delivery can be completed. When the stored payloads decode to the events they encode,
  an ACK of a delivery before its deadline succeeds whatever happened to the limits, the same
  ACK is a duplicate as long as the completion is retained, and it completes the event.
\<close>

theorem lease_then_ack:
  assumes "bolt_db E" and "reliable E" and "reachable E p d" and "clock_ok (i_now i)"
    and "tryLease E d i = (Inr (Some dl), d1)" and "i_rand i = Some rnd" and "length rnd = 16"
    and "\<forall>e r. recs E (b_db d1) (e_EventID e) = Some r \<longrightarrow> marshal E e = Some (r_Event r) \<longrightarrow>
           unmarshal E (r_Event r) = Some e"
    and "quiet d1 j" and "clock_ok (i_now j)" and "i_now j < t_ns (d_ExpiresAt dl)"
    and "quiet (snd (Ack E d1 j \<lparr>a_EventID = e_EventID (d_Event dl), a_Token = d_Token dl\<rparr>)) k"
    and "i_now k < i_now j + o_CompletionTTL p"
  shows "fst (Ack E d1 j \<lparr>a_EventID = e_EventID (d_Event dl), a_Token = d_Token dl\<rparr>) = Inr False
    \<and> fst (Ack E (snd (Ack E d1 j \<lparr>a_EventID = e_EventID (d_Event dl), a_Token = d_Token dl\<rparr>)) k
         \<lparr>a_EventID = e_EventID (d_Event dl), a_Token = d_Token dl\<rparr>) = Inr True"
proof -
  let ?a = "\<lparr>a_EventID = e_EventID (d_Event dl), a_Token = d_Token dl\<rparr>"
  note good = bolt_db.reachable_good [OF assms(1,3)]
  obtain e r where e: "Event_Validate e = Inr ()" "marshal E e = Some (r_Event r)"
    "recs E (b_db d1) (e_EventID e) = Some r" "r_State r = StLeased" "r_Token r = d_Token dl"
    "unix_time (r_Due r) = d_ExpiresAt dl"
    and del: "unmarshal E (r_Event r) = Some e \<longrightarrow> d_Event dl = e"
    using bolt_db.tryLease_faithful [OF assms(1) good assms(4,5)] by blast
  have same: "d_Event dl = e" using assms(8) e(2,3) del by blast
  have "length (d_Token dl) = 32"
    using bolt_db.tryLease_token [OF assms(1) good assms(4,5,6)] assms(7) by simp
  then have receipt: "validateReceipt (a_EventID ?a) (a_Token ?a) = Inr ()"
    using Event_Validate_ok_id [OF e(1)] same by (simp add: validateReceipt_def)
  have due: "i_now j < r_Due r" using assms(11) unfolding e(6) [symmetric] by (simp add: unix_time_def)
  have good1: "good_broker E p d1"
    using bolt_db.tryLease_refines [OF assms(1) good assms(4,5)] by blast
  have 1: "fst (Ack E d1 j ?a) = Inr False"
    using bolt_db.Ack_outcome [OF assms(1,2) good1 assms(9) receipt] e(3-5) due same
    by (simp add: ack_outcome_def)
  then obtain d2 where run: "Ack E d1 j ?a = (Inr False, d2)" by (metis prod.collapse)
  have "fst (Ack E d2 k ?a) = Inr True"
    by (rule bolt_db.Ack_again [OF assms(1,2) good1 assms(10) run]) (use assms(12,13) run in simp_all)
  with 1 run show ?thesis by simp
qed

lemma demo_wire_clean:
  "\<forall>(e :: event) r. recs demo_env (b_db demo_leased) (e_EventID e) = Some r \<longrightarrow>
     marshal demo_env e = Some (r_Event r) \<longrightarrow> unmarshal demo_env (r_Event r) = Some e"
  by (auto simp: demo_env_def mem_env_select split: if_splits)

lemma demo_ack_eq: "\<lparr>a_EventID = e_EventID (d_Event demo_delivery), a_Token = d_Token demo_delivery\<rparr> = demo_ack"
  by (simp add: demo_ack_def demo_delivery_def demo_valid)

theorem lease_then_ack_witness:
  "fst (Ack demo_env demo_leased (demo_in 3) demo_ack) = Inr False
     \<and> fst (Ack demo_env demo_acked (demo_in 4) demo_ack) = Inr True"
proof -
  have clock: "clock_ok (i_now (demo_in 2))" "clock_ok (i_now (demo_in 3))" by (simp_all add: demo_clock)
  have "fst (Ack demo_env demo_leased (demo_in 3)
      \<lparr>a_EventID = e_EventID (d_Event demo_delivery), a_Token = d_Token demo_delivery\<rparr>) = Inr False
    \<and> fst (Ack demo_env (snd (Ack demo_env demo_leased (demo_in 3)
        \<lparr>a_EventID = e_EventID (d_Event demo_delivery), a_Token = d_Token demo_delivery\<rparr>)) (demo_in 4)
      \<lparr>a_EventID = e_EventID (d_Event demo_delivery), a_Token = d_Token demo_delivery\<rparr>) = Inr True"
    by (rule lease_then_ack [OF demo_bolt_db demo_reliable demo_reachable(2) clock(1) demo_try _ _
          demo_wire_clean demo_quiet(3) clock(2), where rnd = "replicate 16 CHR ''t''"])
       (simp_all add: demo_ack_eq demo_done demo_quiet,
        simp_all add: demo_in_def demo_delivery_def unix_time_def demo_options_def
          DefaultDurableOptions_def unit_defs)
  then show ?thesis by (simp add: demo_ack_eq demo_done)
qed

text \<open>
  C14: deduplication after completion. Once an event is acknowledged, publishing its identity
  again within the retention time is a duplicate when the encoding has the stored hash and a
  conflict otherwise, and it is not stored again.
\<close>

theorem dedup_window:
  assumes "bolt_db E" and "reliable E" and "reachable E p d" and "clock_ok (i_now i)"
    and "Ack E d i a = (Inr False, d1)" and "recs E (b_db d) (a_EventID a) = Some r"
    and "quiet d1 j" and "clock_ok (i_now j)" and "i_now j < i_now i + o_CompletionTTL p"
    and "Event_Validate e = Inr ()" and "e_EventID e = a_EventID a" and "marshal E e = Some data"
    and "int (length data) \<le> o_MaxPayloadBytes p" and "seq_left E (b_db d1)"
  shows "fst (PublishContext E d1 j e) = (if r_Hash r = sha256 E data then Inr True else Inl ErrConflict)
    \<and> recs E (b_db (snd (PublishContext E d1 j e))) (a_EventID a) = recs E (b_db d1) (a_EventID a)"
proof -
  note good = bolt_db.reachable_good [OF assms(1,3)]
  from bolt_db.Ack_completes [OF assms(1) good assms(4,5)] assms(6)
  have good1: "good_broker E p d1"
    and rec: "recs E (b_db d1) (a_EventID a) = Some (completed_record p (i_now i) r)"
    and due: "r_Due (completed_record p (i_now i) r) = i_now i + o_CompletionTTL p"
    by auto
  have ret: "retained (recs E (b_db d1)) (i_now j) (e_EventID e)"
    using rec due assms(9,11) by (simp add: retained_def)
  have hash: "r_Hash (completed_record p (i_now i) r) = r_Hash r" by (simp add: completed_record_def)
  from bolt_db.Publish_outcome [OF assms(1,2) good1 assms(7,10,12,13)]
  have res: "fst (PublishContext E d1 j e) = (if r_Hash r = sha256 E data then Inr True else Inl ErrConflict)"
    using ret rec hash assms(11) by (metis option.inject option.map(2))
  show ?thesis
  proof (cases "r_Hash r = sha256 E data")
    case True
    with res obtain d2 where run: "PublishContext E d1 j e = (Inr True, d2)" by (metis prod.collapse)
    have "spec_step E p (recs E (b_db d1)) (LPublish e (Inr True)) (recs E (b_db d2))"
      using bolt_db.Publish_refines [OF assms(1) good1 assms(8,14) run] by blast
    then have "recs E (b_db d2) (e_EventID e) = recs E (b_db d1) (e_EventID e)"
      by cases (auto dest: forget_in_retained)
    with res run assms(11) show ?thesis by simp
  next
    case False
    with res have "fst (PublishContext E d1 j e) = Inl ErrConflict" by simp
    then have "snd (PublishContext E d1 j e) = d1" by (metis Publish_err prod.collapse)
    with res show ?thesis by simp
  qed
qed

theorem dedup_window_witness:
  "fst (PublishContext demo_env demo_acked (demo_in 4) demo_event) = Inr True"
proof -
  have clock: "clock_ok (i_now (demo_in 3))" "clock_ok (i_now (demo_in 4))" by (simp_all add: demo_clock)
  have rec: "recs demo_env (b_db demo_leased) (a_EventID demo_ack) = Some demo_lease"
    by (simp add: demo_ack_def demo_recs)
  have soon: "i_now (demo_in 4) < i_now (demo_in 3) + o_CompletionTTL demo_options"
    and size: "int (length ''doc'') \<le> o_MaxPayloadBytes demo_options"
    by (simp_all add: demo_in_def demo_options_def DefaultDurableOptions_def unit_defs)
  have eid: "e_EventID demo_event = a_EventID demo_ack" by (simp add: demo_valid demo_ack_def)
  from dedup_window [OF demo_bolt_db demo_reliable demo_reachable(3) clock(1) demo_done rec
      demo_quiet(4) clock(2) soon demo_valid(1) eid demo_valid(2) size demo_seq_left(3)]
  show ?thesis
    by (simp add: demo_valid demo_lease_def demo_new_def leased_record_def new_record_def)
qed

text \<open>
  NACK is idempotent. After a NACK was accepted, the same request is a duplicate at any
  later time until the event is leased again, and a different request under the same token
  is a conflict.
\<close>

lemma nack_again:
  assumes "bolt_db E" and "reliable E" and "reachable E p d" and "clock_ok (i_now i)"
    and "Nack E d i n = (Inr False, d1)" and "quiet d1 j"
    and "n_EventID n' = n_EventID n" and "n_Token n' = n_Token n" and "\<not> bad_nack n'"
  shows "fst (Nack E d1 j n') =
    (if sha256 E (marshal_nack E n') = sha256 E (marshal_nack E n) then Inr True else Inl ErrConflict)"
proof -
  note good = bolt_db.reachable_good [OF assms(1,3)]
  from bolt_db.Nack_refines [OF assms(1) good assms(4,5)]
  have good1: "good_broker E p d1"
    and "spec_step E p (recs E (b_db d)) (LNack n (i_now i) (Inr False)) (recs E (b_db d1))" by blast+
  from this(2) obtain r where
    rec: "recs E (b_db d1) (n_EventID n) = Some (nacked_record n (sha256 E (marshal_nack E n)) (i_now i) r)"
    by cases auto
  have "validateReceipt (n_EventID n) (n_Token n) = Inr ()"
    using assms(5) by (auto simp: Nack_def split: sum.splits)
  then have "validateReceipt (n_EventID n') (n_Token n') = Inr ()" by (simp add: assms(7,8))
  from bolt_db.Nack_outcome [OF assms(1,2) good1 assms(6) this assms(9)] rec
  show ?thesis by (auto simp: nack_outcome_def assms(7,8) nacked_record_def Let_def)
qed

section \<open>Cleanup\<close>

text \<open>
  C15: cleanup makes bounded progress. A successful cleanup either changed nothing, because no
  lease and no completion was due, or removed a full batch (or all) of the overdue leases and
  of the overdue completions; no other record changed its state.
\<close>

theorem cleanup_progress:
  assumes "bolt_db E" and "reachable E p d" and "clock_ok (i_now j)"
    and "Cleanup E d i j = (Inr (), d')"
  shows "d' = d \<and> due_set (recs E (b_db d)) StLeased (i_now i) = {}
           \<and> due_set (recs E (b_db d)) StCompleted (i_now i) = {}
    \<or> (card (due_set (recs E (b_db d')) StLeased (i_now j)) =
          card (due_set (recs E (b_db d)) StLeased (i_now j)) - nat (o_CleanupBatch p)
        \<and> card (due_set (recs E (b_db d')) StCompleted (i_now j)) =
          card (due_set (recs E (b_db d)) StCompleted (i_now j)) - nat (o_CleanupBatch p)
        \<and> (\<forall>x. x \<notin> due_set (recs E (b_db d)) StLeased (i_now j) \<longrightarrow>
              x \<notin> due_set (recs E (b_db d)) StCompleted (i_now j) \<longrightarrow>
              recs E (b_db d') x = recs E (b_db d) x))"
  by (rule bolt_db.Cleanup_progress [OF assms(1) bolt_db.reachable_good [OF assms(1,2)] assms(3,4)])

lemma demo_cleanup: "fst (Cleanup demo_env demo_leased (demo_in 40) (demo_in 40)) = Inr ()"
  by code_simp

theorem cleanup_progress_witness:
  "card (due_set (recs demo_env (b_db (snd (Cleanup demo_env demo_leased (demo_in 40) (demo_in 40)))))
     StLeased (i_now (demo_in 40))) = 0"
proof -
  let ?D = "due_set (recs demo_env (b_db demo_leased)) StLeased (i_now (demo_in 40))"
  have "x \<in> ?D \<longleftrightarrow> x = ''e1''" for x
  proof
    assume "x \<in> ?D"
    then obtain r where "recs demo_env (b_db demo_leased) x = Some r" by (auto simp: due_set_def)
    then show "x = ''e1''" by (blast dest: demo_recs_only)
  next
    assume "x = ''e1''"
    then show "x \<in> ?D" by (simp add: due_set_def demo_recs demo_fields demo_in_def unit_defs)
  qed
  then have D: "?D = {''e1''}" by blast
  have run: "Cleanup demo_env demo_leased (demo_in 40) (demo_in 40)
      = (Inr (), snd (Cleanup demo_env demo_leased (demo_in 40) (demo_in 40)))"
    using demo_cleanup by (metis prod.collapse)
  have "clock_ok (i_now (demo_in 40))" by (rule demo_clock) simp_all
  from cleanup_progress [OF demo_bolt_db demo_reachable(3) this run] show ?thesis
    unfolding D by (elim disjE) (simp_all add: demo_options_def DefaultDurableOptions_def)
qed

text \<open>
  The keys of the indexes sort by due time and then by sequence number: for instants of
  an \<open>int64\<close> clock from 1970 on, the byte-wise order of the keys is that order.
\<close>

lemma index_order:
  assumes "0 \<le> d" and "d < 2 ^ 63" and "0 \<le> d'" and "d' < 2 ^ 63"
  shows "indexKey d s < indexKey d' s' \<longleftrightarrow> d < d' \<or> (d = d' \<and> s < s')"
  using assms by (intro indexKey_less) (simp_all add: due_ok_def)

section \<open>Restart\<close>

text \<open>
  C16: a restart keeps every promise. Opening the committed database again, with the same
  options, succeeds when bbolt works and the broker then has the same records, counters and
  leases, so that tokens issued before stay valid, and its state is again reachable.
\<close>

theorem restart_keeps:
  assumes "bolt_db E" and "reachable E p d"
    and "OpenDurable E p None (Inr (b_db d)) None = Inr d'"
  shows "recs E (b_db d') = recs E (b_db d) \<and> read_stats E (b_db d') = read_stats E (b_db d)
    \<and> \<not> b_stopped d' \<and> reachable E p d'"
proof -
  note good = bolt_db.reachable_good [OF assms(1,2)]
  obtain s where s: "read_stats E (b_db d) = Inr s" using good by (auto simp: good_broker_def)
  then obtain v where some: "bget E (b_db d) Metadata ''stats'' = Some v"
    by (auto simp: read_stats_def split: option.splits)
  have step: "broker_step E p d LRestart d'" by (rule broker_step.restart [OF assms(3)])
  show ?thesis
  proof (rule bolt_db.OpenDurable_okE [OF assms(1,3)])
    assume "\<not> b_stopped d'" and "recs E (b_db d') = recs E (b_db d)"
      and "read_stats E (b_db d') = (if bget E (b_db d) Metadata ''stats'' = None then Inr zero_stats
                                     else read_stats E (b_db d))"
    with some reachable.stepped [OF assms(2) step] show ?thesis by simp
  qed
qed

lemma demo_reopen: "OpenDurable demo_env demo_options None (Inr (b_db demo_leased)) None
    = Inr (demo_leased\<lparr>b_notify := False\<rparr>)"
  by code_simp

theorem restart_keeps_witness:
  "reachable demo_env demo_options (demo_leased\<lparr>b_notify := False\<rparr>)"
  using restart_keeps [OF demo_bolt_db demo_reachable(3) demo_reopen] by blast

section \<open>The waiting lease\<close>

text \<open>
  A lease call ends. A wait outside 0 to 10 seconds is refused at once; a call with wait
  0 ends in its first round, and any other call at the latest when its context ends, the
  broker stops or its deadline passes. A delivery it returns is one that a \<open>tryLease\<close> of one of
  its rounds made.
\<close>

theorem lease_ends:
  "(wait < 0 \<or> MaxWait < wait \<longrightarrow> Lease E wait xs d = (Some (Inl (ErrInvalid Bad_wait)), d))
   \<and> (wait = 0 \<longrightarrow> fst (Lease E wait (x # xs) d) \<noteq> None)
   \<and> (x \<in> set xs \<longrightarrow> l_wake x = WDeadline \<or> l_wake x = WStopped \<or> l_wake x = WCtx e \<longrightarrow>
        fst (Lease E wait xs d) \<noteq> None)
   \<and> (Lease E wait xs d = (Some (Inr (Some dl)), d') \<longrightarrow>
        (\<exists>y d0. y \<in> set xs \<and> tryLease E d0 (l_try y) = (Inr (Some dl), d')))"
  using Lease_loop_ends [of x xs e E wait d] Lease_loop_delivers [of E wait xs d dl d']
    Lease_round_poll [of E x d]
  by (auto simp: Lease_def split: prod.splits option.splits)

theorem lease_ends_witness:
  "Lease demo_env (11 * Second) [] demo_open = (Some (Inl (ErrInvalid Bad_wait)), demo_open)"
  using lease_ends [of "11 * Second" demo_env "[]" demo_open undefined undefined undefined demo_open]
  by (simp add: unit_defs)

end
