(* ===== verification/Memory.thy ===== *)
theory Memory
  imports Queue_Types "HOL-Library.AList"
begin

text \<open>
  internal/queue/memory.go: the volatile queue, a fixed ring with a bounded set of remembered
  identities. The mutex makes every operation one step. \<open>mqueue\<close> is the queue the ring stands
  for; the lemmas show that the operations are those of a bounded FIFO queue with exact
  deduplication.
\<close>

section \<open>State\<close>

record tombstone =
  tb_id :: string
  tb_expires :: int

record seen_entry =
  se_hash :: bytes
  se_expires :: int

record mem_stats =
  ms_Depth :: int
  ms_Capacity :: int
  ms_DedupEntries :: int
  ms_Accepted :: u64
  ms_Duplicates :: u64
  ms_Received :: u64

text \<open>The Go map \<^verbatim>\<open>seen\<close> is an association list with distinct keys, so its length is \<^verbatim>\<open>len(q.seen)\<close>.\<close>

record memory =
  q_expired :: "tombstone list"
  q_ring :: "event list"
  q_head :: nat
  q_size :: nat
  q_dedupCapacity :: int
  q_seen :: "(string \<times> seen_entry) list"
  q_ttl :: int
  q_accepted :: u64
  q_duplicates :: u64
  q_received :: u64

datatype memory_error =
  Mem_invalid validation_error
| Mem_encoding
| Mem_too_large
| Mem_full
| Mem_dedup_full
| Mem_conflict

text \<open>Go's \<^verbatim>\<open>telemetry.Event{}\<close>, which fills the free slots.\<close>

definition zero_event :: event where
  "zero_event = \<lparr>e_SchemaVersion = 0, e_EventID = [], e_ProducerInstanceID = [], e_ReplayIndex = 0,
     e_RowIndex = 0, e_ProcessedAt = zero_time,
     e_Measurement = \<lparr>m_SourceTimestamp = zero_time, m_GPUUUID = [], m_MetricName = [],
       m_Value = Finite 0, m_LocalGPUID = [], m_Device = [], m_ModelName = [], m_Hostname = [],
       m_Container = [], m_Pod = [], m_Namespace = [], m_LabelsRaw = []\<rparr>\<rparr>"

section \<open>Operations\<close>

definition NewMemory :: "int \<Rightarrow> int \<Rightarrow> int \<Rightarrow> memory option" where
  "NewMemory capacity dedupCapacity ttl =
     (if capacity < 1 \<or> dedupCapacity < capacity \<or> ttl \<le> 0 then None
      else Some \<lparr>q_expired = [], q_ring = replicate (nat capacity) zero_event, q_head = 0, q_size = 0,
        q_dedupCapacity = dedupCapacity, q_seen = [], q_ttl = ttl, q_accepted = 0,
        q_duplicates = 0, q_received = 0\<rparr>)"

text \<open>The loop that forgets the expired identities at the front of the list.\<close>

fun forget_expired :: "int \<Rightarrow> tombstone list \<Rightarrow> (string \<times> seen_entry) list \<Rightarrow>
    tombstone list \<times> (string \<times> seen_entry) list" where
  "forget_expired now [] seen = ([], seen)"
| "forget_expired now (t # ts) seen =
     (if now < tb_expires t then (t # ts, seen)
      else forget_expired now ts (AList.delete (tb_id t) seen))"

definition Publish_locked :: "int \<Rightarrow> event \<Rightarrow> bytes \<Rightarrow> memory \<Rightarrow> (memory_error + bool) \<times> memory" where
  "Publish_locked now e hash q0 =
     (let (expired, seen) = forget_expired now (q_expired q0) (q_seen q0);
          q = q0\<lparr>q_expired := expired, q_seen := seen\<rparr> in
      case map_of (q_seen q) (e_EventID e) of
        Some entry \<Rightarrow>
          if se_hash entry \<noteq> hash then (Inl Mem_conflict, q)
          else (Inr True, q\<lparr>q_duplicates := q_duplicates q + 1\<rparr>)
      | None \<Rightarrow>
          if q_size q = length (q_ring q) then (Inl Mem_full, q)
          else if int (length (q_seen q)) = q_dedupCapacity q then (Inl Mem_dedup_full, q)
          else (Inr False, q\<lparr>
            q_ring := (q_ring q)[(q_head q + q_size q) mod length (q_ring q) := e],
            q_size := q_size q + 1,
            q_seen := AList.update (e_EventID e) \<lparr>se_hash = hash, se_expires = zero_ns\<rparr> (q_seen q),
            q_accepted := q_accepted q + 1\<rparr>))"

definition Mem_Publish :: "(event \<Rightarrow> bytes option) \<Rightarrow> (bytes \<Rightarrow> bytes) \<Rightarrow> int \<Rightarrow> event \<Rightarrow> memory \<Rightarrow>
    (memory_error + bool) \<times> memory" where
  "Mem_Publish enc sha now e q =
     (case Event_Validate e of
        Inl v \<Rightarrow> (Inl (Mem_invalid v), q)
      | Inr _ \<Rightarrow>
          (case enc e of
             None \<Rightarrow> (Inl Mem_encoding, q)
           | Some b \<Rightarrow>
               if int (length b) > MaxRequestBytes - 1024 then (Inl Mem_too_large, q)
               else Publish_locked now e (sha b) q))"

definition Mem_Receive :: "int \<Rightarrow> memory \<Rightarrow> event option \<times> memory" where
  "Mem_Receive now q =
     (if q_size q = 0 then (None, q)
      else
        let e = q_ring q ! q_head q;
            entry = (case map_of (q_seen q) (e_EventID e) of
                       Some x \<Rightarrow> x | None \<Rightarrow> \<lparr>se_hash = zero_hash, se_expires = zero_ns\<rparr>)
                    \<lparr>se_expires := now + q_ttl q\<rparr> in
        (Some e, q\<lparr>
           q_ring := (q_ring q)[q_head q := zero_event],
           q_head := (q_head q + 1) mod length (q_ring q),
           q_size := q_size q - 1,
           q_received := q_received q + 1,
           q_seen := AList.update (e_EventID e) entry (q_seen q),
           q_expired := q_expired q @ [\<lparr>tb_id = e_EventID e, tb_expires = se_expires entry\<rparr>]\<rparr>))"

definition Mem_Stats :: "memory \<Rightarrow> mem_stats" where
  "Mem_Stats q = \<lparr>ms_Depth = int (q_size q), ms_Capacity = int (length (q_ring q)),
     ms_DedupEntries = int (length (q_seen q)), ms_Accepted = q_accepted q,
     ms_Duplicates = q_duplicates q, ms_Received = q_received q\<rparr>"

section \<open>The queue the ring stands for\<close>

definition mqueue :: "memory \<Rightarrow> event list" where
  "mqueue q = map (\<lambda>i. q_ring q ! ((q_head q + i) mod length (q_ring q))) [0..<q_size q]"

definition mem_wf :: "memory \<Rightarrow> bool" where
  "mem_wf q \<longleftrightarrow> q_head q < length (q_ring q) \<and> q_size q \<le> length (q_ring q)
     \<and> int (length (q_ring q)) \<le> q_dedupCapacity q \<and> 0 < q_ttl q
     \<and> distinct (map fst (q_seen q))
     \<and> distinct (map e_EventID (mqueue q) @ map tb_id (q_expired q))
     \<and> set (map fst (q_seen q)) = set (map e_EventID (mqueue q) @ map tb_id (q_expired q))
     \<and> int (length (q_seen q)) \<le> q_dedupCapacity q
     \<and> q_accepted q = q_received q + of_nat (length (mqueue q))"

lemma length_mqueue [simp]: "length (mqueue q) = q_size q"
  by (simp add: mqueue_def)

lemma mqueue_cong:
  "q_ring q' = q_ring q \<Longrightarrow> q_head q' = q_head q \<Longrightarrow> q_size q' = q_size q \<Longrightarrow> mqueue q' = mqueue q"
  by (simp add: mqueue_def)

lemma mod_plus_inj:
  fixes h :: nat
  assumes "i < n" and "j < n" and "(h + i) mod n = (h + j) mod n"
  shows "i = j"
proof (cases i j rule: le_cases)
  case le
  then have "n dvd (h + j) - (h + i)" using assms(3) mod_eq_dvd_iff_nat [of "h + i" "h + j" n] by simp
  with assms(2) le show ?thesis by (auto dest: dvd_imp_le)
next
  case ge
  then have "n dvd (h + i) - (h + j)" using assms(3) mod_eq_dvd_iff_nat [of "h + j" "h + i" n] by simp
  with assms(1) ge show ?thesis by (auto dest: dvd_imp_le)
qed

text \<open>Writing the slot after the last one appends; moving the head drops the first element.\<close>

lemma mqueue_push:
  assumes "q_size q < length (q_ring q)"
    and "q_ring q' = (q_ring q)[(q_head q + q_size q) mod length (q_ring q) := e]"
    and "q_head q' = q_head q" and "q_size q' = Suc (q_size q)"
  shows "mqueue q' = mqueue q @ [e]"
proof (rule nth_equalityI)
  let ?n = "length (q_ring q)"
  show "length (mqueue q') = length (mqueue q @ [e])" using assms(4) by simp
  fix i assume "i < length (mqueue q')"
  then have i: "i \<le> q_size q" using assms(4) by simp
  have pos: "(q_head q + i) mod ?n < ?n" using assms(1) by (intro mod_less_divisor) linarith
  show "mqueue q' ! i = (mqueue q @ [e]) ! i"
  proof (cases "i = q_size q")
    case True
    with assms pos show ?thesis by (simp add: mqueue_def nth_append del: upt_Suc)
  next
    case False
    with i assms(1) mod_plus_inj [of i ?n "q_size q" "q_head q"]
    have "(q_head q + i) mod ?n \<noteq> (q_head q + q_size q) mod ?n" by auto
    with False i assms show ?thesis by (simp add: mqueue_def nth_append del: upt_Suc)
  qed
qed

lemma mqueue_pop:
  assumes "0 < q_size q" and "q_size q \<le> length (q_ring q)" and "q_head q < length (q_ring q)"
    and "q_ring q' = (q_ring q)[q_head q := z]"
    and "q_head q' = (q_head q + 1) mod length (q_ring q)" and "q_size q' = q_size q - 1"
  shows "mqueue q = (q_ring q ! q_head q) # mqueue q'"
proof (rule nth_equalityI)
  let ?n = "length (q_ring q)"
  show "length (mqueue q) = length ((q_ring q ! q_head q) # mqueue q')" using assms(1,6) by simp
  fix i assume "i < length (mqueue q)"
  then have i: "i < q_size q" by simp
  show "mqueue q ! i = ((q_ring q ! q_head q) # mqueue q') ! i"
  proof (cases i)
    case 0
    with i assms(3) show ?thesis by (simp add: mqueue_def)
  next
    case (Suc j)
    have "(q_head q + Suc j) mod ?n \<noteq> q_head q"
    proof
      assume "(q_head q + Suc j) mod ?n = q_head q"
      then have "(q_head q + Suc j) mod ?n = (q_head q + 0) mod ?n" using assms(3) by simp
      then have "Suc j = 0" by (rule mod_plus_inj [rotated 2]) (use Suc i assms(2,3) in linarith)+
      then show False by simp
    qed
    moreover have "((q_head q + 1) mod ?n + j) mod ?n = (q_head q + Suc j) mod ?n"
      by (simp add: mod_simps)
    ultimately show ?thesis using Suc i assms(4-6) by (simp add: mqueue_def)
  qed
qed

section \<open>Forgetting\<close>

definition expired_now :: "int \<Rightarrow> tombstone \<Rightarrow> bool" where
  "expired_now now t \<longleftrightarrow> tb_expires t \<le> now"

lemma forget_expired_spec:
  assumes "forget_expired now ts seen = (ts', seen')" and "distinct (map fst seen)"
  shows "ts' = dropWhile (expired_now now) ts
    \<and> map_of seen' = (map_of seen) |` (- set (map tb_id (takeWhile (expired_now now) ts)))
    \<and> distinct (map fst seen')
    \<and> set (map fst seen') = set (map fst seen) - set (map tb_id (takeWhile (expired_now now) ts))"
  using assms
proof (induction now ts seen rule: forget_expired.induct)
  case (1 now seen)
  then show ?case by (auto simp: restrict_map_def)
next
  case (2 now t ts seen)
  show ?case
  proof (cases "now < tb_expires t")
    case True
    with 2 show ?thesis by (auto simp: restrict_map_def expired_now_def)
  next
    case False
    have d: "distinct (map fst (AList.delete (tb_id t) seen))" using 2(3) by (rule distinct_delete)
    have keys: "set (map fst (AList.delete (tb_id t) seen)) = set (map fst seen) - {tb_id t}"
      by (simp add: delete_keys [unfolded comp_def] delete_keys)
    from 2(1) [OF False _ d] False 2(2)
    have IH: "ts' = dropWhile (expired_now now) ts
      \<and> map_of seen' = (map_of (AList.delete (tb_id t) seen)) |` (- set (map tb_id (takeWhile (expired_now now) ts)))
      \<and> distinct (map fst seen')
      \<and> set (map fst seen') = set (map fst (AList.delete (tb_id t) seen))
          - set (map tb_id (takeWhile (expired_now now) ts))" by simp
    moreover have "expired_now now t" using False by (simp add: expired_now_def)
    ultimately show ?thesis
      unfolding keys by (auto simp: delete_conv' restrict_map_def fun_eq_iff)
  qed
qed

text \<open>The identities a queue knows, and the ones it still knows at \<open>now\<close>.\<close>

definition known :: "memory \<Rightarrow> string list" where
  "known q = map e_EventID (mqueue q) @ map tb_id (q_expired q)"

definition forget :: "int \<Rightarrow> memory \<Rightarrow> memory" where
  "forget now q = (case forget_expired now (q_expired q) (q_seen q) of
     (ts, seen) \<Rightarrow> q\<lparr>q_expired := ts, q_seen := seen\<rparr>)"

lemma mem_wf_length_seen: "mem_wf q \<Longrightarrow> length (q_seen q) = length (known q)"
proof -
  assume wf: "mem_wf q"
  then have "length (map fst (q_seen q)) = card (set (map fst (q_seen q)))"
    by (simp add: mem_wf_def distinct_card [symmetric] del: length_map)
  also have "\<dots> = length (known q)"
    using wf distinct_card [of "known q"] by (simp add: mem_wf_def known_def)
  finally show ?thesis by simp
qed

lemma forget_select [simp]:
  "q_ring (forget now q) = q_ring q" "q_head (forget now q) = q_head q"
  "q_size (forget now q) = q_size q" "q_dedupCapacity (forget now q) = q_dedupCapacity q"
  "q_ttl (forget now q) = q_ttl q" "q_accepted (forget now q) = q_accepted q"
  "q_received (forget now q) = q_received q" "q_duplicates (forget now q) = q_duplicates q"
  "mqueue (forget now q) = mqueue q"
  by (simp_all add: forget_def mqueue_def split: prod.split)

lemma forget_spec:
  assumes wf: "mem_wf q"
  shows "q_expired (forget now q) = dropWhile (expired_now now) (q_expired q)"
    and "mem_wf (forget now q)"
    and "i \<in> set (known (forget now q)) \<Longrightarrow> map_of (q_seen (forget now q)) i = map_of (q_seen q) i"
proof -
  obtain ts seen where run: "forget_expired now (q_expired q) (q_seen q) = (ts, seen)" by fastforce
  let ?gone = "set (map tb_id (takeWhile (expired_now now) (q_expired q)))"
  from wf have d: "distinct (map fst (q_seen q))"
    and ids: "distinct (map e_EventID (mqueue q) @ map tb_id (q_expired q))"
    and keys: "set (map fst (q_seen q)) = set (map e_EventID (mqueue q) @ map tb_id (q_expired q))"
    and cap: "int (length (q_seen q)) \<le> q_dedupCapacity q"
    by (simp_all add: mem_wf_def)
  from forget_expired_spec [OF run d]
  have ts: "ts = dropWhile (expired_now now) (q_expired q)"
    and mo: "map_of seen = (map_of (q_seen q)) |` (- ?gone)" and d': "distinct (map fst seen)"
    and keys': "set (map fst seen) = set (map fst (q_seen q)) - ?gone" by simp_all
  have f: "forget now q = q\<lparr>q_expired := ts, q_seen := seen\<rparr>" by (simp add: forget_def run)
  show e: "q_expired (forget now q) = dropWhile (expired_now now) (q_expired q)" by (simp add: f ts)
  have split: "map tb_id (q_expired q)
      = map tb_id (takeWhile (expired_now now) (q_expired q)) @ map tb_id ts"
    unfolding ts by (metis map_append takeWhile_dropWhile_id)
  have ids': "distinct (map e_EventID (mqueue q) @ map tb_id ts)"
    and rest: "set (map e_EventID (mqueue q) @ map tb_id (q_expired q)) - ?gone
        = set (map e_EventID (mqueue q) @ map tb_id ts)"
    using ids unfolding split by auto
  have "card (set (map fst seen)) \<le> card (set (map fst (q_seen q)))"
    unfolding keys' by (intro card_mono) auto
  then have len: "length seen \<le> length (q_seen q)"
    using distinct_card [OF d] distinct_card [OF d'] by simp
  show "mem_wf (forget now q)"
    using wf d' ids' keys' rest len by (simp add: mem_wf_def keys e ts) (simp add: f)
  assume "i \<in> set (known (forget now q))"
  then have "i \<in> set (map e_EventID (mqueue q) @ map tb_id ts)" by (simp add: known_def e ts)
  then have "i \<notin> ?gone" using ids unfolding split by auto
  then show "map_of (q_seen (forget now q)) i = map_of (q_seen q) i"
    by (simp add: f mo restrict_map_def)
qed

lemma Publish_locked_forget:
  "Publish_locked now e hash q = (let q1 = forget now q in
     case map_of (q_seen q1) (e_EventID e) of
       Some entry \<Rightarrow>
         if se_hash entry \<noteq> hash then (Inl Mem_conflict, q1)
         else (Inr True, q1\<lparr>q_duplicates := q_duplicates q1 + 1\<rparr>)
     | None \<Rightarrow>
         if q_size q1 = length (q_ring q1) then (Inl Mem_full, q1)
         else if int (length (q_seen q1)) = q_dedupCapacity q1 then (Inl Mem_dedup_full, q1)
         else (Inr False, q1\<lparr>
           q_ring := (q_ring q1)[(q_head q1 + q_size q1) mod length (q_ring q1) := e],
           q_size := q_size q1 + 1,
           q_seen := AList.update (e_EventID e) \<lparr>se_hash = hash, se_expires = zero_ns\<rparr> (q_seen q1),
           q_accepted := q_accepted q1 + 1\<rparr>))"
  by (simp add: Publish_locked_def forget_def Let_def split: prod.split)

section \<open>Publish and receive\<close>

lemma mem_wf_push:
  assumes wf: "mem_wf q" and new: "e_EventID e \<notin> set (known q)"
    and room: "q_size q < length (q_ring q)" and dedup: "int (length (q_seen q)) < q_dedupCapacity q"
    and q': "q' = q\<lparr>q_ring := (q_ring q)[(q_head q + q_size q) mod length (q_ring q) := e],
           q_size := q_size q + 1, q_seen := AList.update (e_EventID e) v (q_seen q),
           q_accepted := q_accepted q + 1\<rparr>"
  shows "mem_wf q'" and "mqueue q' = mqueue q @ [e]"
proof -
  show mq: "mqueue q' = mqueue q @ [e]" by (rule mqueue_push [OF room]) (simp_all add: q')
  have keys: "set (map fst (q_seen q)) = set (known q)" using wf by (simp add: mem_wf_def known_def)
  with new have notin: "e_EventID e \<notin> fst ` set (q_seen q)" by simp
  then have seen: "map fst (q_seen q') = map fst (q_seen q) @ [e_EventID e]"
    by (simp add: q' update_keys)
  then have len: "length (q_seen q') = Suc (length (q_seen q))" by (metis length_append_singleton length_map)
  show "mem_wf q'"
    unfolding mem_wf_def mq seen
    using wf new notin keys len room dedup by (auto simp: mem_wf_def known_def q')
qed

text \<open>The outcome of a publish, as a function of what the queue still knows.\<close>

definition publish_outcome :: "int \<Rightarrow> event \<Rightarrow> bytes \<Rightarrow> memory \<Rightarrow> memory_error + bool" where
  "publish_outcome now e hash q =
     (let ids = map e_EventID (mqueue q) @ map tb_id (dropWhile (expired_now now) (q_expired q)) in
      if e_EventID e \<in> set ids
      then (if map_option se_hash (map_of (q_seen q) (e_EventID e)) = Some hash
            then Inr True else Inl Mem_conflict)
      else if length (mqueue q) = length (q_ring q) then Inl Mem_full
      else if int (length ids) = q_dedupCapacity q then Inl Mem_dedup_full
      else Inr False)"

lemma Publish_locked_spec:
  assumes wf: "mem_wf q" and run: "Publish_locked now e hash q = (res, q')"
  shows "res = publish_outcome now e hash q \<and> mem_wf q'
    \<and> mqueue q' = mqueue q @ (if res = Inr False then [e] else [])
    \<and> q_expired q' = dropWhile (expired_now now) (q_expired q)
    \<and> length (q_ring q') = length (q_ring q) \<and> q_dedupCapacity q' = q_dedupCapacity q"
proof -
  let ?q1 = "forget now q"
  note f = forget_spec [OF wf, where now = now]
  have ids: "map e_EventID (mqueue q) @ map tb_id (dropWhile (expired_now now) (q_expired q)) = known ?q1"
    by (simp add: known_def f)
  have keys: "set (map fst (q_seen ?q1)) = set (known ?q1)"
    using f(2) by (simp add: mem_wf_def known_def)
  show ?thesis
  proof (cases "map_of (q_seen ?q1) (e_EventID e)")
    case (Some entry)
    then have "e_EventID e \<in> set (map fst (q_seen ?q1))" by (metis map_of_SomeD image_eqI fst_conv set_map)
    then have mem: "e_EventID e \<in> set (known ?q1)" using keys by blast
    with f(3) Some have "map_of (q_seen q) (e_EventID e) = Some entry" by simp
    with mem have out: "publish_outcome now e hash q = (if se_hash entry = hash then Inr True else Inl Mem_conflict)"
      by (simp add: publish_outcome_def ids)
    have wf': "mem_wf (?q1\<lparr>q_duplicates := n\<rparr>)" for n
      using f(2) by (simp add: mem_wf_def mqueue_def)
    show ?thesis
      using run Some out wf' f(1,2)
      by (auto simp: Publish_locked_forget Let_def mqueue_def split: if_splits)
  next
    case None
    then have "e_EventID e \<notin> set (map fst (q_seen ?q1))" by (simp add: map_of_eq_None_iff)
    then have new: "e_EventID e \<notin> set (known ?q1)" using keys by blast
    have len: "length (q_seen ?q1) = length (known ?q1)" by (rule mem_wf_length_seen [OF f(2)])
    have out: "publish_outcome now e hash q =
        (if q_size q = length (q_ring q) then Inl Mem_full
         else if int (length (q_seen ?q1)) = q_dedupCapacity q then Inl Mem_dedup_full else Inr False)"
      using new by (simp add: publish_outcome_def ids len)
    show ?thesis
    proof (cases "res = Inr False")
      case False
      with run None out f(1,2) show ?thesis
        by (auto simp: Publish_locked_forget Let_def split: if_splits)
    next
      case True
      with run None have guards: "q_size q \<noteq> length (q_ring q)"
        "int (length (q_seen ?q1)) \<noteq> q_dedupCapacity q"
        and q': "q' = ?q1\<lparr>q_ring := (q_ring ?q1)[(q_head ?q1 + q_size ?q1) mod length (q_ring ?q1) := e],
           q_size := q_size ?q1 + 1,
           q_seen := AList.update (e_EventID e) \<lparr>se_hash = hash, se_expires = zero_ns\<rparr> (q_seen ?q1),
           q_accepted := q_accepted ?q1 + 1\<rparr>"
        by (auto simp: Publish_locked_forget Let_def split: if_splits)
      have "q_size ?q1 < length (q_ring ?q1)" "int (length (q_seen ?q1)) < q_dedupCapacity ?q1"
        using guards f(2) by (auto simp: mem_wf_def)
      from mem_wf_push [OF f(2) new this q'] show ?thesis
        using True out guards q' f(1) by simp
    qed
  qed
qed

lemma Mem_Publish_cases:
  assumes "Mem_Publish enc sha now e q = (res, q')"
  obtains (rejected) err where "res = Inl err" and "q' = q"
  | (locked) b where "Event_Validate e = Inr ()" and "enc e = Some b"
      and "int (length b) \<le> MaxRequestBytes - 1024"
      and "Publish_locked now e (sha b) q = (res, q')"
  using assms by (auto simp: Mem_Publish_def split: sum.splits option.splits if_splits)

lemma Mem_Receive_spec:
  assumes wf: "mem_wf q" and run: "Mem_Receive now q = (res, q')"
  shows "mem_wf q' \<and> length (q_ring q') = length (q_ring q) \<and> q_dedupCapacity q' = q_dedupCapacity q
    \<and> (case mqueue q of [] \<Rightarrow> res = None \<and> q' = q
       | e # es \<Rightarrow> res = Some e \<and> mqueue q' = es
           \<and> q_expired q' = q_expired q @ [\<lparr>tb_id = e_EventID e, tb_expires = now + q_ttl q\<rparr>])"
proof (cases "q_size q = 0")
  case True
  then have "mqueue q = []" by (simp add: mqueue_def)
  with True run wf show ?thesis by (simp add: Mem_Receive_def)
next
  case False
  let ?e = "q_ring q ! q_head q"
  from wf have b: "q_size q \<le> length (q_ring q)" "q_head q < length (q_ring q)"
    and d: "distinct (map fst (q_seen q))" by (simp_all add: mem_wf_def)
  from False run obtain v where q': "q' = q\<lparr>q_ring := (q_ring q)[q_head q := zero_event],
           q_head := (q_head q + 1) mod length (q_ring q), q_size := q_size q - 1,
           q_received := q_received q + 1, q_seen := AList.update (e_EventID ?e) v (q_seen q),
           q_expired := q_expired q @ [\<lparr>tb_id = e_EventID ?e, tb_expires = now + q_ttl q\<rparr>]\<rparr>"
    and res: "res = Some ?e" by (auto simp: Mem_Receive_def Let_def)
  have mq: "mqueue q = ?e # mqueue q'"
    by (rule mqueue_pop [of q q' zero_event]) (use False b in \<open>simp_all add: q'\<close>)
  have "e_EventID ?e \<in> set (map fst (q_seen q))" using wf unfolding mem_wf_def mq by simp
  then have keys: "map fst (q_seen q') = map fst (q_seen q)"
    by (simp add: q' update_keys)
  then have len: "length (q_seen q') = length (q_seen q)" by (metis length_map)
  have sel: "q_head q' = (q_head q + 1) mod length (q_ring q)" "length (q_ring q') = length (q_ring q)"
    "q_ttl q' = q_ttl q" "q_dedupCapacity q' = q_dedupCapacity q" "q_accepted q' = q_accepted q"
    "q_received q' = q_received q + 1" "q_size q' \<le> q_size q"
    "q_expired q' = q_expired q @ [\<lparr>tb_id = e_EventID ?e, tb_expires = now + q_ttl q\<rparr>]"
    by (simp_all add: q')
  have "(q_head q + 1) mod length (q_ring q) < length (q_ring q)" using b by (intro mod_less_divisor) linarith
  then have "mem_wf q'"
    using wf b order_trans [OF sel(7) b(1)] unfolding mem_wf_def keys len sel mq by auto
  with res mq sel show ?thesis by simp
qed

section \<open>Reachable queues\<close>

datatype mem_op = Do_publish event int | Do_receive int

fun mem_apply :: "(event \<Rightarrow> bytes option) \<Rightarrow> (bytes \<Rightarrow> bytes) \<Rightarrow> mem_op \<Rightarrow> memory \<Rightarrow> memory" where
  "mem_apply enc sha (Do_publish e now) q = snd (Mem_Publish enc sha now e q)"
| "mem_apply enc sha (Do_receive now) q = snd (Mem_Receive now q)"

definition mem_run :: "(event \<Rightarrow> bytes option) \<Rightarrow> (bytes \<Rightarrow> bytes) \<Rightarrow> mem_op list \<Rightarrow> memory \<Rightarrow> memory" where
  "mem_run enc sha ops q = fold (mem_apply enc sha) ops q"

lemma NewMemory_wf:
  assumes "NewMemory capacity dedup ttl = Some q"
  shows "mem_wf q" and "int (length (q_ring q)) = capacity" and "q_dedupCapacity q = dedup"
    and "mqueue q = []"
proof -
  from assms have cap: "1 \<le> capacity" "capacity \<le> dedup" "0 < ttl"
    and q: "q = \<lparr>q_expired = [], q_ring = replicate (nat capacity) zero_event, q_head = 0, q_size = 0,
        q_dedupCapacity = dedup, q_seen = [], q_ttl = ttl, q_accepted = 0,
        q_duplicates = 0, q_received = 0\<rparr>"
    by (auto simp: NewMemory_def split: if_splits)
  show mq: "mqueue q = []" by (simp add: q mqueue_def)
  show "mem_wf q" unfolding mem_wf_def mq using cap by (simp add: q)
  show "int (length (q_ring q)) = capacity" and "q_dedupCapacity q = dedup"
    using cap by (simp_all add: q)
qed

lemma Mem_Publish_wf:
  assumes wf: "mem_wf q" and run: "Mem_Publish enc sha now e q = (res, q')"
  shows "mem_wf q' \<and> mqueue q' = mqueue q @ (if res = Inr False then [e] else [])
    \<and> length (q_ring q') = length (q_ring q) \<and> q_dedupCapacity q' = q_dedupCapacity q"
  using run
proof (cases rule: Mem_Publish_cases)
  case (rejected err)
  with wf show ?thesis by simp
next
  case (locked b)
  with Publish_locked_spec [OF wf locked(4)] show ?thesis by simp
qed

lemma mem_apply_wf:
  assumes "mem_wf q"
  shows "mem_wf (mem_apply enc sha x q)
    \<and> length (q_ring (mem_apply enc sha x q)) = length (q_ring q)
    \<and> q_dedupCapacity (mem_apply enc sha x q) = q_dedupCapacity q"
proof (cases x)
  case (Do_publish e now)
  obtain res q' where run: "Mem_Publish enc sha now e q = (res, q')" by fastforce
  from Mem_Publish_wf [OF assms run] run Do_publish show ?thesis by simp
next
  case (Do_receive now)
  obtain res q' where run: "Mem_Receive now q = (res, q')" by fastforce
  from Mem_Receive_spec [OF assms run] run Do_receive show ?thesis by simp
qed

lemma mem_run_wf:
  "mem_wf q \<Longrightarrow> mem_wf (mem_run enc sha ops q)
     \<and> length (q_ring (mem_run enc sha ops q)) = length (q_ring q)
     \<and> q_dedupCapacity (mem_run enc sha ops q) = q_dedupCapacity q"
proof (induction ops arbitrary: q)
  case Nil
  then show ?case by (simp add: mem_run_def)
next
  case (Cons x ops)
  with Cons.IH [of "mem_apply enc sha x q"] mem_apply_wf [OF Cons.prems, of enc sha x]
  show ?case by (simp add: mem_run_def)
qed

section \<open>Properties\<close>

text \<open>
  C17: the volatile queue refines a bounded FIFO queue. From a new queue and after any
  operations, an accepted publish appends its event, every other publish leaves the queued
  events alone, a receive takes the oldest one, and it reports an empty queue only when it is.
\<close>

theorem memory_fifo:
  fixes enc :: "event \<Rightarrow> bytes option" and sha :: "bytes \<Rightarrow> bytes" and ops :: "mem_op list"
  assumes "NewMemory capacity dedup ttl = Some q0"
  defines "q \<equiv> mem_run enc sha ops q0"
  shows "mqueue (snd (Mem_Publish enc sha now e q))
      = mqueue q @ (if fst (Mem_Publish enc sha now e q) = Inr False then [e] else [])
    \<and> (case mqueue q of
         [] \<Rightarrow> Mem_Receive now q = (None, q)
       | x # xs \<Rightarrow> fst (Mem_Receive now q) = Some x \<and> mqueue (snd (Mem_Receive now q)) = xs)"
proof -
  have wf: "mem_wf q" unfolding q_def using mem_run_wf NewMemory_wf(1) [OF assms(1)] by blast
  obtain res q1 where pub: "Mem_Publish enc sha now e q = (res, q1)" by fastforce
  obtain r q2 where rcv: "Mem_Receive now q = (r, q2)" by fastforce
  from Mem_Publish_wf [OF wf pub] Mem_Receive_spec [OF wf rcv] show ?thesis
    by (simp add: pub rcv split: list.splits)
qed

lemma mem_demo: "NewMemory 1 2 10 = Some \<lparr>q_expired = [], q_ring = [zero_event], q_head = 0, q_size = 0,
    q_dedupCapacity = 2, q_seen = [], q_ttl = 10, q_accepted = 0, q_duplicates = 0, q_received = 0\<rparr>"
  by (simp add: NewMemory_def)

theorem memory_fifo_witness:
  "Mem_Receive 5 (mem_run (\<lambda>e. None) (\<lambda>b. b) [] (the (NewMemory 1 2 10)))
     = (None, mem_run (\<lambda>e. None) (\<lambda>b. b) [] (the (NewMemory 1 2 10)))"
  using memory_fifo [OF mem_demo, of "\<lambda>e. None" "\<lambda>b. b" 5 zero_event "[]"]
  by (simp add: mem_demo mem_run_def NewMemory_wf(4) [OF mem_demo])

text \<open>
  C19: the volatile queue stays within its bounds and loses nothing. After any operations at
  most \<open>capacity\<close> events wait and at most \<open>dedup\<close> identities are remembered, namely exactly
  those of the waiting events and of the received ones not yet forgotten, and the counters
  agree: accepted is received plus waiting.
\<close>

theorem memory_bounds:
  fixes enc :: "event \<Rightarrow> bytes option" and sha :: "bytes \<Rightarrow> bytes" and ops :: "mem_op list"
  assumes "NewMemory capacity dedup ttl = Some q0"
  defines "q \<equiv> mem_run enc sha ops q0"
  shows "int (length (mqueue q)) \<le> capacity \<and> int (length (q_seen q)) \<le> dedup
    \<and> length (q_seen q) = length (mqueue q) + length (q_expired q)
    \<and> fst ` set (q_seen q) = e_EventID ` set (mqueue q) \<union> tb_id ` set (q_expired q)
    \<and> distinct (map e_EventID (mqueue q))
    \<and> q_accepted q = q_received q + of_nat (length (mqueue q))"
proof -
  note new = NewMemory_wf [OF assms(1)]
  have wf: "mem_wf q" and ring: "length (q_ring q) = length (q_ring q0)"
    and cap: "q_dedupCapacity q = q_dedupCapacity q0"
    unfolding q_def using mem_run_wf new(1) by blast+
  from mem_wf_length_seen [OF wf] have "length (q_seen q) = length (mqueue q) + length (q_expired q)"
    by (simp add: known_def)
  with wf ring cap new(2,3) show ?thesis by (auto simp: mem_wf_def)
qed

theorem memory_bounds_witness:
  "int (length (mqueue (mem_run (\<lambda>e. Some ''x'') (\<lambda>b. b) [Do_receive 3] (the (NewMemory 1 2 10))))) \<le> 1"
  using memory_bounds [OF mem_demo, of "\<lambda>e. Some ''x''" "\<lambda>b. b" "[Do_receive 3]"]
  by (simp add: mem_demo)

text \<open>
  C18: the exact outcome of a publish to the volatile queue, on every branch. An invalid event, one
  that cannot be encoded and one whose encoding leaves no room for the request around it are
  refused, each with its own error. Otherwise an identity that waits, or whose retention after
  its receipt has not been cut by the expired front of the list, is a duplicate or a conflict by
  its hash; otherwise the two capacities decide. The event joins the end of the queue exactly
  when the outcome is a fresh acceptance.
\<close>

theorem memory_publish_result:
  fixes now :: int and enc :: "event \<Rightarrow> bytes option" and sha :: "bytes \<Rightarrow> bytes" and ops :: "mem_op list" and e :: event
  assumes "NewMemory capacity dedup ttl = Some q0"
  defines "q \<equiv> mem_run enc sha ops q0"
  defines "ids \<equiv> map e_EventID (mqueue q)
      @ map tb_id (dropWhile (\<lambda>t. tb_expires t \<le> now) (q_expired q))"
  defines "res \<equiv> fst (Mem_Publish enc sha now e q)"
  shows "(res = (case Event_Validate e of
      Inl v \<Rightarrow> Inl (Mem_invalid v)
    | Inr _ \<Rightarrow> (case enc e of
        None \<Rightarrow> Inl Mem_encoding
      | Some b \<Rightarrow>
          if int (length b) > MaxRequestBytes - 1024 then Inl Mem_too_large
          else if e_EventID e \<in> set ids
          then (if map_option se_hash (map_of (q_seen q) (e_EventID e)) = Some (sha b)
                then Inr True else Inl Mem_conflict)
          else if int (length (mqueue q)) = capacity then Inl Mem_full
          else if int (length ids) = dedup then Inl Mem_dedup_full
          else Inr False)))
    \<and> mqueue (snd (Mem_Publish enc sha now e q)) = mqueue q @ (if res = Inr False then [e] else [])"
proof -
  note new = NewMemory_wf [OF assms(1)]
  have wf: "mem_wf q" and ring: "length (q_ring q) = length (q_ring q0)"
    and cap: "q_dedupCapacity q = q_dedupCapacity q0"
    unfolding q_def using mem_run_wf new(1) by blast+
  have pred: "expired_now now = (\<lambda>t. tb_expires t \<le> now)" by (simp add: fun_eq_iff expired_now_def)
  have locked: "fst (Publish_locked now e h q) = publish_outcome now e h q" for h
    using Publish_locked_spec [OF wf surjective_pairing] by blast
  show ?thesis
  proof (rule conjI, goal_cases)
    case 1
    show ?case
      using new(2,3) ring cap
      by (auto simp: res_def Mem_Publish_def locked publish_outcome_def ids_def Let_def pred
          split: sum.split option.split)
  next
    case 2
    show ?case using Mem_Publish_wf [OF wf surjective_pairing] by (simp add: res_def)
  qed
qed

definition mem_event :: event where
  "mem_event = zero_event\<lparr>e_SchemaVersion := 1, e_EventID := ''e'', e_ProducerInstanceID := ''p'',
     e_RowIndex := 1, e_ProcessedAt := unix_time 0,
     e_Measurement := (e_Measurement zero_event)\<lparr>m_SourceTimestamp := unix_time 0, m_GPUUUID := ''g'',
       m_MetricName := ''u''\<rparr>\<rparr>"

lemma mem_event_valid: "Event_Validate mem_event = Inr ()"
  by (simp add: mem_event_def zero_event_def Event_Validate_def SchemaVersion_def is_zero_def zero_ns_def
      unix_time_def nanosecond_def Measurement_Validate_def is_nan_def is_inf_def)

theorem memory_publish_result_witness:
  "fst (Mem_Publish (\<lambda>e. Some ''x'') (\<lambda>b. b) 0 mem_event (the (NewMemory 1 2 10))) = Inr False
   \<and> fst (Mem_Publish (\<lambda>e. None) (\<lambda>b. b) 0 mem_event (the (NewMemory 1 2 10))) = Inl Mem_encoding"
  using memory_publish_result [OF mem_demo, where enc = "\<lambda>e. Some ''x''" and sha = "\<lambda>b. b"
      and now = 0 and ops = "[]" and e = mem_event]
    memory_publish_result [OF mem_demo, where enc = "\<lambda>e. None" and sha = "\<lambda>b. b"
      and now = 0 and ops = "[]" and e = mem_event]
  by (simp add: mem_event_valid MaxRequestBytes_def mem_demo mem_run_def NewMemory_wf(4) [OF mem_demo])

end
