(* ===== verification/Handlers.thy ===== *)
theory Handlers
  imports Memory Durable_Outcomes
begin

text \<open>
  internal/queue/http.go and internal/queue/durable_http.go: the HTTP protocol of the two
  queues. The handlers work on the Go interfaces \<^verbatim>\<open>Store\<close> and \<^verbatim>\<open>ReliableStore\<close>, which are the
  locales \<open>event_store\<close> and \<open>reliable_store\<close> here; each is interpreted on the queue that
  implements it. The texts of error messages are not modelled.
\<close>

section \<open>Requests and responses\<close>

text \<open>What a response carries, one constructor per JSON document of the protocol.\<close>

datatype payload =
  No_body
| Ok_body
| Stats_body mem_stats
| Snapshot_body durable_stats
| Publish_response "string list" bool
| Receive_response "event list"
| Delivery_body delivery
| Receipt_response string bool
| Error_response string

record response =
  rs_status :: int
  rs_retry_after :: bool
  rs_body :: payload

definition respond :: "int \<Rightarrow> payload \<Rightarrow> response" where
  "respond status v = \<lparr>rs_status = status, rs_retry_after = False, rs_body = v\<rparr>"

definition failure :: "int \<Rightarrow> string \<Rightarrow> response" where
  "failure status code = respond status (Error_response code)"

text \<open>
  Reading a body: the outcome of the first \<^verbatim>\<open>Decode\<close>, which is to deliver the document, and of
  the second, which is to find the end of the body.
\<close>

datatype decode_error = Body_too_large | Body_eof | Body_malformed

type_synonym 'a body = "(decode_error + 'a) \<times> (decode_error + unit)"

definition decode :: "'a body \<Rightarrow> response + 'a" where
  "decode b = (case b of
     (Inr v, Inl Body_eof) \<Rightarrow> Inr v
   | (Inl Body_too_large, _) \<Rightarrow> Inl (failure 413 ''too_large'')
   | (Inr v, Inl Body_too_large) \<Rightarrow> Inl (failure 413 ''too_large'')
   | _ \<Rightarrow> Inl (failure 400 ''invalid_request''))"

lemma decode_failure: "decode b = Inl r \<Longrightarrow> rs_status r = 413 \<or> rs_status r = 400"
  by (auto simp: decode_def failure_def respond_def split: prod.splits sum.splits decode_error.splits)

lemma decode_whole: "decode b = Inr v \<Longrightarrow> b = (Inr v, Inl Body_eof)"
  by (auto simp: decode_def split: prod.splits sum.splits decode_error.splits)

section \<open>The handler of the volatile queue (http.go)\<close>

datatype memory_request =
  MGet_health
| MGet_stats
| MPost_messages "event list body"
| MPost_receive

definition memory_publish_response :: "event \<Rightarrow> memory_error + bool \<Rightarrow> response" where
  "memory_publish_response e res = (case res of
     Inl Mem_full \<Rightarrow> (failure 429 ''capacity'')\<lparr>rs_retry_after := True\<rparr>
   | Inl Mem_dedup_full \<Rightarrow> (failure 429 ''capacity'')\<lparr>rs_retry_after := True\<rparr>
   | Inl Mem_conflict \<Rightarrow> failure 409 ''id_conflict''
   | Inl _ \<Rightarrow> failure 400 ''invalid_event''
   | Inr dup \<Rightarrow> respond 202 (Publish_response [e_EventID e] dup))"

definition memory_handle :: "(event \<Rightarrow> 's \<Rightarrow> (memory_error + bool) \<times> 's) \<Rightarrow> ('s \<Rightarrow> event option \<times> 's) \<Rightarrow>
    ('s \<Rightarrow> mem_stats) \<Rightarrow> memory_request \<Rightarrow> 's \<Rightarrow> response \<times> 's" where
  "memory_handle publish receive stats req s = (case req of
     MGet_health \<Rightarrow> (respond 200 Ok_body, s)
   | MGet_stats \<Rightarrow> (respond 200 (Stats_body (stats s)), s)
   | MPost_messages (Inl Body_too_large, _) \<Rightarrow> (failure 413 ''too_large'', s)
   | MPost_messages (Inl _, _) \<Rightarrow> (failure 400 ''invalid_request'', s)
   | MPost_messages (Inr events, rest) \<Rightarrow>
       if rest \<noteq> Inl Body_eof then (failure 400 ''invalid_request'', s)
       else (case events of
           [e] \<Rightarrow>
             (case Event_Validate e of
                Inl _ \<Rightarrow> (failure 400 ''invalid_event'', s)
              | Inr _ \<Rightarrow> (case publish e s of (res, s') \<Rightarrow> (memory_publish_response e res, s')))
         | _ \<Rightarrow> (failure 400 ''invalid_request'', s))
   | MPost_receive \<Rightarrow> (case receive s of
         (None, s') \<Rightarrow> (respond 204 No_body, s')
       | (Some e, s') \<Rightarrow> (respond 200 (Receive_response [e]), s')))"

section \<open>The handler of the durable queue (durable_http.go)\<close>

definition durableError :: "queue_error \<Rightarrow> response" where
  "durableError err = (case err of
     ErrInvalid _ \<Rightarrow> failure 400 ''invalid_request''
   | ErrConflict \<Rightarrow> failure 409 ''id_conflict''
   | ErrStaleLease \<Rightarrow> failure 409 ''stale_lease''
   | ErrFull \<Rightarrow> (failure 429 ''capacity'')\<lparr>rs_retry_after := True\<rparr>
   | ErrDedupFull \<Rightarrow> (failure 429 ''capacity'')\<lparr>rs_retry_after := True\<rparr>
   | ErrClosed \<Rightarrow> failure 503 ''unavailable''
   | Canceled \<Rightarrow> failure 503 ''unavailable''
   | DeadlineExceeded \<Rightarrow> failure 503 ''unavailable''
   | _ \<Rightarrow> failure 503 ''storage_error'')"

text \<open>
  The Go interface \<^verbatim>\<open>ReliableStore\<close>, its operations with everything they read from outside
  supplied. A lease call that is still waiting has no result yet.
\<close>

record 's store_ops =
  so_Publish :: "event \<Rightarrow> 's \<Rightarrow> (queue_error + bool) \<times> 's"
  so_Lease :: "int \<Rightarrow> 's \<Rightarrow> (queue_error + delivery option) option \<times> 's"
  so_Ack :: "ack_request \<Rightarrow> 's \<Rightarrow> (queue_error + bool) \<times> 's"
  so_Nack :: "nack_request \<Rightarrow> 's \<Rightarrow> (queue_error + bool) \<times> 's"
  so_Snapshot :: "'s \<Rightarrow> queue_error + durable_stats"

datatype durable_request =
  Get_health
| Get_stats
| Post_messages "event list body"
| Post_receive
| Post_leases "int body"
| Post_acks "ack_request body"
| Post_nacks "nack_request body"

definition receipt_response :: "string \<Rightarrow> queue_error + bool \<Rightarrow> response" where
  "receipt_response eid res = (case res of
     Inl err \<Rightarrow> durableError err
   | Inr dup \<Rightarrow> respond 200 (Receipt_response eid dup))"

definition durable_handle :: "'s store_ops \<Rightarrow> durable_request \<Rightarrow> 's \<Rightarrow> response option \<times> 's" where
  "durable_handle R req s = (case req of
     Get_health \<Rightarrow> (Some (case so_Snapshot R s of
         Inl err \<Rightarrow> durableError err | Inr _ \<Rightarrow> respond 200 Ok_body), s)
   | Get_stats \<Rightarrow> (Some (case so_Snapshot R s of
         Inl err \<Rightarrow> durableError err | Inr x \<Rightarrow> respond 200 (Snapshot_body x)), s)
   | Post_messages b \<Rightarrow> (case decode b of
         Inl r \<Rightarrow> (Some r, s)
       | Inr [e] \<Rightarrow> (case so_Publish R e s of
             (Inl err, s') \<Rightarrow> (Some (durableError err), s')
           | (Inr dup, s') \<Rightarrow> (Some (respond 202 (Publish_response [e_EventID e] dup)), s'))
       | Inr _ \<Rightarrow> (Some (failure 400 ''invalid_request''), s))
   | Post_receive \<Rightarrow> (Some (failure 410 ''disabled''), s)
   | Post_leases b \<Rightarrow> (case decode b of
         Inl r \<Rightarrow> (Some r, s)
       | Inr wait \<Rightarrow>
           if wait < 0 \<or> wait > MaxWait div Millisecond
           then (Some (failure 400 ''invalid_request''), s)
           else (case so_Lease R (wait * Millisecond) s of
               (None, s') \<Rightarrow> (None, s')
             | (Some (Inl err), s') \<Rightarrow> (Some (durableError err), s')
             | (Some (Inr None), s') \<Rightarrow> (Some (respond 204 No_body), s')
             | (Some (Inr (Some dl)), s') \<Rightarrow> (Some (respond 200 (Delivery_body dl)), s')))
   | Post_acks b \<Rightarrow> (case decode b of
         Inl r \<Rightarrow> (Some r, s)
       | Inr a \<Rightarrow> (case so_Ack R a s of (res, s') \<Rightarrow> (Some (receipt_response (a_EventID a) res), s')))
   | Post_nacks b \<Rightarrow> (case decode b of
         Inl r \<Rightarrow> (Some r, s)
       | Inr n \<Rightarrow> (case so_Nack R n s of (res, s') \<Rightarrow> (Some (receipt_response (n_EventID n) res), s'))))"

section \<open>Handler slots\<close>

text \<open>
  The channels \<^verbatim>\<open>slots\<close> (64) and \<^verbatim>\<open>polls\<close> (32) as the number of handlers holding a token. A
  request is turned away with 503 when the channel it needs is full.
\<close>

record gates =
  g_slots :: nat
  g_polls :: nat

definition enter_handler :: "bool \<Rightarrow> gates \<Rightarrow> response + gates" where
  "enter_handler is_lease g =
     (if g_slots g \<ge> 64 then Inl (failure 503 ''busy'')
      else if is_lease
      then (if g_polls g \<ge> 32 then Inl (failure 503 ''busy'')
            else Inr (g\<lparr>g_slots := g_slots g + 1, g_polls := g_polls g + 1\<rparr>))
      else Inr (g\<lparr>g_slots := g_slots g + 1\<rparr>))"

definition leave_handler :: "bool \<Rightarrow> gates \<Rightarrow> gates" where
  "leave_handler is_lease g =
     (if is_lease then g\<lparr>g_slots := g_slots g - 1, g_polls := g_polls g - 1\<rparr>
      else g\<lparr>g_slots := g_slots g - 1\<rparr>)"

text \<open>The handler of the volatile queue has the one channel only.\<close>

definition enter_memory_handler :: "nat \<Rightarrow> response + nat" where
  "enter_memory_handler n = (if n \<ge> 64 then Inl (failure 503 ''busy'') else Inr (n + 1))"

definition leave_memory_handler :: "nat \<Rightarrow> nat" where
  "leave_memory_handler n = n - 1"

lemma memory_handler_slots:
  "n \<le> 64 \<Longrightarrow> enter_memory_handler n = Inr m \<Longrightarrow> m \<le> 64 \<and> leave_memory_handler m = n"
  by (auto simp: enter_memory_handler_def leave_memory_handler_def split: if_splits)

text \<open>Handlers that are running now: leases and others, as they came and went.\<close>

inductive handlers_running :: "nat \<Rightarrow> nat \<Rightarrow> gates \<Rightarrow> bool" where
  idle: "handlers_running 0 0 \<lparr>g_slots = 0, g_polls = 0\<rparr>"
| lease_in: "handlers_running l k g \<Longrightarrow> enter_handler True g = Inr g' \<Longrightarrow> handlers_running (Suc l) k g'"
| other_in: "handlers_running l k g \<Longrightarrow> enter_handler False g = Inr g' \<Longrightarrow> handlers_running l (Suc k) g'"
| lease_out: "handlers_running (Suc l) k g \<Longrightarrow> handlers_running l k (leave_handler True g)"
| other_out: "handlers_running l (Suc k) g \<Longrightarrow> handlers_running l k (leave_handler False g)"

lemma handlers_running_counts:
  "handlers_running l k g \<Longrightarrow> g_slots g = l + k \<and> g_polls g = l \<and> l + k \<le> 64 \<and> l \<le> 32"
  by (induction rule: handlers_running.induct)
     (auto simp: enter_handler_def leave_handler_def split: if_splits)

section \<open>The interface of the volatile queue\<close>

lemma memory_messages_cases:
  assumes "memory_handle publish receive stats (MPost_messages b) s = (r, s')"
  obtains (stored) e res where "b = (Inr [e], Inl Body_eof)" and "Event_Validate e = Inr ()"
      and "publish e s = (res, s')" and "r = memory_publish_response e res"
  | (refused) st c where "s' = s" and "r = failure st c"
proof -
  obtain first rest where b: "b = (first, rest)" by fastforce
  show ?thesis
  proof (cases first)
    case (Inl err)
    with assms b refused show ?thesis by (cases err) (auto simp: memory_handle_def)
  next
    case (Inr events)
    show ?thesis
    proof (cases "rest = Inl Body_eof \<and> (\<exists>e. events = [e] \<and> Event_Validate e = Inr ())")
      case True
      then obtain e where e: "events = [e]" "Event_Validate e = Inr ()" and rest: "rest = Inl Body_eof"
        by blast
      obtain res s'' where "publish e s = (res, s'')" by fastforce
      with assms b Inr e rest stored show ?thesis by (simp add: memory_handle_def)
    next
      case False
      show ?thesis
      proof (cases "rest = Inl Body_eof")
        case True
        with False assms b Inr refused show ?thesis
          by (auto simp: memory_handle_def split: list.splits sum.splits)
      next
        case False
        with assms b Inr have "s' = s" and "r = failure 400 ''invalid_request''"
          by (auto simp: memory_handle_def)
        then show ?thesis by (rule refused)
      qed
    qed
  qed
qed

text \<open>The Go interface \<^verbatim>\<open>Store\<close>: a queue of events behind \<open>publish\<close> and \<open>receive\<close>.\<close>

locale event_store =
  fixes publish :: "event \<Rightarrow> 's \<Rightarrow> (memory_error + bool) \<times> 's"
    and receive :: "'s \<Rightarrow> event option \<times> 's"
    and contents :: "'s \<Rightarrow> event list"
    and inv :: "'s \<Rightarrow> bool"
  assumes publish_inv: "inv s \<Longrightarrow> publish e s = (res, s') \<Longrightarrow> inv s'"
    and publish_contents: "inv s \<Longrightarrow> publish e s = (res, s') \<Longrightarrow>
      contents s' = contents s @ (if res = Inr False then [e] else [])"
    and receive_inv: "inv s \<Longrightarrow> receive s = (r, s') \<Longrightarrow> inv s'"
    and receive_contents: "inv s \<Longrightarrow> receive s = (r, s') \<Longrightarrow>
      (case contents s of [] \<Rightarrow> r = None \<and> contents s' = []
       | e # es \<Rightarrow> r = Some e \<and> contents s' = es)"
begin

text \<open>The effect of a request on the queued events can be read off its response.\<close>

definition effect :: "memory_request \<Rightarrow> response \<Rightarrow> event list \<Rightarrow> event list" where
  "effect req r xs = (case (req, rs_body r) of
     (MPost_messages (Inr [e], _), Publish_response _ False) \<Rightarrow> xs @ [e]
   | (MPost_receive, Receive_response _) \<Rightarrow> tl xs
   | _ \<Rightarrow> xs)"

lemma publish_effect:
  assumes "inv s" and "publish e s = (res, s')"
  shows "contents s' = effect (MPost_messages (Inr [e], rest)) (memory_publish_response e res) (contents s)"
  using publish_contents [OF assms]
  by (auto simp: effect_def memory_publish_response_def failure_def respond_def
      split: sum.splits memory_error.splits bool.splits)

lemma handle_contents:
  assumes inv: "inv s" and run: "memory_handle publish receive stats req s = (r, s')"
  shows "inv s' \<and> contents s' = effect req r (contents s)"
proof (cases req)
  case (MPost_messages b)
  from run [unfolded MPost_messages] show ?thesis
  proof (cases rule: memory_messages_cases)
    case (stored e res)
    with publish_effect [OF inv stored(3)] publish_inv [OF inv stored(3)] MPost_messages
    show ?thesis by simp
  next
    case (refused st c)
    with inv MPost_messages show ?thesis
      by (auto simp: effect_def failure_def respond_def split: prod.splits sum.splits list.splits)
  qed
next
  case MPost_receive
  obtain x s'' where rc: "receive s = (x, s'')" by fastforce
  with run MPost_receive receive_contents [OF inv rc] receive_inv [OF inv rc] show ?thesis
    by (auto simp: memory_handle_def effect_def respond_def split: option.splits list.splits)
qed (use run inv in \<open>simp_all add: memory_handle_def effect_def respond_def\<close>)

end

interpretation memory_store: event_store "Mem_Publish enc sha now" "Mem_Receive now'" mqueue mem_wf
proof (unfold_locales, goal_cases)
  case (1 s e res s')
  then show ?case using Mem_Publish_wf by blast
next
  case (2 s e res s')
  then show ?case using Mem_Publish_wf by blast
next
  case (3 s r s')
  then show ?case using Mem_Receive_spec by blast
next
  case (4 s r s')
  then show ?case using Mem_Receive_spec [OF 4] by (auto split: list.splits)
qed

section \<open>The interface of the durable queue\<close>

text \<open>
  The Go interface \<^verbatim>\<open>ReliableStore\<close>: an operation that reports an error has not changed the
  stored queue (\<open>stored\<close> is what survives a crash), and reading statistics changes nothing.
\<close>

locale reliable_store =
  fixes R :: "'s store_ops" and stored :: "'s \<Rightarrow> 'd"
  assumes publish_error: "so_Publish R e s = (Inl err, s') \<Longrightarrow> stored s' = stored s"
    and ack_error: "so_Ack R a s = (Inl err, s') \<Longrightarrow> stored s' = stored s"
    and nack_error: "so_Nack R n s = (Inl err, s') \<Longrightarrow> stored s' = stored s"
begin

lemma durableError_status: "rs_status (durableError err) \<in> {400, 409, 429, 503}"
  by (cases err) (simp_all add: durableError_def failure_def respond_def)

text \<open>A publish, ACK or NACK that is not answered with success has not touched the queue.\<close>

lemma failure_keeps:
  assumes "durable_handle R req s = (Some r, s')" and "\<forall>b. req \<noteq> Post_leases b"
    and "rs_status r \<notin> {200, 202}"
  shows "stored s' = stored s"
proof (cases req)
  case (Post_messages b)
  show ?thesis
  proof (cases "decode b")
    case (Inl x)
    with assms(1) Post_messages show ?thesis by (simp add: durable_handle_def)
  next
    case (Inr events)
    show ?thesis
    proof (cases "\<exists>e. events = [e]")
      case True
      then obtain e where e: "events = [e]" by blast
      obtain res s'' where run: "so_Publish R e s = (res, s'')" by fastforce
      with assms(1,3) Post_messages Inr e show ?thesis
        by (cases res) (auto simp: durable_handle_def respond_def dest: publish_error)
    next
      case False
      with assms(1) Post_messages Inr show ?thesis
        by (auto simp: durable_handle_def split: list.splits)
    qed
  qed
next
  case (Post_acks b)
  show ?thesis
  proof (cases "decode b")
    case (Inr a)
    obtain res s'' where "so_Ack R a s = (res, s'')" by fastforce
    with assms(1,3) Post_acks Inr show ?thesis
      by (cases res) (auto simp: durable_handle_def receipt_response_def respond_def dest: ack_error)
  qed (use assms(1) Post_acks in \<open>simp add: durable_handle_def\<close>)
next
  case (Post_nacks b)
  show ?thesis
  proof (cases "decode b")
    case (Inr n)
    obtain res s'' where "so_Nack R n s = (res, s'')" by fastforce
    with assms(1,3) Post_nacks Inr show ?thesis
      by (cases res) (auto simp: durable_handle_def receipt_response_def respond_def dest: nack_error)
  qed (use assms(1) Post_nacks in \<open>simp add: durable_handle_def\<close>)
qed (use assms(1,2) in \<open>simp_all add: durable_handle_def\<close>)

end

text \<open>The durable broker as a \<^verbatim>\<open>ReliableStore\<close>, with the inputs of one request.\<close>

definition broker_ops :: "'db env \<Rightarrow> op_in \<Rightarrow> 'db lease_in list \<Rightarrow> int option \<Rightarrow> 'db broker store_ops" where
  "broker_ops E i xs fsize =
     \<lparr>so_Publish = (\<lambda>e d. PublishContext E d i e),
      so_Lease = (\<lambda>wait d. Lease E wait xs d),
      so_Ack = (\<lambda>a d. Ack E d i a),
      so_Nack = (\<lambda>n d. Nack E d i n),
      so_Snapshot = (\<lambda>d. Snapshot E d i fsize)\<rparr>"

interpretation durable_store: reliable_store "broker_ops E i xs fsize" b_db
  by unfold_locales (auto simp: broker_ops_def dest: Publish_err Ack_err Nack_err)

section \<open>Properties\<close>

text \<open>
  The volatile queue over HTTP. After any operations, a request changes the waiting
  events exactly as its response says: a fresh 202 appends the event, a 200 to a receive
  hands out the oldest one, and any other response changes nothing.
\<close>

theorem memory_http_effect:
  assumes "NewMemory capacity dedup ttl = Some q0" and "mem_run enc sha ops q0 = q"
    and "memory_handle (Mem_Publish enc sha now) (Mem_Receive now') Mem_Stats req q = (r, q')"
  shows "mqueue q' = (case (req, rs_body r) of
      (MPost_messages (Inr [e], _), Publish_response _ False) \<Rightarrow> mqueue q @ [e]
    | (MPost_receive, Receive_response _) \<Rightarrow> tl (mqueue q)
    | _ \<Rightarrow> mqueue q)"
proof -
  have "mem_wf q" using mem_run_wf [OF NewMemory_wf(1) [OF assms(1)]] assms(2) by blast
  from memory_store.handle_contents [OF this assms(3)] show ?thesis
    by (simp add: memory_store.effect_def)
qed

theorem memory_http_effect_witness:
  "\<exists>q'. memory_handle (Mem_Publish (\<lambda>e. Some ''x'') (\<lambda>b. b) 0) (Mem_Receive 0) Mem_Stats
     (MPost_messages (Inr [mem_event], Inl Body_eof)) (the (NewMemory 1 2 10))
       = (respond 202 (Publish_response [''e''] False), q') \<and> mqueue q' = [mem_event]"
proof -
  let ?q = "the (NewMemory 1 2 10)"
  have q: "NewMemory 1 2 10 = Some ?q" by (simp add: mem_demo)
  have id: "e_EventID mem_event = ''e''" by (simp add: mem_event_def)
  have "fst (Mem_Publish (\<lambda>e. Some ''x'') (\<lambda>b. b) 0 mem_event ?q) = Inr False"
    by (simp add: Mem_Publish_def mem_event_valid MaxRequestBytes_def mem_demo Publish_locked_def)
  then obtain q' where pub: "Mem_Publish (\<lambda>e. Some ''x'') (\<lambda>b. b) 0 mem_event ?q = (Inr False, q')"
    by (metis prod.collapse)
  then have run: "memory_handle (Mem_Publish (\<lambda>e. Some ''x'') (\<lambda>b. b) 0) (Mem_Receive 0) Mem_Stats
     (MPost_messages (Inr [mem_event], Inl Body_eof)) ?q = (respond 202 (Publish_response [''e''] False), q')"
    by (simp add: memory_handle_def mem_event_valid memory_publish_response_def id)
  have "mem_run (\<lambda>e. Some ''x'') (\<lambda>b. b) [] ?q = ?q" by (simp add: mem_run_def)
  from memory_http_effect [OF q this run] NewMemory_wf(4) [OF q] run show ?thesis
    by (simp add: respond_def)
qed

text \<open>
  What a success says: the operation the request asked for was carried out on the broker, from
  the state before the request to the state after it, and the response shows its result.
\<close>

definition carried_out :: "'db env \<Rightarrow> op_in \<Rightarrow> 'db lease_in list \<Rightarrow> int option \<Rightarrow> durable_request \<Rightarrow>
    'db broker \<Rightarrow> response \<Rightarrow> 'db broker \<Rightarrow> bool" where
  "carried_out E i xs fsize req d r d' \<longleftrightarrow> (case req of
     Get_health \<Rightarrow> (\<exists>x. Snapshot E d i fsize = Inr x \<and> d' = d \<and> r = respond 200 Ok_body)
   | Get_stats \<Rightarrow> (\<exists>x. Snapshot E d i fsize = Inr x \<and> d' = d \<and> r = respond 200 (Snapshot_body x))
   | Post_messages b \<Rightarrow> (\<exists>e dup. b = (Inr [e], Inl Body_eof) \<and> PublishContext E d i e = (Inr dup, d')
       \<and> r = respond 202 (Publish_response [e_EventID e] dup))
   | Post_receive \<Rightarrow> False
   | Post_leases b \<Rightarrow> (\<exists>wait got. b = (Inr wait, Inl Body_eof) \<and> wait \<in> {0..MaxWait div Millisecond}
       \<and> Lease E (wait * Millisecond) xs d = (Some (Inr got), d')
       \<and> r = (case got of None \<Rightarrow> respond 204 No_body | Some dl \<Rightarrow> respond 200 (Delivery_body dl)))
   | Post_acks b \<Rightarrow> (\<exists>a dup. b = (Inr a, Inl Body_eof) \<and> Ack E d i a = (Inr dup, d')
       \<and> r = respond 200 (Receipt_response (a_EventID a) dup))
   | Post_nacks b \<Rightarrow> (\<exists>n dup. b = (Inr n, Inl Body_eof) \<and> Nack E d i n = (Inr dup, d')
       \<and> r = respond 200 (Receipt_response (n_EventID n) dup)))"

text \<open>The operation the request asked for failed with \<open>err\<close>.\<close>

definition operation_failed :: "'db env \<Rightarrow> op_in \<Rightarrow> 'db lease_in list \<Rightarrow> int option \<Rightarrow> durable_request \<Rightarrow>
    'db broker \<Rightarrow> queue_error \<Rightarrow> 'db broker \<Rightarrow> bool" where
  "operation_failed E i xs fsize req d err d' \<longleftrightarrow> (case req of
     Get_health \<Rightarrow> Snapshot E d i fsize = Inl err \<and> d' = d
   | Get_stats \<Rightarrow> Snapshot E d i fsize = Inl err \<and> d' = d
   | Post_messages b \<Rightarrow> (\<exists>e. b = (Inr [e], Inl Body_eof) \<and> PublishContext E d i e = (Inl err, d'))
   | Post_receive \<Rightarrow> False
   | Post_leases b \<Rightarrow> (\<exists>wait. b = (Inr wait, Inl Body_eof) \<and> wait \<in> {0..MaxWait div Millisecond}
       \<and> Lease E (wait * Millisecond) xs d = (Some (Inl err), d'))
   | Post_acks b \<Rightarrow> (\<exists>a. b = (Inr a, Inl Body_eof) \<and> Ack E d i a = (Inl err, d'))
   | Post_nacks b \<Rightarrow> (\<exists>n. b = (Inr n, Inl Body_eof) \<and> Nack E d i n = (Inl err, d')))"

text \<open>The request does not name an operation.\<close>

definition bad_request :: "durable_request \<Rightarrow> bool" where
  "bad_request req \<longleftrightarrow> (case req of
     Get_health \<Rightarrow> False
   | Get_stats \<Rightarrow> False
   | Post_messages b \<Rightarrow> \<not> (\<exists>e. b = (Inr [e], Inl Body_eof))
   | Post_receive \<Rightarrow> True
   | Post_leases b \<Rightarrow> \<not> (\<exists>wait \<in> {0..MaxWait div Millisecond}. b = (Inr wait, Inl Body_eof))
   | Post_acks b \<Rightarrow> \<not> (\<exists>a. b = (Inr a, Inl Body_eof))
   | Post_nacks b \<Rightarrow> \<not> (\<exists>n. b = (Inr n, Inl Body_eof)))"

lemma carried_out_status: "carried_out E i xs fsize req d r d' \<Longrightarrow> rs_status r \<in> {200, 202, 204}"
  by (cases req) (auto simp: carried_out_def respond_def split: option.splits)

lemma decode_none: "decode b = Inl r \<Longrightarrow> b \<noteq> (Inr v, Inl Body_eof)"
  by (auto simp: decode_def)

lemmas honest_defs = durable_handle_def broker_ops_def carried_out_def operation_failed_def bad_request_def

lemma decode_ok [simp]: "decode (Inr v, Inl Body_eof) = Inr v"
  by (simp add: decode_def)

lemma lease_outcomes:
  obtains "out = None" | err where "out = Some (Inl err)" | "out = Some (Inr None)"
    | dl where "out = Some (Inr (Some dl))"
  by (metis option.exhaust sum.exhaust)

text \<open>Every answer is one of the three: carried out, refused as it stands, or failed.\<close>

lemma durable_answer:
  assumes "durable_handle (broker_ops E i xs fsize) req d = (Some r, d')"
  shows "carried_out E i xs fsize req d r d'
    \<or> rs_status r \<in> {400, 410, 413} \<and> bad_request req \<and> d' = d
    \<or> (\<exists>err. operation_failed E i xs fsize req d err d' \<and> r = durableError err)"
proof (cases req)
  case (Post_messages b)
  show ?thesis
  proof (cases "decode b")
    case (Inl x)
    with assms Post_messages decode_failure [OF Inl] decode_none [OF Inl] show ?thesis
      by (auto simp: honest_defs)
  next
    case (Inr events)
    note b = decode_whole [OF Inr]
    show ?thesis
    proof (cases "\<exists>e. events = [e]")
      case True
      then obtain e where e: "events = [e]" by blast
      with assms Post_messages Inr b show ?thesis by (auto simp: honest_defs split: prod.splits sum.splits)
    next
      case False
      then consider "events = []" | e1 e2 es where "events = e1 # e2 # es"
        by (cases events rule: remdups_adj.cases) auto
      then have "r = failure 400 ''invalid_request''" and "d' = d"
        using assms by (cases; simp add: durable_handle_def Post_messages Inr)+
      moreover have "bad_request req" using False by (simp add: bad_request_def Post_messages b)
      ultimately show ?thesis by (simp add: failure_def respond_def)
    qed
  qed
next
  case (Post_leases b)
  show ?thesis
  proof (cases "decode b")
    case (Inl x)
    with assms Post_leases decode_failure [OF Inl] decode_none [OF Inl] show ?thesis
      by (auto simp: honest_defs)
  next
    case (Inr wait)
    note b = decode_whole [OF Inr]
    obtain out d1 where run: "Lease E (wait * Millisecond) xs d = (out, d1)" by fastforce
    show ?thesis
    proof (cases "wait < 0 \<or> wait > MaxWait div Millisecond")
      case True
      with assms show ?thesis by (auto simp: honest_defs Post_leases b failure_def respond_def)
    next
      case False
      then have "wait \<in> {0..MaxWait div Millisecond}" by simp
      with False assms show ?thesis
        by (cases rule: lease_outcomes [of out]) (simp_all add: honest_defs Post_leases b run)
    qed
  qed
next
  case (Post_acks b)
  show ?thesis
  proof (cases "decode b")
    case (Inl x)
    with assms Post_acks decode_failure [OF Inl] decode_none [OF Inl] show ?thesis
      by (auto simp: honest_defs)
  next
    case (Inr a)
    with assms Post_acks decode_whole [OF Inr] show ?thesis
      by (auto simp: honest_defs receipt_response_def split: prod.splits sum.splits)
  qed
next
  case (Post_nacks b)
  show ?thesis
  proof (cases "decode b")
    case (Inl x)
    with assms Post_nacks decode_failure [OF Inl] decode_none [OF Inl] show ?thesis
      by (auto simp: honest_defs)
  next
    case (Inr n)
    with assms Post_nacks decode_whole [OF Inr] show ?thesis
      by (auto simp: honest_defs receipt_response_def split: prod.splits sum.splits)
  qed
next
  case Post_receive
  with assms show ?thesis by (auto simp: honest_defs failure_def respond_def)
qed (use assms in \<open>auto simp: honest_defs split: sum.splits\<close>)

text \<open>A lease call that hands out nothing leaves the database alone, if no other call comes between.\<close>

definition undisturbed :: "'db lease_in list \<Rightarrow> bool" where
  "undisturbed xs \<longleftrightarrow> (\<forall>x \<in> set xs. \<forall>d. b_db (l_between x d) = b_db d \<and> b_db (l_others x d) = b_db d)"

lemma Lease_undelivered:
  assumes "Lease E wait xs d = (Some res, d')" and "undisturbed xs" and "\<forall>dl. res \<noteq> Inr (Some dl)"
  shows "b_db d' = b_db d"
proof -
  have round: "b_db d1 = b_db d0"
    if "Lease_round E wait x d0 = (out, d1)" and "b_db (l_between x d0) = b_db d0" and "\<forall>dl. out \<noteq> Some (Inr (Some dl))"
    for x d0 d1 out
    using that tryLease_other [of E "l_between x d0" "l_try x"]
    by (auto simp: Lease_round_def split: option.splits sum.splits bool.splits prod.splits if_splits)
  have "b_db d' = b_db d" if "Lease_loop E wait xs d = (Some res, d')"
    using that assms(2)
  proof (induction xs arbitrary: d)
    case (Cons x xs)
    obtain out d1 where run: "Lease_round E wait x d = (out, d1)" by fastforce
    have x: "b_db (l_between x d) = b_db d" "b_db (l_others x d1) = b_db d1" and xs: "undisturbed xs"
      using Cons.prems(2) by (simp_all add: undisturbed_def)
    have out: "\<forall>dl. out \<noteq> Some (Inr (Some dl))" using Cons.prems(1) assms(3) run by auto
    from Cons.prems(1) Cons.IH [OF _ xs] x(2) round [OF run x(1) out] show ?case
      by (auto simp: run Let_def split: option.splits wake.splits)
  qed simp
  with assms(1) show ?thesis by (auto simp: Lease_def split: if_splits)
qed



text \<open>
  Long polls cannot starve the other requests. At most 32 lease handlers and 64 handlers
  run at once, the counters are exact, and a request that is not a lease is turned away only
  when at least 32 other such requests are running.
\<close>

lemma polls_leave_room:
  assumes "handlers_running leases others g"
  shows "leases \<le> 32 \<and> leases + others \<le> 64 \<and> g_slots g = leases + others
    \<and> (others < 32 \<longrightarrow> (\<exists>g'. enter_handler False g = Inr g'))
    \<and> (leases < 32 \<longrightarrow> others < 32 \<longrightarrow> (\<exists>g'. enter_handler True g = Inr g'))"
  using handlers_running_counts [OF assms] by (auto simp: enter_handler_def)

end
