(* ===== verification/Client.thy ===== *)
theory Client
  imports Handlers
begin

text \<open>
  internal/queueclient/client.go: single-attempt HTTP operations on the queue. What the network
  and the JSON codec do is an argument of each operation; the result tells the caller whether
  to retry. The properties relate the client to the handlers of the queue.
\<close>

section \<open>Errors\<close>

text \<open>
  \<open>Http_error\<close> is the client's \<^verbatim>\<open>*Error\<close> with its status and the flag \<^verbatim>\<open>Temporary\<close>;
  \<open>Context_error\<close> the error of the caller's context, \<open>Plain_error\<close> any other error.
\<close>

datatype client_error =
  Http_error int bool
| Context_error queue_error
| Plain_error

definition Retryable :: "client_error \<Rightarrow> bool" where
  "Retryable err = (case err of Http_error _ temporary \<Rightarrow> temporary | _ \<Rightarrow> False)"

section \<open>The client\<close>

text \<open>A parsed URL, as \<^verbatim>\<open>url.Parse\<close> delivers it; \<open>None\<close> when it does not parse.\<close>

record url =
  u_Host :: string
  u_Scheme :: string
  u_User :: bool
  u_RawQuery :: string
  u_Fragment :: string
  u_Path :: string

record client =
  c_base :: string
  c_timeout :: int

text \<open>\<^verbatim>\<open>strings.TrimRight(base, "/")\<close>.\<close>

definition trim_slashes :: "string \<Rightarrow> string" where
  "trim_slashes s = rev (dropWhile (\<lambda>c. c = CHR ''/'') (rev s))"

definition New_client :: "string \<Rightarrow> url option \<Rightarrow> int \<Rightarrow> client option" where
  "New_client base parsed timeout = (case parsed of
     None \<Rightarrow> None
   | Some u \<Rightarrow>
       if u_Host u = [] \<or> (u_Scheme u \<noteq> ''http'' \<and> u_Scheme u \<noteq> ''https'') \<or> u_User u
          \<or> u_RawQuery u \<noteq> [] \<or> u_Fragment u \<noteq> [] \<or> (u_Path u \<noteq> [] \<and> u_Path u \<noteq> ''/'')
          \<or> timeout \<le> 0
       then None
       else Some \<lparr>c_base = trim_slashes base, c_timeout = timeout\<rparr>)"

text \<open>
  What happened to one HTTP exchange: the request could not be built, \<^verbatim>\<open>Do\<close> failed (with the
  error of the context at that time, if any), reading the body failed, or a response with its
  status and its complete body arrived.
\<close>

datatype exchange =
  Not_built
| Do_failed "queue_error option"
| Read_failed
| Answered int bytes

definition request :: "exchange \<Rightarrow> client_error + (int \<times> bytes)" where
  "request x = (case x of
     Not_built \<Rightarrow> Inl Plain_error
   | Do_failed (Some e) \<Rightarrow> Inl (Context_error e)
   | Do_failed None \<Rightarrow> Inl (Http_error 0 True)
   | Read_failed \<Rightarrow> Inl (Http_error 0 True)
   | Answered status body \<Rightarrow>
       (let b = take (nat (MaxRequestBytes + 1)) body in
        if int (length b) > MaxRequestBytes then Inl (Http_error 0 False)
        else if status \<noteq> 202 \<and> status \<noteq> 200 \<and> status \<noteq> 204
        then Inl (Http_error status (status = 408 \<or> status = 429 \<or> status \<ge> 500))
        else Inr (status, b)))"

text \<open>
  The codec: \<open>jc_publish\<close> encodes the publish request, the other fields are \<^verbatim>\<open>json.Unmarshal\<close> on
  the responses, \<open>None\<close> when it fails.
\<close>

record codec =
  jc_publish :: "event \<Rightarrow> bytes option"
  jc_accepted :: "bytes \<Rightarrow> string list option"
  jc_events :: "bytes \<Rightarrow> event list option"
  jc_delivery :: "bytes \<Rightarrow> delivery option"
  jc_receipt :: "bytes \<Rightarrow> string option"

definition Client_Publish :: "codec \<Rightarrow> event \<Rightarrow> exchange \<Rightarrow> client_error + unit" where
  "Client_Publish J e x = (case jc_publish J e of
     None \<Rightarrow> Inl Plain_error
   | Some b \<Rightarrow>
       if int (length b) > MaxRequestBytes then Inl (Http_error 0 False)
       else sbind (request x) (\<lambda>(status, b).
         if status \<noteq> 202 \<or> jc_accepted J b \<noteq> Some [e_EventID e]
         then Inl (Http_error status True) else Inr ()))"

definition Client_Receive :: "codec \<Rightarrow> exchange \<Rightarrow> client_error + event option" where
  "Client_Receive J x = sbind (request x) (\<lambda>(status, b).
     if status = 204 then Inr None
     else if status \<noteq> 200 then Inl Plain_error
     else case jc_events J b of
         Some [e] \<Rightarrow> (case Event_Validate e of Inl _ \<Rightarrow> Inl Plain_error | Inr _ \<Rightarrow> Inr (Some e))
       | _ \<Rightarrow> Inl Plain_error)"

definition lease_response :: "codec \<Rightarrow> bool \<Rightarrow> exchange \<Rightarrow> client_error + delivery option" where
  "lease_response J validate x = sbind (request x) (\<lambda>(status, b).
     if status = 204 then Inr None
     else case (if status \<noteq> 200 then None else jc_delivery J b) of
         None \<Rightarrow> Inl (Http_error status True)
       | Some dl \<Rightarrow>
           if (validate \<and> Event_Validate (d_Event dl) \<noteq> Inr ())
              \<or> e_EventID (d_Event dl) = [] \<or> length (e_EventID (d_Event dl)) > 128
              \<or> length (d_Token dl) \<noteq> 32 \<or> is_zero (d_ExpiresAt dl) \<or> d_Attempt dl = 0
           then Inl (Http_error status True)
           else Inr (Some dl))"

definition bad_lease_wait :: "client \<Rightarrow> int \<Rightarrow> bool" where
  "bad_lease_wait c wait \<longleftrightarrow> wait < 0 \<or> wait > MaxWait \<or> wait \<ge> c_timeout c"

definition Client_Lease :: "codec \<Rightarrow> client \<Rightarrow> int \<Rightarrow> exchange \<Rightarrow> client_error + delivery option" where
  "Client_Lease J c wait x =
     (if bad_lease_wait c wait then Inl Plain_error else lease_response J True x)"

definition LeaseForProcessing :: "codec \<Rightarrow> client \<Rightarrow> int \<Rightarrow> exchange \<Rightarrow> client_error + delivery option" where
  "LeaseForProcessing J c wait x =
     (if bad_lease_wait c wait then Inl Plain_error else lease_response J False x)"

definition client_receipt :: "codec \<Rightarrow> string \<Rightarrow> bytes option \<Rightarrow> exchange \<Rightarrow> client_error + unit" where
  "client_receipt J eid encoded x = (case encoded of
     None \<Rightarrow> Inl Plain_error
   | Some _ \<Rightarrow> sbind (request x) (\<lambda>(status, b).
       if status \<noteq> 200 \<or> jc_receipt J b \<noteq> Some eid then Inl (Http_error status True) else Inr ()))"

definition Client_Ack :: "codec \<Rightarrow> ack_request \<Rightarrow> bytes option \<Rightarrow> exchange \<Rightarrow> client_error + unit" where
  "Client_Ack J a encoded x = client_receipt J (a_EventID a) encoded x"

definition Client_Nack :: "codec \<Rightarrow> nack_request \<Rightarrow> bytes option \<Rightarrow> exchange \<Rightarrow> client_error + unit" where
  "Client_Nack J n encoded x = client_receipt J (n_EventID n) encoded x"

section \<open>Lemmas\<close>

lemma request_ok:
  "request x = Inr (status, b) \<longleftrightarrow>
     x = Answered status b \<and> int (length b) \<le> MaxRequestBytes \<and> status \<in> {200, 202, 204}"
proof (cases x)
  case (Answered st body)
  have "int (length (take (nat (MaxRequestBytes + 1)) body)) > MaxRequestBytes \<longleftrightarrow>
      int (length body) > MaxRequestBytes" by (auto simp: MaxRequestBytes_def)
  moreover have "take (nat (MaxRequestBytes + 1)) body = body" if "int (length body) \<le> MaxRequestBytes"
    using that by (simp add: MaxRequestBytes_def)
  ultimately show ?thesis using Answered by (auto simp: request_def Let_def)
qed (auto simp: request_def split: option.splits)

text \<open>The wire between handler and client: the response of the handler arrives, encoded.\<close>

definition deliver_response :: "(payload \<Rightarrow> bytes) \<Rightarrow> response \<Rightarrow> exchange" where
  "deliver_response enc r = Answered (rs_status r) (enc (rs_body r))"

definition permanent :: "queue_error \<Rightarrow> bool" where
  "permanent err \<longleftrightarrow> err = ErrConflict \<or> err = ErrStaleLease \<or> (\<exists>why. err = ErrInvalid why)"

lemma request_durableError:
  assumes "int (length (enc (rs_body (durableError err)))) \<le> MaxRequestBytes"
  shows "request (deliver_response enc (durableError err))
    = Inl (Http_error (rs_status (durableError err)) (\<not> permanent err))"
proof -
  have "take (nat (MaxRequestBytes + 1)) (enc (rs_body (durableError err))) = enc (rs_body (durableError err))"
    using assms by (simp add: MaxRequestBytes_def)
  with assms show ?thesis
    by (cases err) (simp_all add: request_def deliver_response_def durableError_def failure_def
        respond_def permanent_def Let_def)
qed

lemma handle_publish:
  "durable_handle R (Post_messages (Inr [e], Inl Body_eof)) s = (case so_Publish R e s of
     (Inl err, s') \<Rightarrow> (Some (durableError err), s')
   | (Inr dup, s') \<Rightarrow> (Some (respond 202 (Publish_response [e_EventID e] dup)), s'))"
  by (simp add: durable_handle_def decode_def)

lemma handle_ack:
  "durable_handle R (Post_acks (Inr a, Inl Body_eof)) s = (case so_Ack R a s of
     (res, s') \<Rightarrow> (Some (receipt_response (a_EventID a) res), s'))"
  by (simp add: durable_handle_def decode_def)

section \<open>Properties\<close>

text \<open>
  The client retries exactly the failures that may pass. For every error of the broker,
  the error the client reports for the handler's response is retryable if and only if the
  broker's error is not an invalid request, a conflicting identity or a stale lease.
\<close>

theorem retries_transient_errors:
  assumes "int (length (enc (rs_body (durableError err)))) \<le> MaxRequestBytes"
  shows "\<exists>e. request (deliver_response enc (durableError err)) = Inl e
    \<and> (Retryable e \<longleftrightarrow> err \<notin> {ErrConflict, ErrStaleLease} \<union> range ErrInvalid)"
  using request_durableError [of enc err] assms by (auto simp: Retryable_def permanent_def)

theorem retries_transient_errors_witness:
  "\<exists>e. request (deliver_response (\<lambda>p. ''{}'') (durableError ErrFull)) = Inl e \<and> Retryable e"
  using retries_transient_errors [of "\<lambda>p. ''{}''" ErrFull] by (auto simp: MaxRequestBytes_def)

text \<open>
  C21: a publish confirmed to the client is stored. When the response of the handler reaches
  the client and its codec reads back the accepted identities, \<open>Publish\<close> returns without error
  if and only if the broker committed the event or already had it.
\<close>

theorem publish_confirmed:
  assumes "durable_handle (broker_ops E i xs fsize) (Post_messages (Inr [e], Inl Body_eof)) d = (Some r, d')"
    and "jc_publish J e = Some b" and "int (length b) \<le> MaxRequestBytes"
    and "\<forall>ids dup. rs_body r = Publish_response ids dup \<longrightarrow> jc_accepted J (enc (rs_body r)) = Some ids"
    and "int (length (enc (rs_body r))) \<le> MaxRequestBytes"
  shows "Client_Publish J e (deliver_response enc r) = Inr () \<longleftrightarrow>
    (\<exists>dup. PublishContext E d i e = (Inr dup, d'))"
proof -
  obtain res d1 where run: "PublishContext E d i e = (res, d1)" by fastforce
  show ?thesis
  proof (cases res)
    case (Inl err)
    with assms(1) run have "r = durableError err" by (simp add: handle_publish broker_ops_def)
    with request_durableError [of enc err] assms(2,3,5) Inl run show ?thesis
      by (simp add: Client_Publish_def)
  next
    case (Inr dup)
    with assms(1) run have r: "r = respond 202 (Publish_response [e_EventID e] dup)" and "d' = d1"
      by (auto simp: handle_publish broker_ops_def)
    moreover have "request (deliver_response enc r) = Inr (202, enc (rs_body r))"
      using assms(5) by (simp add: request_ok deliver_response_def r respond_def)
    ultimately show ?thesis
      using assms(2-4) Inr run by (simp add: Client_Publish_def) (simp add: r respond_def)
  qed
qed

text \<open>A codec for the witnesses: it knows the responses about the demonstration event.\<close>

definition demo_codec :: codec where
  "demo_codec = \<lparr>jc_publish = (\<lambda>e. Some ''{}''), jc_accepted = (\<lambda>b. Some [''e1'']),
     jc_events = (\<lambda>b. None), jc_delivery = (\<lambda>b. None), jc_receipt = (\<lambda>b. Some ''e1'')\<rparr>"

lemma demo_publish_http:
  "durable_handle (broker_ops demo_env (demo_in 1) [] None)
     (Post_messages (Inr [demo_event], Inl Body_eof)) demo_open
   = (Some (respond 202 (Publish_response [''e1''] False)), demo_published)"
  by (simp add: handle_publish broker_ops_def demo_publish demo_valid)

lemma demo_ack_http:
  "durable_handle (broker_ops demo_env (demo_in 3) [] None) (Post_acks (Inr demo_ack, Inl Body_eof)) demo_leased
   = (Some (respond 200 (Receipt_response ''e1'' False)), demo_acked)"
  by (simp add: handle_ack broker_ops_def demo_done receipt_response_def demo_ack_def [symmetric])
     (simp add: demo_ack_def)

theorem publish_confirmed_witness:
  "Client_Publish demo_codec demo_event
     (deliver_response (\<lambda>p. ''{}'') (respond 202 (Publish_response [''e1''] False))) = Inr ()"
proof -
  have "jc_publish demo_codec demo_event = Some ''{}''" by (simp add: demo_codec_def)
  from publish_confirmed [OF demo_publish_http this, of "\<lambda>p. ''{}''"] demo_publish show ?thesis
    by (simp add: MaxRequestBytes_def demo_codec_def respond_def ex_bool_eq)
qed

text \<open>
  An ACK or NACK confirmed to the client has taken effect: when the response of the
  handler reaches the client, \<open>Ack\<close> returns without error if and only if the broker accepted
  it (or had accepted it before), so that a collector that sees success may forget the event.
\<close>

theorem ack_confirmed:
  assumes "durable_handle (broker_ops E i xs fsize) (Post_acks (Inr a, Inl Body_eof)) d = (Some r, d')"
    and "\<forall>eid dup. rs_body r = Receipt_response eid dup \<longrightarrow> jc_receipt J (enc (rs_body r)) = Some eid"
    and "int (length (enc (rs_body r))) \<le> MaxRequestBytes"
  shows "Client_Ack J a (Some b) (deliver_response enc r) = Inr () \<longleftrightarrow>
    (\<exists>dup. Ack E d i a = (Inr dup, d'))"
proof -
  obtain res d1 where run: "Ack E d i a = (res, d1)" by fastforce
  show ?thesis
  proof (cases res)
    case (Inl err)
    with assms(1) run have "r = durableError err" by (simp add: handle_ack broker_ops_def receipt_response_def)
    with request_durableError [of enc err] assms(3) Inl run show ?thesis
      by (simp add: Client_Ack_def client_receipt_def)
  next
    case (Inr dup)
    with assms(1) run have r: "r = respond 200 (Receipt_response (a_EventID a) dup)" and "d' = d1"
      by (auto simp: handle_ack broker_ops_def receipt_response_def)
    moreover have "request (deliver_response enc r) = Inr (200, enc (rs_body r))"
      using assms(3) by (simp add: request_ok deliver_response_def r respond_def)
    ultimately show ?thesis
      using assms(2) Inr run by (simp add: Client_Ack_def client_receipt_def) (simp add: r respond_def)
  qed
qed

theorem ack_confirmed_witness:
  "Client_Ack demo_codec demo_ack (Some ''{}'')
     (deliver_response (\<lambda>p. ''{}'') (respond 200 (Receipt_response ''e1'' False))) = Inr ()"
  using ack_confirmed [OF demo_ack_http, of demo_codec "\<lambda>p. ''{}''" "''{}''"] demo_done
  by (simp add: MaxRequestBytes_def demo_codec_def respond_def ex_bool_eq)

end
