(* ===== verification/Config.thy ===== *)
theory Config
  imports Client
begin

text \<open>
  internal/config: the configuration of the binaries, from flags, environment and defaults to
  the checks on the result. Package \<^verbatim>\<open>flag\<close> is modelled as the code uses it (all flags take a
  value); the textual syntax of numbers and durations is an argument (\<open>value_syntax\<close>).
\<close>

section \<open>Flag sets\<close>

text \<open>
  \<^verbatim>\<open>strconv.ParseInt\<close> and \<^verbatim>\<open>ParseUint\<close> (base 0, 64 bits), \<^verbatim>\<open>ParseFloat\<close> and \<^verbatim>\<open>time.ParseDuration\<close>;
  \<open>None\<close> is their error.
\<close>

record value_syntax =
  vs_int :: "string \<Rightarrow> int option"
  vs_uint :: "string \<Rightarrow> u64 option"
  vs_float :: "string \<Rightarrow> f64 option"
  vs_duration :: "string \<Rightarrow> int option"

text \<open>A flag: its name and what setting it to a text does to the configuration.\<close>

type_synonym 'c flag = "string \<times> (string \<Rightarrow> 'c \<Rightarrow> 'c option)"

definition StringVar :: "((string \<Rightarrow> string) \<Rightarrow> 'c \<Rightarrow> 'c) \<Rightarrow> string \<Rightarrow> 'c flag" where
  "StringVar upd name = (name, \<lambda>v c. Some (upd (\<lambda>_. v) c))"

definition ValueVar :: "(string \<Rightarrow> 'v option) \<Rightarrow> (('v \<Rightarrow> 'v) \<Rightarrow> 'c \<Rightarrow> 'c) \<Rightarrow> string \<Rightarrow> 'c flag" where
  "ValueVar parse upd name = (name, \<lambda>v c. map_option (\<lambda>x. upd (\<lambda>_. x) c) (parse v))"

datatype flag_error = Bad_syntax | Help_requested | Undefined_flag | Missing_argument | Bad_value

text \<open>The text after the dashes: the name and, behind the first \<^verbatim>\<open>=\<close>, the value.\<close>

definition split_flag :: "string \<Rightarrow> string \<times> string option" where
  "split_flag s = (if CHR ''='' \<in> set s
     then (takeWhile (\<lambda>c. c \<noteq> CHR ''='') s, Some (tl (dropWhile (\<lambda>c. c \<noteq> CHR ''='') s)))
     else (s, None))"

text \<open>\<^verbatim>\<open>FlagSet.Parse\<close>: the configuration and the arguments left over.\<close>

fun parse_args :: "'c flag list \<Rightarrow> string list \<Rightarrow> 'c \<Rightarrow> flag_error + ('c \<times> string list)" where
  "parse_args fs [] c = Inr (c, [])"
| "parse_args fs (s # args) c =
     (if length s < 2 \<or> hd s \<noteq> CHR ''-'' then Inr (c, s # args)
      else if s = ''--'' then Inr (c, args)
      else let body = drop (if s ! 1 = CHR ''-'' then 2 else 1) s in
        if body = [] \<or> hd body = CHR ''-'' \<or> hd body = CHR ''='' then Inl Bad_syntax
        else case map_of fs (fst (split_flag body)) of
            None \<Rightarrow> Inl (if fst (split_flag body) = ''help'' \<or> fst (split_flag body) = ''h''
                         then Help_requested else Undefined_flag)
          | Some setter \<Rightarrow>
              (case snd (split_flag body) of
                 Some v \<Rightarrow> (case setter v c of None \<Rightarrow> Inl Bad_value | Some c' \<Rightarrow> parse_args fs args c')
               | None \<Rightarrow> (case args of
                     [] \<Rightarrow> Inl Missing_argument
                   | v # rest \<Rightarrow> (case setter v c of None \<Rightarrow> Inl Bad_value
                       | Some c' \<Rightarrow> parse_args fs rest c'))))"

datatype config_error =
  Flag_error flag_error
| Unexpected_arguments
| Shutdown_not_positive
| Bad_settings
| Bad_listen
| Bad_mode
| Bad_durable queue_error
| Bad_environment string

definition flag_result :: "flag_error + 'a \<Rightarrow> config_error + 'a" where
  "flag_result r = (case r of Inl e \<Rightarrow> Inl (Flag_error e) | Inr x \<Rightarrow> Inr x)"

section \<open>Environment\<close>

definition upper :: "char \<Rightarrow> char" where
  "upper c = (if CHR ''a'' \<le> c \<and> c \<le> CHR ''z'' then char_of (of_char c - 32 :: nat) else c)"

definition env_name :: "string \<Rightarrow> string \<Rightarrow> string" where
  "env_name prefix name = prefix @ map (\<lambda>c. upper (if c = CHR ''-'' then CHR ''_'' else c)) name"

text \<open>\<^verbatim>\<open>VisitAll\<close> goes through the flags in the order of their names; the first error stops it.\<close>

fun set_from_env :: "(string \<rightharpoonup> string) \<Rightarrow> string \<Rightarrow> 'c flag list \<Rightarrow> 'c \<Rightarrow> config_error + 'c" where
  "set_from_env env prefix [] c = Inr c"
| "set_from_env env prefix ((name, setter) # fs) c =
     (case env (env_name prefix name) of
        None \<Rightarrow> set_from_env env prefix fs c
      | Some v \<Rightarrow> (case setter v c of
          None \<Rightarrow> Inl (Bad_environment name)
        | Some c' \<Rightarrow> set_from_env env prefix fs c'))"

definition VisitAll_env :: "(string \<rightharpoonup> string) \<Rightarrow> string \<Rightarrow> 'c flag list \<Rightarrow> 'c \<Rightarrow> config_error + 'c" where
  "VisitAll_env env prefix fs c = set_from_env env prefix (sort_key fst fs) c"

definition Getenv :: "(string \<rightharpoonup> string) \<Rightarrow> string \<Rightarrow> string" where
  "Getenv env name = (case env name of None \<Rightarrow> [] | Some v \<Rightarrow> v)"

section \<open>Addresses\<close>

definition first_index :: "'a \<Rightarrow> 'a list \<Rightarrow> nat option" where
  "first_index c s = (if c \<in> set s then Some (length (takeWhile (\<lambda>x. x \<noteq> c) s)) else None)"

definition last_index :: "'a \<Rightarrow> 'a list \<Rightarrow> nat option" where
  "last_index c s = (if c \<in> set s then Some (length s - 1 - length (takeWhile (\<lambda>x. x \<noteq> c) (rev s))) else None)"

text \<open>Whether \<^verbatim>\<open>net.SplitHostPort\<close> succeeds.\<close>

definition SplitHostPort_ok :: "string \<Rightarrow> bool" where
  "SplitHostPort_ok s = (case last_index CHR '':'' s of
     None \<Rightarrow> False
   | Some i \<Rightarrow>
       if hd s = CHR ''['' then
         (case first_index CHR '']'' s of
            None \<Rightarrow> False
          | Some e \<Rightarrow> e + 1 = i \<and> CHR ''['' \<notin> set (drop 1 s) \<and> CHR '']'' \<notin> set (drop (e + 1) s))
       else CHR '':'' \<notin> set (take i s) \<and> CHR ''['' \<notin> set s \<and> CHR '']'' \<notin> set s)"

section \<open>Floating point\<close>

text \<open>
  Go's comparison of \<^verbatim>\<open>float64\<close>: false as soon as one side is NaN; \<open>Inf True\<close> is the positive
  infinity. The constant 0.001 is the nearest float64.
\<close>

fun f64_less :: "f64 \<Rightarrow> f64 \<Rightarrow> bool" where
  "f64_less NaN _ = False"
| "f64_less _ NaN = False"
| "f64_less (Inf a) (Inf b) = (\<not> a \<and> b)"
| "f64_less (Inf a) (Finite y) = (\<not> a)"
| "f64_less (Finite x) (Inf b) = b"
| "f64_less (Finite x) (Finite y) = (x < y)"

definition rate_floor :: rat where
  "rate_floor = Fract 1152921504606847 1152921504606846976"

definition bad_rate :: "f64 \<Rightarrow> bool" where
  "bad_rate r \<longleftrightarrow> f64_less r (Finite rate_floor) \<or> f64_less (Finite 1000000) r \<or> is_nan r \<or> is_inf r"

section \<open>Streamer\<close>

record common =
  cm_LogLevel :: string
  cm_ShutdownTimeout :: int

record streamer_config =
  sc_Common :: common
  sc_CSV :: string
  sc_QueueURL :: string
  sc_Rate :: f64
  sc_Count :: u64
  sc_HTTPTimeout :: int
  sc_RetryMin :: int
  sc_RetryMax :: int

definition common_flags :: "value_syntax \<Rightarrow> ((common \<Rightarrow> common) \<Rightarrow> 'c \<Rightarrow> 'c) \<Rightarrow> 'c flag list" where
  "common_flags S upd =
     [StringVar (\<lambda>f. upd (cm_LogLevel_update f)) ''log-level'',
      ValueVar (vs_duration S) (\<lambda>f. upd (cm_ShutdownTimeout_update f)) ''shutdown-timeout'']"

definition default_common :: common where
  "default_common = \<lparr>cm_LogLevel = ''info'', cm_ShutdownTimeout = 20 * Second\<rparr>"

definition valid_common :: "string list \<Rightarrow> common \<Rightarrow> config_error + unit" where
  "valid_common rest c =
     (if rest \<noteq> [] then Inl Unexpected_arguments
      else if cm_ShutdownTimeout c \<le> 0 then Inl Shutdown_not_positive else Inr ())"

definition streamer_flags :: "value_syntax \<Rightarrow> streamer_config flag list" where
  "streamer_flags S = common_flags S sc_Common_update @
     [StringVar sc_CSV_update ''csv'',
      StringVar sc_QueueURL_update ''queue-url'',
      ValueVar (vs_float S) sc_Rate_update ''rate'',
      ValueVar (vs_uint S) sc_Count_update ''count'',
      ValueVar (vs_duration S) sc_HTTPTimeout_update ''http-timeout'',
      ValueVar (vs_duration S) sc_RetryMin_update ''retry-min'',
      ValueVar (vs_duration S) sc_RetryMax_update ''retry-max'']"

definition default_streamer :: streamer_config where
  "default_streamer =
     \<lparr>sc_Common = default_common, sc_CSV = ''Problemstatement/dcgm_metrics_20250718_134233.csv'',
      sc_QueueURL = ''http://127.0.0.1:8081'', sc_Rate = Finite 10, sc_Count = 0,
      sc_HTTPTimeout = 3 * Second, sc_RetryMin = 100 * Millisecond, sc_RetryMax = 2 * Second\<rparr>"

definition ParseStreamer :: "value_syntax \<Rightarrow> string list \<Rightarrow> config_error + streamer_config" where
  "ParseStreamer S args =
     sbind (flag_result (parse_args (streamer_flags S) args default_streamer)) (\<lambda>(c, rest).
     sbind (valid_common rest (sc_Common c)) (\<lambda>_.
     if sc_CSV c = [] \<or> bad_rate (sc_Rate c) \<or> sc_HTTPTimeout c \<le> 0 \<or> sc_RetryMin c \<le> 0
        \<or> sc_RetryMax c < sc_RetryMin c \<or> sc_RetryMax c > Minute
     then Inl Bad_settings else Inr c))"

section \<open>Queue\<close>

record queue_config =
  qc_Mode :: string
  qc_Durable :: durable_options
  qc_Common :: common
  qc_Listen :: string
  qc_Capacity :: int
  qc_DedupCapacity :: int
  qc_DedupTTL :: int

definition queue_flags :: "value_syntax \<Rightarrow> queue_config flag list" where
  "queue_flags S =
     [StringVar qc_Mode_update ''mode'',
      StringVar (\<lambda>f. qc_Durable_update (o_Path_update f)) ''db'',
      ValueVar (vs_int S) (\<lambda>f. qc_Durable_update (o_QuarantineCapacity_update f)) ''quarantine-capacity'',
      ValueVar (vs_int S) (\<lambda>f. qc_Durable_update (o_MaxPayloadBytes_update f)) ''max-payload-bytes'',
      ValueVar (vs_int S) (\<lambda>f. qc_Durable_update (o_MaxLogicalBytes_update f)) ''max-logical-bytes'',
      ValueVar (vs_duration S) (\<lambda>f. qc_Durable_update (o_LeaseDuration_update f)) ''lease-duration'',
      ValueVar (vs_duration S) (\<lambda>f. qc_Durable_update (o_CompletionTTL_update f)) ''completion-ttl'',
      ValueVar (vs_duration S) (\<lambda>f. qc_Durable_update (o_OpenTimeout_update f)) ''db-open-timeout'',
      ValueVar (vs_duration S) (\<lambda>f. qc_Durable_update (o_CleanupInterval_update f)) ''cleanup-interval'',
      ValueVar (vs_int S) (\<lambda>f. qc_Durable_update (o_CleanupBatch_update f)) ''cleanup-batch''] @
     common_flags S qc_Common_update @
     [StringVar qc_Listen_update ''listen'',
      ValueVar (vs_int S) qc_Capacity_update ''capacity'',
      ValueVar (vs_int S) qc_DedupCapacity_update ''dedup-capacity'',
      ValueVar (vs_duration S) qc_DedupTTL_update ''dedup-ttl'']"

definition default_queue :: queue_config where
  "default_queue =
     \<lparr>qc_Mode = ''durable'', qc_Durable = DefaultDurableOptions ''work/queue.db'',
      qc_Common = default_common, qc_Listen = ''127.0.0.1:8081'', qc_Capacity = 1000,
      qc_DedupCapacity = 10000, qc_DedupTTL = Minute\<rparr>"

definition with_capacities :: "queue_config \<Rightarrow> queue_config" where
  "with_capacities c = c\<lparr>qc_Durable := (qc_Durable c)
     \<lparr>o_Capacity := qc_Capacity c, o_DedupCapacity := qc_DedupCapacity c\<rparr>\<rparr>"

definition ParseQueue :: "value_syntax \<Rightarrow> string list \<Rightarrow> config_error + queue_config" where
  "ParseQueue S args =
     sbind (flag_result (parse_args (queue_flags S) args default_queue)) (\<lambda>(c, rest).
     sbind (valid_common rest (qc_Common c)) (\<lambda>_.
     if \<not> SplitHostPort_ok (qc_Listen c) then Inl Bad_listen
     else if qc_Capacity c < 1 \<or> qc_Capacity c > 10000 \<or> qc_DedupCapacity c < qc_Capacity c
        \<or> qc_DedupCapacity c > 100000 \<or> qc_DedupTTL c \<le> 0 then Inl Bad_settings
     else if qc_Mode c \<noteq> ''durable'' \<and> qc_Mode c \<noteq> ''memory'' then Inl Bad_mode
     else if qc_Mode c = ''durable'' then
       (case Options_Validate (qc_Durable (with_capacities c)) of
          Inl e \<Rightarrow> Inl (Bad_durable e)
        | Inr _ \<Rightarrow> Inr (with_capacities c))
     else Inr c))"

section \<open>Test consumer\<close>

record consumer_config =
  tc_ProcessingDelay :: int
  tc_Mode :: string
  tc_Action :: string
  tc_Reason :: string
  tc_LeaseWait :: int
  tc_RetryDelay :: int
  tc_ShutdownTimeout :: int
  tc_LogLevel :: string
  tc_QueueURL :: string
  tc_Count :: u64
  tc_Timeout :: int
  tc_HTTPTimeout :: int

definition consumer_flags :: "value_syntax \<Rightarrow> consumer_config flag list" where
  "consumer_flags S =
     [ValueVar (vs_duration S) tc_ProcessingDelay_update ''processing-delay'',
      StringVar tc_Mode_update ''mode'',
      StringVar tc_Action_update ''action'',
      StringVar tc_Reason_update ''reason'',
      ValueVar (vs_duration S) tc_LeaseWait_update ''lease-wait'',
      ValueVar (vs_duration S) tc_RetryDelay_update ''retry-delay'',
      ValueVar (vs_duration S) tc_ShutdownTimeout_update ''shutdown-timeout'',
      StringVar tc_LogLevel_update ''log-level'',
      StringVar tc_QueueURL_update ''queue-url'',
      ValueVar (vs_uint S) tc_Count_update ''count'',
      ValueVar (vs_duration S) tc_Timeout_update ''timeout'',
      ValueVar (vs_duration S) tc_HTTPTimeout_update ''http-timeout'']"

definition default_consumer :: consumer_config where
  "default_consumer =
     \<lparr>tc_ProcessingDelay = 0, tc_Mode = ''durable'', tc_Action = ''ack'',
      tc_Reason = ''diagnostic consumer request'', tc_LeaseWait = Second, tc_RetryDelay = Second,
      tc_ShutdownTimeout = 20 * Second, tc_LogLevel = ''info'', tc_QueueURL = ''http://127.0.0.1:8081'',
      tc_Count = 100, tc_Timeout = 30 * Second, tc_HTTPTimeout = 3 * Second\<rparr>"

definition bad_consumer :: "consumer_config \<Rightarrow> bool" where
  "bad_consumer c \<longleftrightarrow> tc_ProcessingDelay c < 0 \<or> tc_ProcessingDelay c > Hour \<or> tc_Count c = 0
     \<or> tc_Timeout c \<le> 0 \<or> tc_HTTPTimeout c \<le> 0 \<or> tc_ShutdownTimeout c \<le> 0
     \<or> tc_LeaseWait c < 0 \<or> tc_LeaseWait c > MaxWait \<or> tc_LeaseWait c \<ge> tc_HTTPTimeout c
     \<or> tc_RetryDelay c < 0 \<or> tc_RetryDelay c > MaxNackDelay
     \<or> length (tc_Reason c) = 0 \<or> length (tc_Reason c) > 256
     \<or> (tc_Mode c \<noteq> ''durable'' \<and> tc_Mode c \<noteq> ''memory'')
     \<or> (tc_Action c \<noteq> ''ack'' \<and> tc_Action c \<noteq> ''noack'' \<and> tc_Action c \<noteq> ''retry'' \<and> tc_Action c \<noteq> ''quarantine'')
     \<or> (tc_Mode c = ''memory'' \<and> tc_Action c \<noteq> ''ack'')"

definition ParseConsumer :: "value_syntax \<Rightarrow> string list \<Rightarrow> config_error + consumer_config" where
  "ParseConsumer S args =
     sbind (flag_result (parse_args (consumer_flags S) args default_consumer)) (\<lambda>(c, rest).
     if rest \<noteq> [] then Inl Unexpected_arguments
     else if bad_consumer c then Inl Bad_settings else Inr c)"

section \<open>Collector\<close>

record collector_config =
  cc_DatabaseURL :: string
  cc_QueueURL :: string
  cc_Listen :: string
  cc_LogLevel :: string
  cc_Workers :: int
  cc_PoolMax :: int
  cc_LeaseWait :: int
  cc_HTTPTimeout :: int
  cc_WorkTimeout :: int
  cc_ShutdownTimeout :: int
  cc_RetryMin :: int
  cc_RetryMax :: int

definition collector_flags :: "value_syntax \<Rightarrow> collector_config flag list" where
  "collector_flags S =
     [StringVar cc_DatabaseURL_update ''database-url'',
      StringVar cc_QueueURL_update ''queue-url'',
      StringVar cc_Listen_update ''listen'',
      StringVar cc_LogLevel_update ''log-level'',
      ValueVar (vs_int S) cc_Workers_update ''workers'',
      ValueVar (vs_int S) cc_PoolMax_update ''pool-max'',
      ValueVar (vs_duration S) cc_LeaseWait_update ''lease-wait'',
      ValueVar (vs_duration S) cc_HTTPTimeout_update ''http-timeout'',
      ValueVar (vs_duration S) cc_WorkTimeout_update ''work-timeout'',
      ValueVar (vs_duration S) cc_ShutdownTimeout_update ''shutdown-timeout'',
      ValueVar (vs_duration S) cc_RetryMin_update ''retry-min'',
      ValueVar (vs_duration S) cc_RetryMax_update ''retry-max'']"

definition default_collector :: "(string \<rightharpoonup> string) \<Rightarrow> collector_config" where
  "default_collector env =
     \<lparr>cc_DatabaseURL = Getenv env ''DATABASE_URL'', cc_QueueURL = ''http://127.0.0.1:8081'',
      cc_Listen = ''127.0.0.1:8082'', cc_LogLevel = ''info'', cc_Workers = 2, cc_PoolMax = 4,
      cc_LeaseWait = Second, cc_HTTPTimeout = 3 * Second, cc_WorkTimeout = 10 * Second,
      cc_ShutdownTimeout = 20 * Second, cc_RetryMin = 100 * Millisecond, cc_RetryMax = 2 * Second\<rparr>"

definition bad_collector :: "collector_config \<Rightarrow> bool" where
  "bad_collector c \<longleftrightarrow> cc_DatabaseURL c = [] \<or> cc_Workers c < 1 \<or> cc_Workers c > 10
     \<or> cc_PoolMax c < 1 \<or> cc_PoolMax c > 10 \<or> cc_LeaseWait c < 0 \<or> cc_LeaseWait c > 10 * Second
     \<or> cc_HTTPTimeout c \<le> cc_LeaseWait c \<or> cc_HTTPTimeout c > Minute
     \<or> cc_WorkTimeout c \<le> 0 \<or> cc_WorkTimeout c > Minute
     \<or> cc_ShutdownTimeout c \<le> 0 \<or> cc_ShutdownTimeout c > Minute
     \<or> cc_RetryMin c \<le> 0 \<or> cc_RetryMax c < cc_RetryMin c \<or> cc_RetryMax c > 10 * Second"

definition ParseCollector :: "value_syntax \<Rightarrow> (string \<rightharpoonup> string) \<Rightarrow> string list \<Rightarrow> config_error + collector_config" where
  "ParseCollector S env args =
     sbind (VisitAll_env env ''COLLECTOR_'' (collector_flags S) (default_collector env)) (\<lambda>c0.
     sbind (flag_result (parse_args (collector_flags S) args c0)) (\<lambda>(c, rest).
     if rest \<noteq> [] \<or> bad_collector c then Inl Bad_settings
     else if \<not> SplitHostPort_ok (cc_Listen c) then Inl Bad_listen else Inr c))"

section \<open>API\<close>

record api_config =
  ac_DatabaseURL :: string
  ac_Listen :: string
  ac_LogLevel :: string
  ac_TempDir :: string
  ac_PoolMax :: int
  ac_MaxConcurrent :: int
  ac_QueryTimeout :: int
  ac_WriteTimeout :: int
  ac_ShutdownTimeout :: int
  ac_MaxResponseBytes :: int

definition DefaultAPI :: api_config where
  "DefaultAPI =
     \<lparr>ac_DatabaseURL = [], ac_Listen = ''127.0.0.1:8080'', ac_LogLevel = ''info'', ac_TempDir = [],
      ac_PoolMax = 4, ac_MaxConcurrent = 4, ac_QueryTimeout = 10 * Second, ac_WriteTimeout = 30 * Second,
      ac_ShutdownTimeout = 20 * Second, ac_MaxResponseBytes = 64 * 2 ^ 20\<rparr>"

definition api_flags :: "value_syntax \<Rightarrow> api_config flag list" where
  "api_flags S =
     [StringVar ac_DatabaseURL_update ''database-url'',
      StringVar ac_Listen_update ''listen'',
      StringVar ac_LogLevel_update ''log-level'',
      StringVar ac_TempDir_update ''temp-dir'',
      ValueVar (vs_int S) ac_PoolMax_update ''pool-max'',
      ValueVar (vs_int S) ac_MaxConcurrent_update ''max-concurrent'',
      ValueVar (vs_duration S) ac_QueryTimeout_update ''query-timeout'',
      ValueVar (vs_duration S) ac_WriteTimeout_update ''write-timeout'',
      ValueVar (vs_duration S) ac_ShutdownTimeout_update ''shutdown-timeout'',
      ValueVar (vs_int S) ac_MaxResponseBytes_update ''max-response-bytes'']"

definition bad_api :: "api_config \<Rightarrow> bool" where
  "bad_api c \<longleftrightarrow> ac_DatabaseURL c = [] \<or> ac_PoolMax c < 1 \<or> ac_PoolMax c > 10
     \<or> ac_MaxConcurrent c < 1 \<or> ac_MaxConcurrent c > 16
     \<or> ac_QueryTimeout c \<le> 0 \<or> ac_QueryTimeout c > Minute
     \<or> ac_WriteTimeout c \<le> ac_QueryTimeout c \<or> ac_WriteTimeout c > 5 * Minute
     \<or> ac_ShutdownTimeout c \<le> 0 \<or> ac_ShutdownTimeout c > Minute
     \<or> ac_MaxResponseBytes c < 2 \<or> ac_MaxResponseBytes c > 2 ^ 30"

definition ParseAPI :: "value_syntax \<Rightarrow> (string \<rightharpoonup> string) \<Rightarrow> string list \<Rightarrow> config_error + api_config" where
  "ParseAPI S env args =
     sbind (VisitAll_env env ''API_'' (api_flags S)
              (DefaultAPI\<lparr>ac_DatabaseURL := Getenv env ''DATABASE_URL''\<rparr>)) (\<lambda>c0.
     sbind (flag_result (parse_args (api_flags S) args c0)) (\<lambda>(c, rest).
     if rest \<noteq> [] \<or> bad_api c then Inl Bad_settings
     else if \<not> SplitHostPort_ok (ac_Listen c) then Inl Bad_listen else Inr c))"

end
