(* ===== verification/Storage.thy ===== *)
theory Storage
  imports Telemetry "HOL-Library.Multiset"
begin

text \<open>
  internal/storage/postgres: the telemetry sink and its reader. The tables are lists of rows
  with unique keys, the SQL statements of the source are functions on them. What belongs to
  PostgreSQL and its driver is a parameter: the collation of text (\<open>pg_collate\<close>), the encoding
  of an instant as a microsecond timestamp (\<open>pg_micros\<close>) and the failures of a transaction.
\<close>

section \<open>Validation\<close>

datatype store_error =
  Store_invalid validation_error
| Bad_text
| Bad_year
| Store_encoding
| Database_error

text \<open>\<^verbatim>\<open>utf8.ValidString\<close>: the well-formed byte sequences of UTF-8.\<close>

definition utf8_second :: "nat \<Rightarrow> nat \<Rightarrow> bool" where
  "utf8_second a b \<longleftrightarrow>
     (if a = 0xE0 then 0xA0 else if a = 0xF0 then 0x90 else 0x80) \<le> b
   \<and> b \<le> (if a = 0xED then 0x9F else if a = 0xF4 then 0x8F else 0xBF)"

definition utf8_tail :: "nat \<Rightarrow> bool" where
  "utf8_tail b \<longleftrightarrow> 0x80 \<le> b \<and> b \<le> 0xBF"

fun utf8_valid :: "nat list \<Rightarrow> bool" where
  "utf8_valid [] = True"
| "utf8_valid (a # xs) =
     (if a < 0x80 then utf8_valid xs
      else if 0xC2 \<le> a \<and> a \<le> 0xDF then
        (case xs of b # ys \<Rightarrow> utf8_tail b \<and> utf8_valid ys | _ \<Rightarrow> False)
      else if 0xE0 \<le> a \<and> a \<le> 0xEF then
        (case xs of b # c # ys \<Rightarrow> utf8_second a b \<and> utf8_tail c \<and> utf8_valid ys | _ \<Rightarrow> False)
      else if 0xF0 \<le> a \<and> a \<le> 0xF4 then
        (case xs of b # c # d # ys \<Rightarrow>
           utf8_second a b \<and> utf8_tail c \<and> utf8_tail d \<and> utf8_valid ys | _ \<Rightarrow> False)
      else False)"

definition valid_text :: "string \<Rightarrow> bool" where
  "valid_text s \<longleftrightarrow> utf8_valid (map of_char s) \<and> char_of (0::nat) \<notin> set s"

definition event_texts :: "event \<Rightarrow> string list" where
  "event_texts e = (let m = e_Measurement e in
     [e_EventID e, e_ProducerInstanceID e, m_GPUUUID m, m_MetricName m, m_LocalGPUID m, m_Device m,
      m_ModelName m, m_Hostname m, m_Container m, m_Pod m, m_Namespace m, m_LabelsRaw m])"

definition bad_year :: "gotime \<Rightarrow> bool" where
  "bad_year t \<longleftrightarrow> year t < 1 \<or> year t > 9999"

definition Store_Validate :: "event \<Rightarrow> store_error + unit" where
  "Store_Validate e =
     (case Event_Validate e of
        Inl v \<Rightarrow> Inl (Store_invalid v)
      | Inr _ \<Rightarrow>
          if list_ex (\<lambda>v. \<not> valid_text v) (event_texts e) then Inl Bad_text
          else if list_ex bad_year [e_ProcessedAt e, m_SourceTimestamp (e_Measurement e)] then Inl Bad_year
          else Inr ())"

section \<open>Tables\<close>

record telemetry_row =
  tr_event_id :: string
  tr_gpu_uuid :: string
  tr_metric_name :: string
  tr_value :: f64
  tr_processed_at :: int
  tr_source_timestamp :: int
  tr_ingested_at :: int
  tr_labels_raw :: string
  tr_container :: string
  tr_pod :: string
  tr_namespace :: string
  tr_event :: bytes

record gpu_row =
  g_uuid :: string
  g_hostname :: string
  g_local_gpu_id :: string
  g_device :: string
  g_model_name :: string
  g_first_seen :: int
  g_last_seen :: int
  g_last_event_id :: string

record tables =
  db_telemetry :: "telemetry_row list"
  db_gpus :: "gpu_row list"

record 'k pg =
  pg_collate :: "string \<Rightarrow> 'k"
  pg_micros :: "gotime \<Rightarrow> int"

section \<open>Persist\<close>

text \<open>The row of an event; \<open>ingested\<close> is the clock of the database, \<open>payload\<close> the JSON document.\<close>

definition telemetry_of :: "('k :: linorder) pg \<Rightarrow> int \<Rightarrow> bytes \<Rightarrow> event \<Rightarrow> telemetry_row" where
  "telemetry_of P ingested payload e = (let m = e_Measurement e in
     \<lparr>tr_event_id = e_EventID e, tr_gpu_uuid = m_GPUUUID m, tr_metric_name = m_MetricName m,
      tr_value = m_Value m, tr_processed_at = pg_micros P (utc (e_ProcessedAt e)),
      tr_source_timestamp = pg_micros P (utc (m_SourceTimestamp m)), tr_ingested_at = ingested,
      tr_labels_raw = m_LabelsRaw m, tr_container = m_Container m, tr_pod = m_Pod m,
      tr_namespace = m_Namespace m, tr_event = payload\<rparr>)"

definition gpu_of :: "('k :: linorder) pg \<Rightarrow> event \<Rightarrow> gpu_row" where
  "gpu_of P e = (let m = e_Measurement e; seen = pg_micros P (utc (e_ProcessedAt e)) in
     \<lparr>g_uuid = m_GPUUUID m, g_hostname = m_Hostname m, g_local_gpu_id = m_LocalGPUID m,
      g_device = m_Device m, g_model_name = m_ModelName m, g_first_seen = seen, g_last_seen = seen,
      g_last_event_id = e_EventID e\<rparr>)"

text \<open>\<^verbatim>\<open>(EXCLUDED.last_seen,EXCLUDED.last_event_id)>(gpus.last_seen,gpus.last_event_id)\<close>.\<close>

definition newer :: "('k :: linorder) pg \<Rightarrow> gpu_row \<Rightarrow> gpu_row \<Rightarrow> bool" where
  "newer P x g \<longleftrightarrow> g_last_seen x > g_last_seen g
     \<or> (g_last_seen x = g_last_seen g \<and> pg_collate P (g_last_event_id x) > pg_collate P (g_last_event_id g))"

text \<open>\<^verbatim>\<open>ON CONFLICT(uuid) DO UPDATE SET ...\<close>; \<open>x\<close> is the row the statement could not insert.\<close>

definition gpu_merge :: "('k :: linorder) pg \<Rightarrow> gpu_row \<Rightarrow> gpu_row \<Rightarrow> gpu_row" where
  "gpu_merge P x g =
     g\<lparr>g_first_seen := min (g_first_seen g) (g_first_seen x),
       g_last_seen := max (g_last_seen g) (g_last_seen x),
       g_hostname := (if newer P x g then g_hostname x else g_hostname g),
       g_local_gpu_id := (if newer P x g then g_local_gpu_id x else g_local_gpu_id g),
       g_device := (if newer P x g then g_device x else g_device g),
       g_model_name := (if newer P x g then g_model_name x else g_model_name g),
       g_last_event_id := (if newer P x g then g_last_event_id x else g_last_event_id g)\<rparr>"

definition insert_telemetry :: "telemetry_row \<Rightarrow> tables \<Rightarrow> bool \<times> tables" where
  "insert_telemetry r db =
     (if list_ex (\<lambda>x. tr_event_id x = tr_event_id r) (db_telemetry db) then (False, db)
      else (True, db\<lparr>db_telemetry := db_telemetry db @ [r]\<rparr>))"

definition upsert_gpu :: "('k :: linorder) pg \<Rightarrow> gpu_row \<Rightarrow> tables \<Rightarrow> tables" where
  "upsert_gpu P x db =
     (if list_ex (\<lambda>g. g_uuid g = g_uuid x) (db_gpus db)
      then db\<lparr>db_gpus := map (\<lambda>g. if g_uuid g = g_uuid x then gpu_merge P x g else g) (db_gpus db)\<rparr>
      else db\<lparr>db_gpus := db_gpus db @ [x]\<rparr>)"

definition persist_tx :: "('k :: linorder) pg \<Rightarrow> int \<Rightarrow> bytes \<Rightarrow> event \<Rightarrow> tables \<Rightarrow> tables" where
  "persist_tx P ingested payload e db =
     (case insert_telemetry (telemetry_of P ingested payload e) db of
        (inserted, db1) \<Rightarrow> if inserted then upsert_gpu P (gpu_of P e) db1 else db1)"

text \<open>
  What the database does to one attempt: it fails before the commit, it commits, or the commit
  returns an error although it may (\<open>True\<close>) or may not (\<open>False\<close>) have happened.
\<close>

datatype tx_fate = Tx_failed | Tx_committed | Tx_uncertain bool

definition Persist :: "('k :: linorder) pg \<Rightarrow> (event \<Rightarrow> bytes option) \<Rightarrow> int \<Rightarrow> tx_fate \<Rightarrow> event \<Rightarrow>
    tables \<Rightarrow> (store_error + unit) \<times> tables" where
  "Persist P enc ingested fate e db =
     (case Store_Validate e of
        Inl err \<Rightarrow> (Inl err, db)
      | Inr _ \<Rightarrow>
          (case enc e of
             None \<Rightarrow> (Inl Store_encoding, db)
           | Some payload \<Rightarrow>
               (case fate of
                  Tx_failed \<Rightarrow> (Inl Database_error, db)
                | Tx_committed \<Rightarrow> (Inr (), persist_tx P ingested payload e db)
                | Tx_uncertain done \<Rightarrow>
                    (Inl Database_error, if done then persist_tx P ingested payload e db else db))))"

section \<open>Reading\<close>

text \<open>
  The bounds of \<^verbatim>\<open>VisitTelemetry\<close> in whole microseconds: the lower one rounded up, the upper
  one rounded down. \<^verbatim>\<open>Add\<close> does not overflow on the instants of the API (years 1 to 9999).
\<close>

definition ceil_us :: "gotime \<Rightarrow> gotime" where
  "ceil_us t = (let v = truncate_us (utc t) in
     if t_ns v < t_ns t then v\<lparr>t_ns := t_ns v + 1000\<rparr> else v)"

definition floor_us :: "gotime \<Rightarrow> gotime" where
  "floor_us t = truncate_us (utc t)"

definition in_range :: "('k :: linorder) pg \<Rightarrow> gotime option \<Rightarrow> gotime option \<Rightarrow> telemetry_row \<Rightarrow> bool" where
  "in_range P start until r \<longleftrightarrow>
     (case start of None \<Rightarrow> True | Some t \<Rightarrow> pg_micros P (ceil_us t) \<le> tr_processed_at r)
   \<and> (case until of None \<Rightarrow> True | Some t \<Rightarrow> tr_processed_at r \<le> pg_micros P (floor_us t))"

definition select_telemetry :: "('k :: linorder) pg \<Rightarrow> string \<Rightarrow> gotime option \<Rightarrow> gotime option \<Rightarrow> tables \<Rightarrow>
    telemetry_row list" where
  "select_telemetry P uuid start until db =
     sort_key tr_processed_at (sort_key (\<lambda>r. pg_collate P (tr_event_id r))
       (filter (\<lambda>r. tr_gpu_uuid r = uuid \<and> in_range P start until r) (db_telemetry db)))"

definition select_gpus :: "('k :: linorder) pg \<Rightarrow> tables \<Rightarrow> gpu_row list" where
  "select_gpus P db = sort_key (\<lambda>g. pg_collate P (g_uuid g))
     (filter (\<lambda>g. list_ex (\<lambda>t. tr_gpu_uuid t = g_uuid g) (db_telemetry db)) (db_gpus db))"

datatype read_error = GPU_not_found | Read_failed_error | Visit_error

text \<open>
  The loop over the rows: the callback's state is threaded through, its error stops the scan.
  \<open>None\<close> of the query is a failed query, \<open>broken\<close> an error of the rows after the last one.
\<close>

fun visit_rows :: "('r \<Rightarrow> 's \<Rightarrow> (read_error + unit) \<times> 's) \<Rightarrow> bool \<Rightarrow> 'r list \<Rightarrow> 's \<Rightarrow>
    (read_error + unit) \<times> 's" where
  "visit_rows visit broken [] s = ((if broken then Inl Read_failed_error else Inr ()), s)"
| "visit_rows visit broken (r # rs) s = (case visit r s of
     (Inl err, s') \<Rightarrow> (Inl err, s')
   | (Inr _, s') \<Rightarrow> visit_rows visit broken rs s')"

definition VisitGPUs :: "('k :: linorder) pg \<Rightarrow> bool \<Rightarrow> bool \<Rightarrow> tables \<Rightarrow>
    (gpu_row \<Rightarrow> 's \<Rightarrow> (read_error + unit) \<times> 's) \<Rightarrow> 's \<Rightarrow> (read_error + unit) \<times> 's" where
  "VisitGPUs P failed broken db visit s =
     (if failed then (Inl Read_failed_error, s) else visit_rows visit broken (select_gpus P db) s)"

definition VisitTelemetry :: "('k :: linorder) pg \<Rightarrow> bool \<Rightarrow> bool \<Rightarrow> tables \<Rightarrow> string \<Rightarrow> gotime option \<Rightarrow>
    gotime option \<Rightarrow> (telemetry_row \<Rightarrow> 's \<Rightarrow> (read_error + unit) \<times> 's) \<Rightarrow> 's \<Rightarrow>
    (read_error + unit) \<times> 's" where
  "VisitTelemetry P failed broken db uuid start until visit s =
     (if failed then (Inl Read_failed_error, s)
      else if \<not> list_ex (\<lambda>g. g_uuid g = uuid) (db_gpus db) then (Inl GPU_not_found, s)
      else visit_rows visit broken (select_telemetry P uuid start until db) s)"

section \<open>Merging metadata\<close>

text \<open>The key a GPU row is ordered by; it is only looked at through \<open>newer\<close>.\<close>

lemma newer_irrefl: "\<not> newer P x x"
  by (simp add: newer_def)

lemma newer_trans: "newer P x y \<Longrightarrow> newer P y z \<Longrightarrow> newer P x z"
  by (auto simp: newer_def)

definition same_key :: "('k :: linorder) pg \<Rightarrow> gpu_row \<Rightarrow> gpu_row \<Rightarrow> bool" where
  "same_key P x g \<longleftrightarrow> g_last_seen x = g_last_seen g
     \<and> pg_collate P (g_last_event_id x) = pg_collate P (g_last_event_id g)"

lemma newer_total: "newer P x y \<or> newer P y x \<or> same_key P x y"
  by (auto simp: newer_def same_key_def)

lemma newer_merge: "newer P x (gpu_merge P y g) \<longleftrightarrow> newer P x g \<and> newer P x y \<or> newer P x g \<and> \<not> newer P y g"
  by (auto simp: newer_def gpu_merge_def)

lemma gpu_merge_fields:
  "g_uuid (gpu_merge P x g) = g_uuid g"
  "g_first_seen (gpu_merge P x g) = min (g_first_seen g) (g_first_seen x)"
  "g_last_seen (gpu_merge P x g) = max (g_last_seen g) (g_last_seen x)"
  "g_hostname (gpu_merge P x g) = (if newer P x g then g_hostname x else g_hostname g)"
  "g_local_gpu_id (gpu_merge P x g) = (if newer P x g then g_local_gpu_id x else g_local_gpu_id g)"
  "g_device (gpu_merge P x g) = (if newer P x g then g_device x else g_device g)"
  "g_model_name (gpu_merge P x g) = (if newer P x g then g_model_name x else g_model_name g)"
  "g_last_event_id (gpu_merge P x g) = (if newer P x g then g_last_event_id x else g_last_event_id g)"
  by (simp_all add: gpu_merge_def)

lemma min_max_swap:
  fixes a b c :: int
  shows "min (min a b) c = min (min a c) b" and "max (max a b) c = max (max a c) b"
  by linarith+

lemma gpu_row_eqI:
  fixes x y :: gpu_row
  assumes "g_uuid x = g_uuid y" "g_hostname x = g_hostname y" "g_local_gpu_id x = g_local_gpu_id y"
    "g_device x = g_device y" "g_model_name x = g_model_name y" "g_first_seen x = g_first_seen y"
    "g_last_seen x = g_last_seen y" "g_last_event_id x = g_last_event_id y"
  shows "x = y"
  using assms by simp

lemma gpu_merge_swap:
  assumes "\<not> same_key P x y"
  shows "gpu_merge P x (gpu_merge P y g) = gpu_merge P y (gpu_merge P x g)"
proof -
  have pick: "(if newer P x (gpu_merge P y g) then a else if newer P y g then b else c)
      = (if newer P y (gpu_merge P x g) then b else if newer P x g then a else c)" for a b c :: string
  proof -
    have 1: "newer P x y \<or> newer P y x" using assms newer_total by blast
    have 2: "\<not> (newer P x y \<and> newer P y x)" using newer_trans newer_irrefl by blast
    have 3: "newer P x y \<and> newer P y g \<longrightarrow> newer P x g" "newer P y x \<and> newer P x g \<longrightarrow> newer P y g"
      using newer_trans by blast+
    show ?thesis
      unfolding newer_merge using 1 2 3 by (cases "newer P x g"; cases "newer P y g") auto
  qed
  show ?thesis
    by (rule gpu_row_eqI) (simp_all only: gpu_merge_fields pick min_max_swap)
qed

lemma gpu_merge_first_swap:
  assumes "\<not> same_key P x y" and "g_uuid x = g_uuid y"
  shows "gpu_merge P x y = gpu_merge P y x"
proof -
  have pick: "(if newer P x y then a else b) = (if newer P y x then b else a)" for a b :: string
    using assms(1) newer_total [of P x y] by (auto simp: newer_def)
  show ?thesis
    by (rule gpu_row_eqI) (simp_all only: gpu_merge_fields pick assms(2) min.commute max.commute)
qed

section \<open>The tables as maps\<close>

definition tel_lookup :: "tables \<Rightarrow> string \<Rightarrow> telemetry_row option" where
  "tel_lookup db i = find (\<lambda>r. tr_event_id r = i) (db_telemetry db)"

definition gpu_lookup :: "tables \<Rightarrow> string \<Rightarrow> gpu_row option" where
  "gpu_lookup db u = find (\<lambda>g. g_uuid g = u) (db_gpus db)"

lemma find_append: "find P (xs @ ys) = (case find P xs of None \<Rightarrow> find P ys | Some x \<Rightarrow> Some x)"
  by (induction xs) auto

lemma find_None_ex: "find P xs = None \<longleftrightarrow> \<not> list_ex P xs"
  by (induction xs) auto

lemma find_map_keep:
  assumes "\<And>x. key (f x) = key x"
  shows "find (\<lambda>x. key x = u) (map f xs) = map_option f (find (\<lambda>x. key x = u) xs)"
  by (induction xs) (auto simp: assms)

lemma gpu_lookup_upsert:
  "gpu_lookup (upsert_gpu P x db) u =
     (if u = g_uuid x
      then Some (case gpu_lookup db u of None \<Rightarrow> x | Some g \<Rightarrow> gpu_merge P x g)
      else gpu_lookup db u)"
proof (cases "list_ex (\<lambda>g. g_uuid g = g_uuid x) (db_gpus db)")
  case True
  let ?f = "\<lambda>g. if g_uuid g = g_uuid x then gpu_merge P x g else g"
  have key: "g_uuid (?f g) = g_uuid g" for g by (simp add: gpu_merge_fields)
  have "gpu_lookup (upsert_gpu P x db) u = map_option ?f (gpu_lookup db u)"
    using True find_map_keep [of g_uuid ?f u, OF key] by (simp add: upsert_gpu_def gpu_lookup_def)
  moreover have "g_uuid g = u" if "gpu_lookup db u = Some g" for g
    using that by (auto simp: gpu_lookup_def find_Some_iff)
  moreover have "gpu_lookup db (g_uuid x) \<noteq> None"
    using True by (simp add: gpu_lookup_def find_None_ex)
  ultimately show ?thesis by (cases "gpu_lookup db u") auto
next
  case False
  then have none: "gpu_lookup db (g_uuid x) = None" by (simp add: gpu_lookup_def find_None_ex)
  have "gpu_lookup (upsert_gpu P x db) u
      = (case gpu_lookup db u of None \<Rightarrow> if g_uuid x = u then Some x else None | Some g \<Rightarrow> Some g)"
    using False by (simp add: upsert_gpu_def gpu_lookup_def find_append split: option.split)
  with none show ?thesis by (cases "gpu_lookup db u") auto
qed

lemma upsert_telemetry [simp]: "db_telemetry (upsert_gpu P x db) = db_telemetry db"
  by (simp add: upsert_gpu_def)

lemma telemetry_of_id [simp]: "tr_event_id (telemetry_of P n b e) = e_EventID e"
  by (simp add: telemetry_of_def Let_def)

lemma persist_lookup:
  "tel_lookup (persist_tx P n b e db) i =
     (if tel_lookup db (e_EventID e) = None \<and> i = e_EventID e then Some (telemetry_of P n b e)
      else tel_lookup db i)"
  "gpu_lookup (persist_tx P n b e db) u =
     (if tel_lookup db (e_EventID e) = None \<and> u = g_uuid (gpu_of P e)
      then Some (case gpu_lookup db u of None \<Rightarrow> gpu_of P e | Some g \<Rightarrow> gpu_merge P (gpu_of P e) g)
      else gpu_lookup db u)"
proof -
  have new: "list_ex (\<lambda>x. tr_event_id x = e_EventID e) (db_telemetry db)
      \<longleftrightarrow> tel_lookup db (e_EventID e) \<noteq> None"
    by (simp add: tel_lookup_def find_None_ex)
  show "tel_lookup (persist_tx P n b e db) i =
     (if tel_lookup db (e_EventID e) = None \<and> i = e_EventID e then Some (telemetry_of P n b e)
      else tel_lookup db i)"
    using new by (auto simp: persist_tx_def insert_telemetry_def tel_lookup_def find_append
        split: option.splits)
  have "gpu_lookup (db\<lparr>db_telemetry := xs\<rparr>) = gpu_lookup db" for xs
    by (simp add: gpu_lookup_def fun_eq_iff)
  then show "gpu_lookup (persist_tx P n b e db) u =
     (if tel_lookup db (e_EventID e) = None \<and> u = g_uuid (gpu_of P e)
      then Some (case gpu_lookup db u of None \<Rightarrow> gpu_of P e | Some g \<Rightarrow> gpu_merge P (gpu_of P e) g)
      else gpu_lookup db u)"
    using new by (simp add: persist_tx_def insert_telemetry_def gpu_lookup_upsert)
qed

text \<open>What a reader can see of the tables.\<close>

type_synonym view = "(string \<Rightarrow> telemetry_row option) \<times> (string \<Rightarrow> gpu_row option)"

definition view_of :: "tables \<Rightarrow> view" where
  "view_of db = (tel_lookup db, gpu_lookup db)"

definition persist_view :: "('k :: linorder) pg \<Rightarrow> int \<times> bytes \<times> event \<Rightarrow> view \<Rightarrow> view" where
  "persist_view P x v = (case (x, v) of ((n, b, e), (tel, gpus)) \<Rightarrow>
     if tel (e_EventID e) \<noteq> None then v
     else (tel(e_EventID e \<mapsto> telemetry_of P n b e),
           gpus(g_uuid (gpu_of P e) \<mapsto> (case gpus (g_uuid (gpu_of P e)) of
              None \<Rightarrow> gpu_of P e | Some g \<Rightarrow> gpu_merge P (gpu_of P e) g))))"

lemma view_of_persist: "view_of (persist_tx P n b e db) = persist_view P (n, b, e) (view_of db)"
  by (auto simp: view_of_def persist_view_def persist_lookup fun_eq_iff)

lemma gpu_of_select [simp]: "g_last_event_id (gpu_of P e) = e_EventID e"
  by (simp add: gpu_of_def Let_def)

lemma persist_view_swap:
  assumes "inj (pg_collate P)" and "e_EventID e \<noteq> e_EventID f"
  shows "persist_view P (n, b, e) (persist_view P (k, c, f) v)
       = persist_view P (k, c, f) (persist_view P (n, b, e) v)"
proof -
  obtain tel gpus where v: "v = (tel, gpus)" by fastforce
  have key: "\<not> same_key P (gpu_of P e) (gpu_of P f)" "\<not> same_key P (gpu_of P f) (gpu_of P e)"
    using assms by (auto simp: same_key_def dest: injD)
  show ?thesis
  proof (cases "tel (e_EventID e) \<noteq> None \<or> tel (e_EventID f) \<noteq> None")
    case True
    with assms(2) show ?thesis by (auto simp: v persist_view_def)
  next
    case False
    show ?thesis
    proof (cases "g_uuid (gpu_of P e) = g_uuid (gpu_of P f)")
      case True
      with False assms(2) key show ?thesis
        by (cases "gpus (g_uuid (gpu_of P f))")
           (auto simp: v persist_view_def fun_upd_twist gpu_merge_swap gpu_merge_first_swap)
    next
      case different: False
      with False assms(2) show ?thesis
        by (simp add: v persist_view_def fun_upd_twist)
    qed
  qed
qed

section \<open>Sorting\<close>

definition lex_le :: "('a \<Rightarrow> 'b :: linorder) \<Rightarrow> ('a \<Rightarrow> 'c :: linorder) \<Rightarrow> 'a \<Rightarrow> 'a \<Rightarrow> bool" where
  "lex_le f g x y \<longleftrightarrow> f x < f y \<or> (f x = f y \<and> g x \<le> g y)"

lemma sorted_lex:
  assumes "sorted (map f xs)" and "\<And>k. sorted (map g (filter (\<lambda>x. f x = k) xs))"
  shows "sorted_wrt (lex_le f g) xs"
  using assms
proof (induction xs)
  case Nil
  then show ?case by simp
next
  case (Cons x xs)
  have "lex_le f g x y" if y: "y \<in> set xs" for y
  proof (cases "f y = f x")
    case True
    with Cons.prems(2) [of "f x"] y show ?thesis by (auto simp: lex_le_def)
  next
    case False
    with Cons.prems(1) y show ?thesis by (auto simp: lex_le_def)
  qed
  moreover have "sorted (map g (filter (\<lambda>x. f x = k) xs))" for k
    using Cons.prems(2) [of k] by (simp split: if_splits)
  moreover have "sorted (map f xs)" using Cons.prems(1) by simp
  ultimately show ?case using Cons.IH by simp
qed

lemma sorted_map_filter: "sorted (map g xs) \<Longrightarrow> sorted (map g (filter P xs))"
  by (induction xs) auto

lemma sort_twice: "sorted_wrt (lex_le f g) (sort_key f (sort_key g xs))"
proof (rule sorted_lex)
  show "sorted (map f (sort_key f (sort_key g xs)))" by simp
  show "sorted (map g (filter (\<lambda>x. f x = k) (sort_key f (sort_key g xs))))" for k
    unfolding sort_key_stable by (intro sorted_map_filter) simp
qed

section \<open>Properties\<close>

text \<open>One attempt to persist an event: what it may have done, and what its success means.\<close>

lemma Persist_effect:
  assumes "Persist P enc n fate e db = (res, db')"
  shows "res = Inr () \<Longrightarrow> tel_lookup db' (e_EventID e) \<noteq> None"
    and "db' = db \<or> (\<exists>payload. enc e = Some payload \<and> db' = persist_tx P n payload e db)"
  using assms
  by (auto simp: Persist_def persist_lookup split: sum.splits option.splits tx_fate.splits if_splits)

text \<open>
  C22: every event has its effect once. A persist that reports success has stored the event's
  row; one that reports an error has either done nothing or everything; and once the row is
  there, any further attempt for the same identity, whatever its fate, changes nothing at all,
  neither the telemetry nor the GPU metadata.
\<close>

theorem persist_once:
  assumes "Persist P enc n fate e db = (res, db')"
  shows "(res = Inr () \<longrightarrow> tel_lookup db' (e_EventID e) \<noteq> None)
    \<and> (db' = db \<or> (\<exists>payload. enc e = Some payload \<and> db' = persist_tx P n payload e db))
    \<and> (e_EventID f = e_EventID e \<longrightarrow> tel_lookup db' (e_EventID e) \<noteq> None \<longrightarrow>
         snd (Persist P enc k fate' f db') = db')"
proof -
  have again: "persist_tx P m b f t = t" if "tel_lookup t (e_EventID f) \<noteq> None" for m b t
    using that by (simp add: persist_tx_def insert_telemetry_def tel_lookup_def find_None_ex)
  have "e_EventID f = e_EventID e \<longrightarrow> tel_lookup db' (e_EventID e) \<noteq> None \<longrightarrow>
      snd (Persist P enc k fate' f db') = db'"
    using again by (auto simp: Persist_def split: sum.splits option.splits tx_fate.splits if_splits)
  with Persist_effect [OF assms] show ?thesis by blast
qed

definition ascii_pg :: "string pg" where
  "ascii_pg = \<lparr>pg_collate = (\<lambda>s. s), pg_micros = (\<lambda>t. t_ns t div 1000)\<rparr>"

definition sample_event :: "string \<Rightarrow> int \<Rightarrow> string \<Rightarrow> event" where
  "sample_event i us host =
     \<lparr>e_SchemaVersion = 1, e_EventID = i, e_ProducerInstanceID = ''p'', e_ReplayIndex = 0,
      e_RowIndex = 1, e_ProcessedAt = unix_time (us * 1000),
      e_Measurement = \<lparr>m_SourceTimestamp = unix_time 0, m_GPUUUID = ''g'', m_MetricName = ''u'',
        m_Value = Finite 0, m_LocalGPUID = [], m_Device = [], m_ModelName = [], m_Hostname = host,
        m_Container = [], m_Pod = [], m_Namespace = [], m_LabelsRaw = []\<rparr>\<rparr>"

definition no_rows :: tables where
  "no_rows = \<lparr>db_telemetry = [], db_gpus = []\<rparr>"

text \<open>Example tables: the given events stored in empty ones.\<close>

definition filled :: "(int \<times> bytes \<times> event) list \<Rightarrow> tables" where
  "filled xs = fold (\<lambda>(n, b, e). persist_tx ascii_pg n b e) xs no_rows"

theorem persist_once_witness:
  "snd (Persist ascii_pg (\<lambda>e. Some ''x'') 8 Tx_committed (sample_event ''a'' 5 ''h'')
      (snd (Persist ascii_pg (\<lambda>e. Some ''x'') 7 (Tx_uncertain True) (sample_event ''a'' 5 ''h'') no_rows)))
    = snd (Persist ascii_pg (\<lambda>e. Some ''x'') 7 (Tx_uncertain True) (sample_event ''a'' 5 ''h'') no_rows)"
proof -
  have "tel_lookup (snd (Persist ascii_pg (\<lambda>e. Some ''x'') 7 (Tx_uncertain True)
      (sample_event ''a'' 5 ''h'') no_rows)) (e_EventID (sample_event ''a'' 5 ''h'')) \<noteq> None"
    by code_simp
  with persist_once [OF surjective_pairing, of ascii_pg "\<lambda>e. Some ''x''" 7 "Tx_uncertain True"
      "sample_event ''a'' 5 ''h''" no_rows "sample_event ''a'' 5 ''h''" 8 Tx_committed]
  show ?thesis by blast
qed

text \<open>
  Attempts to persist, each with the clock of the database at that moment, its fate and its event,
  and the events of those that had an effect.
\<close>

definition Persist_all :: "('k :: linorder) pg \<Rightarrow> (event \<Rightarrow> bytes option) \<Rightarrow> (int \<times> tx_fate \<times> event) list \<Rightarrow>
    tables \<Rightarrow> tables" where
  "Persist_all P enc xs db = fold (\<lambda>(n, fate, e) t. snd (Persist P enc n fate e t)) xs db"

definition took_effect :: "(event \<Rightarrow> bytes option) \<Rightarrow> int \<times> tx_fate \<times> event \<Rightarrow> bool" where
  "took_effect enc x = (case x of (n, fate, e) \<Rightarrow>
     Store_Validate e = Inr () \<and> enc e \<noteq> None \<and> fate \<in> {Tx_committed, Tx_uncertain True})"

definition stored_events :: "(event \<Rightarrow> bytes option) \<Rightarrow> (int \<times> tx_fate \<times> event) list \<Rightarrow> event list" where
  "stored_events enc xs = map (\<lambda>(n, fate, e). e) (filter (took_effect enc) xs)"

text \<open>What a row says, apart from the moment the database inserted it.\<close>

definition row_content :: "telemetry_row \<Rightarrow> telemetry_row" where
  "row_content r = r\<lparr>tr_ingested_at := 0\<rparr>"

definition timeless :: "view \<Rightarrow> view" where
  "timeless v = (\<lambda>i. map_option row_content (fst v i), snd v)"

lemma timeless_persist: "timeless (persist_view P (n, b, e) v) = persist_view P (0, b, e) (timeless v)"
proof -
  have "row_content (telemetry_of P n b e) = telemetry_of P 0 b e"
    by (simp add: row_content_def telemetry_of_def Let_def)
  then show ?thesis by (cases v) (auto simp: timeless_def persist_view_def fun_eq_iff)
qed

lemma Persist_view:
  "view_of (snd (Persist P enc n fate e db)) =
     (if took_effect enc (n, fate, e) then persist_view P (n, the (enc e), e) (view_of db) else view_of db)"
  by (auto simp: Persist_def took_effect_def view_of_persist
      split: sum.splits option.splits tx_fate.splits bool.splits)

abbreviation store_event :: "('k :: linorder) pg \<Rightarrow> (event \<Rightarrow> bytes option) \<Rightarrow> event \<Rightarrow> view \<Rightarrow> view" where
  "store_event P enc e \<equiv> persist_view P (0, the (enc e), e)"

lemma Persist_all_view:
  "timeless (view_of (Persist_all P enc xs db)) = fold (store_event P enc) (stored_events enc xs) (timeless (view_of db))"
  unfolding Persist_all_def stored_events_def
  by (induction xs arbitrary: db) (auto simp: Persist_view timeless_persist)

text \<open>Storing events is commutative and idempotent, so only the set of them matters.\<close>

lemma store_event_set:
  assumes "inj (pg_collate P)" and "inj_on e_EventID S"
  shows "comp_fun_idem_on S (store_event P enc)"
proof
  show "store_event P enc f \<circ> store_event P enc e = store_event P enc e \<circ> store_event P enc f"
    if "e \<in> S" and "f \<in> S" for e f
  proof (cases "e = f")
    case False
    with that assms(2) have "e_EventID f \<noteq> e_EventID e" by (auto dest: inj_onD)
    with persist_view_swap [OF assms(1)] show ?thesis by (simp add: fun_eq_iff)
  qed simp
  show "store_event P enc e \<circ> store_event P enc e = store_event P enc e" for e
    by (auto simp: fun_eq_iff persist_view_def split: prod.split)
qed

text \<open>
  C23: the order of delivery does not matter. Take any two sequences of attempts, with whatever
  clocks of the database, failed and uncertain transactions and redeliveries, in which the
  same events took effect: from the same tables both give the same telemetry rows, but for the
  moments they were inserted at, and the same GPU metadata: first and last time seen and the
  attributes of the latest event.
\<close>

theorem persist_order_irrelevant:
  assumes "inj (pg_collate P)" and "set (stored_events enc xs) = set (stored_events enc ys)"
    and "inj_on e_EventID (set (stored_events enc xs))"
  shows "map_option row_content (tel_lookup (Persist_all P enc xs db) i)
       = map_option row_content (tel_lookup (Persist_all P enc ys db) i)
    \<and> gpu_lookup (Persist_all P enc xs db) u = gpu_lookup (Persist_all P enc ys db) u"
proof -
  note fold_set = comp_fun_idem_on.fold_set_fold [OF store_event_set [OF assms(1,3)], symmetric]
  have "fold (store_event P enc) (stored_events enc xs) v = fold (store_event P enc) (stored_events enc ys) v" for v
    using fold_set [of "stored_events enc xs"] fold_set [of "stored_events enc ys"] assms(2) by simp
  then have "timeless (view_of (Persist_all P enc xs db)) = timeless (view_of (Persist_all P enc ys db))"
    by (simp add: Persist_all_view)
  then show ?thesis by (simp add: timeless_def view_of_def fun_eq_iff)
qed

text \<open>
  Two events of the same instant, in one order and in the other, with an uncertain commit and a
  redelivery, at other times.
\<close>

theorem persist_order_irrelevant_witness:
  "(let enc = (\<lambda>e. Some ''x''); a = sample_event ''a'' 5 ''h''; b = sample_event ''b'' 5 ''k'';
        one = Persist_all ascii_pg enc [(1, Tx_committed, a), (2, Tx_committed, b)] no_rows;
        two = Persist_all ascii_pg enc [(3, Tx_uncertain True, b), (4, Tx_failed, a), (5, Tx_committed, a),
                (6, Tx_committed, b)] no_rows
    in gpu_lookup one ''g'' = gpu_lookup two ''g''
     \<and> map_option row_content (tel_lookup one ''a'') = map_option row_content (tel_lookup two ''a'')
     \<and> map_option g_hostname (gpu_lookup two ''g'') = Some ''k'')"
proof -
  let ?enc = "\<lambda>e :: event. Some ''x''"
  let ?a = "sample_event ''a'' 5 ''h''" and ?b = "sample_event ''b'' 5 ''k''"
  let ?xs = "[(1, Tx_committed, ?a), (2, Tx_committed, ?b)] :: (int \<times> tx_fate \<times> event) list"
  let ?ys = "[(3, Tx_uncertain True, ?b), (4, Tx_failed, ?a), (5, Tx_committed, ?a), (6, Tx_committed, ?b)]
    :: (int \<times> tx_fate \<times> event) list"
  have valid: "Store_Validate ?a = Inr ()" "Store_Validate ?b = Inr ()" by code_simp+
  have xs: "stored_events ?enc ?xs = [?a, ?b]" and ys: "stored_events ?enc ?ys = [?b, ?a, ?b]"
    by (simp_all add: stored_events_def took_effect_def valid)
  have same: "set (stored_events ?enc ?xs) = set (stored_events ?enc ?ys)" by (auto simp: xs ys)
  have inj: "inj_on e_EventID (set (stored_events ?enc ?xs))" unfolding xs by (simp add: sample_event_def)
  have collate: "inj (pg_collate ascii_pg)" by (simp add: ascii_pg_def)
  have host: "map_option g_hostname (gpu_lookup (Persist_all ascii_pg ?enc ?ys no_rows) ''g'') = Some ''k''"
    by code_simp
  show ?thesis
    using persist_order_irrelevant [OF collate same inj, of no_rows "''a''" "''g''"] host by (simp add: Let_def)
qed

lemma floor_div: "a - a mod 1000 = a div 1000 * 1000" for a :: int
  by (simp add: minus_mod_eq_div_mult)

lemma le_div_1000: "b \<le> a div 1000 \<longleftrightarrow> b * 1000 \<le> a" for a b :: int
proof -
  define q r where "q = a div 1000" and "r = a mod 1000"
  have "a = 1000 * q + r" and "0 \<le> r" and "r < 1000" by (simp_all add: q_def r_def)
  then show ?thesis unfolding q_def [symmetric] by linarith
qed

lemma le_scaled:
  "- (- a div 1000) \<le> b \<longleftrightarrow> a \<le> b * 1000"
  "b \<le> a div 1000 \<longleftrightarrow> b * 1000 \<le> a" for a b :: int
  using le_div_1000 [of "- b" "- a"] le_div_1000 [of b a] by linarith+

lemma ceil_div:
  "a div 1000 * 1000 < a \<Longrightarrow> - (- a div 1000) = a div 1000 + 1"
  "\<not> a div 1000 * 1000 < a \<Longrightarrow> - (- a div 1000) = a div 1000" for a :: int
  using le_div_1000 [of "- (a div 1000)" "- a"] le_div_1000 [of "- (a div 1000 + 1)" "- a"]
    le_div_1000 [of "1 - a div 1000" "- a"] le_div_1000 [of "a div 1000 + 1" a] le_div_1000 [of "a div 1000" a]
  by linarith+

lemma floor_us_ns: "t_ns (floor_us t) = t_ns t div 1000 * 1000"
  by (simp add: floor_us_def truncate_us_ns utc_def floor_div)

lemma ceil_us_ns: "t_ns (ceil_us t) = - (- t_ns t div 1000) * 1000"
proof -
  have v: "t_ns (truncate_us (utc t)) = t_ns t div 1000 * 1000"
    by (simp add: truncate_us_ns utc_def floor_div)
  show ?thesis
  proof (cases "t_ns t div 1000 * 1000 < t_ns t")
    case True
    then have "t_ns (ceil_us t) = (t_ns t div 1000 + 1) * 1000"
      by (simp add: ceil_us_def Let_def v)
    then show ?thesis by (simp only: ceil_div(1) [OF True])
  next
    case False
    then have "t_ns (ceil_us t) = t_ns t div 1000 * 1000" by (simp add: ceil_us_def Let_def v)
    then show ?thesis by (simp only: ceil_div(2) [OF False])
  qed
qed

text \<open>
  C24: a range query is exact. When the driver encodes whole microseconds exactly, the rows
  read for a GPU are exactly its stored rows whose time lies between the requested bounds, at
  the nanosecond precision of the request, each once, ordered by time and then by identity.
\<close>

theorem range_exact:
  assumes "\<And>t. 1000 dvd t_ns t \<Longrightarrow> pg_micros P t = t_ns t div 1000"
  shows "mset (select_telemetry P uuid start until db) =
      mset (filter (\<lambda>r. tr_gpu_uuid r = uuid
          \<and> (case start of None \<Rightarrow> True | Some t \<Rightarrow> t_ns t \<le> tr_processed_at r * 1000)
          \<and> (case until of None \<Rightarrow> True | Some t \<Rightarrow> tr_processed_at r * 1000 \<le> t_ns t))
        (db_telemetry db))
    \<and> sorted_wrt (\<lambda>a b. tr_processed_at a < tr_processed_at b
          \<or> tr_processed_at a = tr_processed_at b
            \<and> pg_collate P (tr_event_id a) \<le> pg_collate P (tr_event_id b))
        (select_telemetry P uuid start until db)"
proof -
  have floor: "pg_micros P (floor_us t) = t_ns t div 1000" for t
    using assms [of "floor_us t"] by (simp add: floor_us_ns)
  have ceil: "pg_micros P (ceil_us t) = - (- t_ns t div 1000)" for t
    using assms [of "ceil_us t"] by (simp add: ceil_us_ns)
  have range: "in_range P start until r \<longleftrightarrow>
      (case start of None \<Rightarrow> True | Some t \<Rightarrow> t_ns t \<le> tr_processed_at r * 1000)
      \<and> (case until of None \<Rightarrow> True | Some t \<Rightarrow> tr_processed_at r * 1000 \<le> t_ns t)" for r
    by (simp add: in_range_def floor ceil le_scaled split: option.split)
  have "sorted_wrt (lex_le tr_processed_at (\<lambda>r. pg_collate P (tr_event_id r)))
      (select_telemetry P uuid start until db)"
    unfolding select_telemetry_def by (rule sort_twice)
  then show ?thesis
    by (simp add: select_telemetry_def range lex_le_def [abs_def])
qed

theorem range_exact_witness:
  "mset (select_telemetry ascii_pg ''g'' (Some (unix_time 4999)) None
     (filled [(1, [], sample_event ''a'' 5 ''h''), (2, [], sample_event ''b'' 3 ''k'')]))
   = mset (filter (\<lambda>r. tr_gpu_uuid r = ''g'' \<and> 4999 \<le> tr_processed_at r * 1000)
       (db_telemetry (filled [(1, [], sample_event ''a'' 5 ''h''), (2, [], sample_event ''b'' 3 ''k'')])))"
  using conjunct1 [OF range_exact [of ascii_pg "''g''" "Some (unix_time 4999)" None]]
  by (simp add: ascii_pg_def unix_time_def)

end
