(* ===== verification/Text.thy ===== *)
theory Text
  imports Prelude
begin

text \<open>Decimal notation, as \<^verbatim>\<open>fmt\<close> prints integers with \<^verbatim>\<open>%d\<close>, and the injectivity of it.\<close>

definition digit_char :: "nat \<Rightarrow> char" where
  "digit_char n = char_of (48 + n)"

fun decimal :: "nat \<Rightarrow> string" where
  "decimal n = (if n < 10 then [digit_char n] else decimal (n div 10) @ [digit_char (n mod 10)])"

declare decimal.simps [simp del]

definition decimal_int :: "int \<Rightarrow> string" where
  "decimal_int i = (if i < 0 then CHR ''-'' # decimal (nat (- i)) else decimal (nat i))"

definition decimal_value :: "string \<Rightarrow> nat" where
  "decimal_value s = foldl (\<lambda>a c. 10 * a + (of_char c - 48)) 0 s"

lemma of_digit_char: "n < 10 \<Longrightarrow> of_char (digit_char n) = 48 + n"
  by (simp add: digit_char_def)

lemma digit_char_less: "n < 10 \<Longrightarrow> digit_char n \<in> {c. 48 \<le> (of_char c :: nat) \<and> (of_char c :: nat) \<le> 57}"
  by (simp add: of_digit_char)

lemma decimal_digits: "c \<in> set (decimal n) \<Longrightarrow> 48 \<le> (of_char c :: nat) \<and> (of_char c :: nat) \<le> 57"
proof (induction n rule: decimal.induct)
  case (1 n)
  show ?case
  proof (cases "n < 10")
    case True
    with 1(2) show ?thesis by (simp add: decimal.simps [of n] of_digit_char)
  next
    case False
    with 1 show ?thesis by (auto simp: decimal.simps [of n] of_digit_char)
  qed
qed

lemma decimal_value_decimal [simp]: "decimal_value (decimal n) = n"
proof (induction n rule: decimal.induct)
  case (1 n)
  show ?case
  proof (cases "n < 10")
    case True
    then show ?thesis by (simp add: decimal.simps [of n] decimal_value_def of_digit_char)
  next
    case False
    have "decimal_value (decimal n) = 10 * decimal_value (decimal (n div 10)) + n mod 10"
      using False by (subst decimal.simps) (simp add: decimal_value_def of_digit_char)
    with 1 False show ?thesis by simp
  qed
qed

lemma decimal_inj [simp]: "decimal a = decimal b \<longleftrightarrow> a = b"
  by (metis decimal_value_decimal)

lemma decimal_nonempty [simp]: "decimal n \<noteq> []"
  by (subst decimal.simps) simp

lemma decimal_no_colon: "CHR '':'' \<notin> set (decimal n)"
  using decimal_digits [of "CHR '':''" n] by auto

text \<open>A 64-bit number has at most 20 digits.\<close>

lemma decimal_length: "n < 10 ^ k \<Longrightarrow> 0 < k \<Longrightarrow> length (decimal n) \<le> k"
proof (induction k arbitrary: n)
  case (Suc k)
  show ?case
  proof (cases "n < 10")
    case True
    then show ?thesis by (simp add: decimal.simps [of n])
  next
    case False
    then have "0 < k" using Suc.prems by (cases k) auto
    moreover have "n div 10 < 10 ^ k" using Suc.prems(1) by simp
    ultimately have "length (decimal (n div 10)) \<le> k" using Suc.IH by blast
    then show ?thesis using False by (subst decimal.simps) simp
  qed
qed simp

lemma decimal_u64: "length (decimal (unat (w :: u64))) \<le> 20"
proof (rule decimal_length)
  have "unat w < 2 ^ 64" using unsigned_less [of w, where ?'a = nat] by simp
  also have "(2 :: nat) ^ 64 < 10 ^ 20" by simp
  finally show "unat w < 10 ^ 20" .
qed simp

text \<open>Texts separated by a colon: the part before the first colon is determined.\<close>

lemma colon_split:
  assumes "CHR '':'' \<notin> set a" and "CHR '':'' \<notin> set c" and "a @ CHR '':'' # b = c @ CHR '':'' # d"
  shows "a = c \<and> b = d"
  using assms
proof (induction a arbitrary: c)
  case Nil
  then show ?case by (cases c) auto
next
  case (Cons x a)
  then show ?case by (cases c) auto
qed

end
