(* ===== verification/Collector.thy ===== *)
theory Collector
  imports Config Storage Text
begin

text \<open>
  internal/collector: one delivery at a time is persisted and then acknowledged. The Go
  interfaces \<^verbatim>\<open>Queue\<close> and \<^verbatim>\<open>Sink\<close> are the record \<open>deps\<close>, on an arbitrary state of the outside world;
  clocks, contexts, random numbers and timers are inputs of each attempt.
\<close>

section \<open>Data\<close>

record 'w deps =
  dp_Lease :: "int \<Rightarrow> 'w \<Rightarrow> (client_error + delivery option) \<times> 'w"
  dp_Ack :: "ack_request \<Rightarrow> 'w \<Rightarrow> (client_error + unit) \<times> 'w"
  dp_Nack :: "nack_request \<Rightarrow> 'w \<Rightarrow> (client_error + unit) \<times> 'w"
  dp_Persist :: "event \<Rightarrow> 'w \<Rightarrow> (store_error + unit) \<times> 'w"

datatype work_error =
  Work_context queue_error
| Work_queue client_error
| Work_store store_error

text \<open>\<^verbatim>\<open>queueclient.Retryable\<close> on any error: only errors of the client can be temporary.\<close>

definition work_retryable :: "work_error \<Rightarrow> bool" where
  "work_retryable err = (case err of Work_queue e \<Rightarrow> Retryable e | _ \<Rightarrow> False)"

definition lift_error :: "('e \<Rightarrow> work_error) \<Rightarrow> ('w \<Rightarrow> ('e + unit) \<times> 'w) \<Rightarrow> 'w \<Rightarrow> (work_error + unit) \<times> 'w" where
  "lift_error f action w = (case action w of
     (Inl e, w') \<Rightarrow> (Inl (f e), w')
   | (Inr u, w') \<Rightarrow> (Inr u, w'))"

text \<open>
  An attempt: the clock and whether the parent context is canceled when it starts, the random
  number \<^verbatim>\<open>rand.Int64N\<close> draws below a bound, and what waiting for a duration returns.
\<close>

record attempt_in =
  at_now :: int
  at_canceled :: bool
  at_random :: "int \<Rightarrow> int"
  at_wait :: "int \<Rightarrow> queue_error option"

section \<open>Retries\<close>

definition backoff :: "int \<Rightarrow> int \<Rightarrow> int" where
  "backoff d maximum = (if d \<ge> maximum div 2 then maximum else d * 2)"

definition pause_time :: "(int \<Rightarrow> int) \<Rightarrow> int \<Rightarrow> int" where
  "pause_time random d = d div 2 + random (d div 2 + 1)"

text \<open>The error of a context with a deadline.\<close>

definition work_err :: "int \<Rightarrow> attempt_in \<Rightarrow> queue_error option" where
  "work_err deadline x = (if at_canceled x then Some Canceled
     else if deadline \<le> at_now x then Some DeadlineExceeded else None)"

text \<open>The attempts not used are returned; \<open>None\<close> means that they were all used: still running.\<close>

fun retry_loop :: "int \<Rightarrow> collector_config \<Rightarrow> ('w \<Rightarrow> (work_error + unit) \<times> 'w) \<Rightarrow> bool \<Rightarrow> int \<Rightarrow>
    attempt_in list \<Rightarrow> 'w \<Rightarrow> (work_error + unit) option \<times> attempt_in list \<times> 'w" where
  "retry_loop deadline c action receipt delay [] w = (None, [], w)"
| "retry_loop deadline c action receipt delay (x # xs) w =
     (case work_err deadline x of
        Some err \<Rightarrow> (Some (Inl (Work_context err)), xs, w)
      | None \<Rightarrow>
          (case action w of
             (Inr _, w') \<Rightarrow> (Some (Inr ()), xs, w')
           | (Inl err, w') \<Rightarrow>
               if receipt \<and> \<not> work_retryable err then (Some (Inl err), xs, w')
               else (case at_wait x (pause_time (at_random x) delay) of
                   Some cerr \<Rightarrow> (Some (Inl (Work_context cerr)), xs, w')
                 | None \<Rightarrow> retry_loop deadline c action receipt (backoff delay (cc_RetryMax c)) xs w')))"

definition retry :: "int \<Rightarrow> collector_config \<Rightarrow> ('w \<Rightarrow> (work_error + unit) \<times> 'w) \<Rightarrow> bool \<Rightarrow>
    attempt_in list \<Rightarrow> 'w \<Rightarrow> (work_error + unit) option \<times> attempt_in list \<times> 'w" where
  "retry deadline c action receipt xs w = retry_loop deadline c action receipt (cc_RetryMin c) xs w"

section \<open>One delivery\<close>

definition validation_text :: "validation_error \<Rightarrow> string" where
  "validation_text v = (case v of
     Unsupported_schema n \<Rightarrow> ''unsupported schema_version: '' @ decimal_int n
   | Bad_ids \<Rightarrow> ''event and producer IDs must contain 1-128 bytes''
   | Bad_row_or_time \<Rightarrow> ''row_index must be positive; processed_at must have microsecond precision''
   | Missing_fields \<Rightarrow> ''gpu_uuid, metric_name and source_timestamp are required''
   | Not_finite \<Rightarrow> ''value must be finite'')"

text \<open>The texts of the errors of \<open>Store_Validate\<close>, the only ones asked for.\<close>

definition store_text :: "store_error \<Rightarrow> string" where
  "store_text err = (case err of
     Store_invalid v \<Rightarrow> validation_text v
   | Bad_text \<Rightarrow> ''event contains invalid UTF-8 or NUL text''
   | Bad_year \<Rightarrow> ''timestamp year must be 1..9999''
   | _ \<Rightarrow> [])"

definition reject_reason :: "store_error \<Rightarrow> string" where
  "reject_reason err = take 256 (''invalid event: '' @ store_text err)"

definition quarantine_request :: "delivery \<Rightarrow> store_error \<Rightarrow> nack_request" where
  "quarantine_request dl err = \<lparr>n_EventID = e_EventID (d_Event dl), n_Token = d_Token dl,
     n_Permanent = True, n_DelayMillis = 0, n_Reason = reject_reason err\<rparr>"

definition work_deadline :: "collector_config \<Rightarrow> int \<Rightarrow> delivery \<Rightarrow> int" where
  "work_deadline c now dl = (let deadline = now + cc_WorkTimeout c; expiry = t_ns (d_ExpiresAt dl) - 250 * Millisecond
     in if expiry < deadline then expiry else deadline)"

definition Process :: "collector_config \<Rightarrow> 'w deps \<Rightarrow> int \<Rightarrow> delivery \<Rightarrow> attempt_in list \<Rightarrow> 'w \<Rightarrow>
    (work_error + unit) option \<times> attempt_in list \<times> 'w" where
  "Process c q now dl xs w =
     (let deadline = work_deadline c now dl in
      case Store_Validate (d_Event dl) of
        Inl err \<Rightarrow> retry deadline c (lift_error Work_queue (dp_Nack q (quarantine_request dl err))) True xs w
      | Inr _ \<Rightarrow>
          (case retry deadline c (lift_error Work_store (dp_Persist q (d_Event dl))) False xs w of
             (Some (Inr _), xs', w') \<Rightarrow>
               retry deadline c (lift_error Work_queue (dp_Ack q
                 \<lparr>a_EventID = e_EventID (d_Event dl), a_Token = d_Token dl\<rparr>)) True xs' w'
           | other \<Rightarrow> other))"

section \<open>Workers\<close>

text \<open>
  One iteration of a worker: the fetch context at the head, after a failing lease and after a
  delivery; the clock \<^verbatim>\<open>Process\<close> reads; its attempts; and the pause (\<open>True\<close> when the context ends).
\<close>

record worker_in =
  wk_stopped :: bool
  wk_stopped_failed :: bool
  wk_stopped_leased :: bool
  wk_now :: int
  wk_attempts :: "attempt_in list"
  wk_random :: "int \<Rightarrow> int"
  wk_wait :: "int \<Rightarrow> bool"

definition worker_pause :: "worker_in \<Rightarrow> int \<Rightarrow> bool" where
  "worker_pause x d = wk_wait x (pause_time (wk_random x) d)"

text \<open>
  The result: \<open>Some None\<close> when the worker returned, \<open>Some (Some err)\<close> when it reported \<open>err\<close> and
  stopped the others, \<open>None\<close> when its inputs were used up: it is still running.
\<close>

fun worker :: "collector_config \<Rightarrow> 'w deps \<Rightarrow> worker_in list \<Rightarrow> int \<Rightarrow> 'w \<Rightarrow> client_error option option \<times> 'w" where
  "worker c q [] delay w = (None, w)"
| "worker c q (x # xs) delay w =
     (if wk_stopped x then (Some None, w)
      else case dp_Lease q (cc_LeaseWait c) w of
          (Inl err, w1) \<Rightarrow>
            if wk_stopped_failed x then (Some None, w1)
            else if \<not> Retryable err then (Some (Some err), w1)
            else if worker_pause x delay then (Some None, w1)
            else worker c q xs (backoff delay (cc_RetryMax c)) w1
        | (Inr None, w1) \<Rightarrow>
            if worker_pause x (cc_RetryMin c) then (Some None, w1) else worker c q xs delay w1
        | (Inr (Some dl), w1) \<Rightarrow>
            if wk_stopped_leased x then (Some None, w1)
            else (case Process c q (wk_now x) dl (wk_attempts x) w1 of
                (None, _, w2) \<Rightarrow> (None, w2)
              | (Some (Inl _), _, w2) \<Rightarrow>
                  if worker_pause x delay then (Some None, w2)
                  else worker c q xs (backoff delay (cc_RetryMax c)) w2
              | (Some (Inr _), _, w2) \<Rightarrow> worker c q xs (cc_RetryMin c) w2))"

text \<open>
  \<^verbatim>\<open>Run\<close> joins what its workers reported. Each reports at most once, so the channel of capacity
  \<^verbatim>\<open>c.Workers\<close> never blocks them.
\<close>

fun join_failures :: "client_error option list \<Rightarrow> client_error list" where
  "join_failures [] = []"
| "join_failures (None # rs) = join_failures rs"
| "join_failures (Some err # rs) = err # join_failures rs"

definition safeError :: "work_error \<Rightarrow> string" where
  "safeError err = (case err of
     Work_context DeadlineExceeded \<Rightarrow> ''processing deadline exceeded''
   | Work_context Canceled \<Rightarrow> ''processing canceled''
   | Work_queue (Context_error DeadlineExceeded) \<Rightarrow> ''processing deadline exceeded''
   | Work_queue (Context_error Canceled) \<Rightarrow> ''processing canceled''
   | _ \<Rightarrow> ''operation failed'')"

section \<open>Health\<close>

datatype health_request = Get_healthz | Get_readyz

text \<open>\<open>stopped\<close> is the lifetime context, \<open>ready\<close> the outcome of the database check.\<close>

definition HealthHandler :: "bool \<Rightarrow> bool \<Rightarrow> health_request \<Rightarrow> int \<times> string" where
  "HealthHandler stopped ready req = (case req of
     Get_healthz \<Rightarrow> (200, ''ok'' @ [CHR 0x0A])
   | Get_readyz \<Rightarrow> if stopped \<or> \<not> ready then (503, ''database unavailable or migrations missing'' @ [CHR 0x0A])
                else (200, ''ready'' @ [CHR 0x0A]))"

section \<open>Bounds\<close>

lemma backoff_bounds: "0 < d \<Longrightarrow> d \<le> m \<Longrightarrow> d \<le> backoff d m \<and> backoff d m \<le> m"
  unfolding backoff_def by auto

lemma backoff_le: "d \<le> m \<Longrightarrow> backoff d m \<le> m"
  unfolding backoff_def by auto

lemma backoff_doubled: "min m y \<le> x \<Longrightarrow> 0 < x \<Longrightarrow> x \<le> m \<Longrightarrow> min m (2 * y) \<le> backoff x m"
  unfolding backoff_def min_def by (auto split: if_splits)

text \<open>After as many failures as the maximum has binary digits the backoff has reached it.\<close>

lemma backoff_reaches:
  assumes "0 < d" and "d \<le> m"
  shows "min m (2 ^ n * d) \<le> ((\<lambda>x. backoff x m) ^^ n) d \<and> 0 < ((\<lambda>x. backoff x m) ^^ n) d
    \<and> ((\<lambda>x. backoff x m) ^^ n) d \<le> m"
proof (induction n)
  case (Suc n)
  let ?x = "((\<lambda>x. backoff x m) ^^ n) d"
  have "min m (2 * (2 ^ n * d)) \<le> backoff ?x m" using Suc.IH by (intro backoff_doubled) blast+
  moreover have "?x \<le> backoff ?x m \<and> backoff ?x m \<le> m" using Suc.IH by (intro backoff_bounds) blast+
  ultimately show ?case using Suc.IH by (simp add: mult.assoc)
qed (use assms in simp)

lemma backoff_range:
  assumes "0 < d" and "d \<le> m"
  shows "d \<le> ((\<lambda>x. backoff x m) ^^ n) d \<and> ((\<lambda>x. backoff x m) ^^ n) d \<le> m"
proof (induction n)
  case (Suc n)
  let ?x = "((\<lambda>x. backoff x m) ^^ n) d"
  have "?x \<le> backoff ?x m \<and> backoff ?x m \<le> m" using Suc assms by (intro backoff_bounds) linarith+
  with Suc show ?case by simp
qed (use assms in simp)

lemma decimal_int_length: "int64_range n \<Longrightarrow> length (decimal_int n) \<le> 21"
proof -
  assume "int64_range n"
  then have "nat n < 10 ^ 20" and "nat (- n) < 10 ^ 20" by (auto simp: int64_range_def)
  then have "length (decimal (nat n)) \<le> 20" and "length (decimal (nat (- n))) \<le> 20"
    by (auto intro: decimal_length)
  then show ?thesis by (simp add: decimal_int_def)
qed

text \<open>The request that quarantines an event is one the broker accepts as well-formed.\<close>

lemma quarantine_request_ok: "\<not> bad_nack (quarantine_request dl err)"
  by (simp add: bad_nack_def quarantine_request_def reject_reason_def unit_defs)

section \<open>The interface to queue and database\<close>

text \<open>
  What \<open>Process\<close> relies on and guarantees: \<open>guar\<close> are the changes of the world that are allowed. A
  successful persist makes the event's row \<open>stored\<close>, no allowed change undoes that, and an ACK
  is an allowed change once the row is stored.
\<close>

locale delivery_world =
  fixes q :: "'w deps" and ok :: "'w \<Rightarrow> bool" and guar :: "'w \<Rightarrow> 'w \<Rightarrow> bool" and stored :: "'w \<Rightarrow> string \<Rightarrow> bool"
  assumes guar_refl: "guar w w"
    and guar_trans: "guar u v \<Longrightarrow> guar v w \<Longrightarrow> guar u w"
    and guar_stored: "guar w w' \<Longrightarrow> stored w i \<Longrightarrow> stored w' i"
    and lease_guar: "ok w \<Longrightarrow> dp_Lease q t w = (lr, w') \<Longrightarrow> ok w' \<and> guar w w'"
    and nack_guar: "ok w \<Longrightarrow> dp_Nack q n w = (r, w') \<Longrightarrow> ok w' \<and> guar w w'"
    and persist_guar: "ok w \<Longrightarrow> dp_Persist q e w = (sr, w') \<Longrightarrow>
      ok w' \<and> guar w w' \<and> (sr = Inr () \<longrightarrow> stored w' (e_EventID e))"
    and ack_guar: "ok w \<Longrightarrow> stored w (a_EventID a) \<Longrightarrow> dp_Ack q a w = (r, w') \<Longrightarrow> ok w' \<and> guar w w'"
begin

lemma retry_loop_guar:
  assumes act: "\<And>w r w'. J w \<Longrightarrow> action w = (r, w') \<Longrightarrow> guar w w' \<and> J w' \<and> (r = Inr () \<longrightarrow> K w')"
    and "J w" and "retry_loop deadline c action receipt delay xs w = (res, xs', w')"
  shows "guar w w' \<and> J w' \<and> (res = Some (Inr ()) \<longrightarrow> K w')"
  using assms(2,3)
proof (induction xs arbitrary: delay w)
  case Nil
  then show ?case by (simp add: guar_refl)
next
  case (Cons x xs)
  obtain r w1 where run: "action w = (r, w1)" by fastforce
  from act [OF Cons.prems(1) run] have 1: "guar w w1" "J w1" "r = Inr () \<longrightarrow> K w1" by blast+
  consider (ctx) err where "work_err deadline x = Some err"
    | (ok) "work_err deadline x = None" and "r = Inr ()"
    | (failed) err where "work_err deadline x = None" and "r = Inl err"
    by (cases "work_err deadline x"; cases r) auto
  then show ?case
  proof cases
    case ctx
    with Cons.prems show ?thesis by (auto simp: guar_refl)
  next
    case ok
    with Cons.prems run 1 show ?thesis by simp
  next
    case failed
    show ?thesis
    proof (cases "receipt \<and> \<not> work_retryable err \<or> at_wait x (pause_time (at_random x) delay) \<noteq> None")
      case True
      with Cons.prems run failed 1 show ?thesis by (auto split: if_splits option.splits)
    next
      case False
      with Cons.prems run failed
      have "retry_loop deadline c action receipt (backoff delay (cc_RetryMax c)) xs w1 = (res, xs', w')"
        by auto
      from Cons.IH [OF 1(2) this] 1(1) guar_trans show ?thesis by blast
    qed
  qed
qed

lemma Process_guar:
  assumes ok: "ok w" and run: "Process c q now dl xs w = (res, xs', w')"
  shows "ok w' \<and> guar w w'"
proof (cases "Store_Validate (d_Event dl)")
  case (Inl err)
  have act: "guar v v' \<and> ok v' \<and> (r = Inr () \<longrightarrow> True)"
    if "ok v" and "lift_error Work_queue (dp_Nack q (quarantine_request dl err)) v = (r, v')" for v v' r
    using that nack_guar by (fastforce simp: lift_error_def split: prod.splits sum.splits)
  from run Inl have "retry_loop (work_deadline c now dl) c
      (lift_error Work_queue (dp_Nack q (quarantine_request dl err))) True (cc_RetryMin c) xs w = (res, xs', w')"
    by (simp add: Process_def Let_def retry_def)
  from retry_loop_guar [where J = ok and K = "\<lambda>_. True", OF act ok this] show ?thesis by blast
next
  case (Inr u)
  let ?dead = "work_deadline c now dl" and ?id = "e_EventID (d_Event dl)"
  obtain r ys w1 where persist: "retry_loop ?dead c (lift_error Work_store (dp_Persist q (d_Event dl)))
      False (cc_RetryMin c) xs w = (r, ys, w1)" by (metis surj_pair)
  have "guar v v' \<and> ok v' \<and> (r = Inr () \<longrightarrow> stored v' ?id)"
    if "ok v" and "lift_error Work_store (dp_Persist q (d_Event dl)) v = (r, v')" for v v' r
    using that persist_guar by (fastforce simp: lift_error_def split: prod.splits sum.splits)
  from retry_loop_guar [where J = ok and K = "\<lambda>v. stored v ?id", OF this ok persist]
  have 1: "guar w w1" "ok w1" "r = Some (Inr ()) \<longrightarrow> stored w1 ?id" by blast+
  show ?thesis
  proof (cases "r = Some (Inr ())")
    case True
    let ?a = "\<lparr>a_EventID = ?id, a_Token = d_Token dl\<rparr>"
    have ack: "guar v v' \<and> (ok v' \<and> stored v' ?id) \<and> (r = Inr () \<longrightarrow> True)"
      if st: "ok v \<and> stored v ?id" and act: "lift_error Work_queue (dp_Ack q ?a) v = (r, v')" for v v' r
    proof -
      obtain r0 where "dp_Ack q ?a v = (r0, v')"
        using act by (auto simp: lift_error_def split: prod.splits sum.splits)
      with ack_guar [of v ?a] st guar_stored show ?thesis by fastforce
    qed
    from run Inr True persist
    have "retry_loop ?dead c (lift_error Work_queue (dp_Ack q ?a)) True (cc_RetryMin c) ys w1 = (res, xs', w')"
      by (simp add: Process_def Let_def retry_def)
    then have "guar w1 w' \<and> ok w'"
      using retry_loop_guar [where J = "\<lambda>v. ok v \<and> stored v ?id" and K = "\<lambda>_. True", OF ack] 1 True by blast
    with 1 guar_trans show ?thesis by blast
  next
    case False
    with run Inr persist 1 show ?thesis
      by (auto simp: Process_def Let_def retry_def split: option.splits sum.splits)
  qed
qed

lemma worker_guar: "ok w \<Longrightarrow> worker c q xs delay w = (res, w') \<Longrightarrow> ok w' \<and> guar w w'"
proof (induction xs arbitrary: delay w)
  case Nil
  then show ?case by (simp add: guar_refl)
next
  case (Cons x xs)
  obtain lr w1 where lease: "dp_Lease q (cc_LeaseWait c) w = (lr, w1)" by fastforce
  note 1 = lease_guar [OF Cons.prems(1) lease]
  have on: "worker c q xs delay' v = (res, w') \<Longrightarrow> ok v \<and> guar w v \<Longrightarrow> ok w' \<and> guar w w'" for delay' v
    using Cons.IH guar_trans by blast
  show ?case
  proof (cases "wk_stopped x")
    case False
    show ?thesis
    proof (cases "\<exists>dl. lr = Inr (Some dl)")
      case True
      then obtain dl where dl: "lr = Inr (Some dl)" by blast
      obtain r ys w2 where proc: "Process c q (wk_now x) dl (wk_attempts x) w1 = (r, ys, w2)"
        by (metis surj_pair)
      have 2: "ok w2 \<and> guar w w2" using Process_guar [OF _ proc] 1 guar_trans by blast
      with Cons.prems False lease dl proc 1 on [of _ w2] show ?thesis
        by (auto split: if_splits option.splits sum.splits)
    next
      case other: False
      with Cons.prems False lease 1 on [of _ w1] show ?thesis
        by (auto split: if_splits option.splits sum.splits)
    qed
  qed (use Cons.prems in \<open>simp add: guar_refl\<close>)
qed

end

end
