(* ===== verification/Pipeline.thy ===== *)
theory Pipeline
  imports Collector
begin

text \<open>
  The parts together: collectors lease from the durable broker over HTTP, persist in the
  database and acknowledge, while publishers, other collectors, cleanups, crashes and restarts
  go on around every call and the network loses requests and responses.
\<close>

section \<open>Everything that may happen\<close>

text \<open>
  A step of the whole system on the broker and the tables: any step of the broker, in which an
  ACK may complete an event only when its row is stored, and any attempt to persist an event.
\<close>

inductive pipeline_step :: "'db env \<Rightarrow> durable_options \<Rightarrow> ('k :: linorder) pg \<Rightarrow> (event \<Rightarrow> bytes option) \<Rightarrow>
    'db broker \<times> tables \<Rightarrow> 'db broker \<times> tables \<Rightarrow> bool"
  for E :: "'db env" and p :: durable_options and P :: "'k pg" and enc :: "event \<Rightarrow> bytes option" where
  broker: "broker_step E p d l d' \<Longrightarrow>
    (\<And>a now. l = LAck a now (Inr False) \<Longrightarrow> tel_lookup db (a_EventID a) \<noteq> None) \<Longrightarrow>
    pipeline_step E p P enc (d, db) (d', db)"
| persist: "Persist P enc ingested fate e db = (r, db') \<Longrightarrow> pipeline_step E p P enc (d, db) (d, db')"

abbreviation pipeline_steps :: "'db env \<Rightarrow> durable_options \<Rightarrow> ('k :: linorder) pg \<Rightarrow> (event \<Rightarrow> bytes option) \<Rightarrow>
    'db broker \<times> tables \<Rightarrow> 'db broker \<times> tables \<Rightarrow> bool" where
  "pipeline_steps E p P enc \<equiv> (pipeline_step E p P enc)\<^sup>*\<^sup>*"

text \<open>A row once stored stays, unchanged.\<close>

lemma pipeline_step_stored:
  "pipeline_step E p P enc v v' \<Longrightarrow> tel_lookup (snd v) i = Some row \<Longrightarrow> tel_lookup (snd v') i = Some row"
proof (induction rule: pipeline_step.induct)
  case (persist ingested fate e db r db' d)
  from Persist_effect(2) [OF persist(1)] have "db' = db \<or> (\<exists>b. db' = persist_tx P ingested b e db)" by blast
  with persist(2) show ?case by (auto simp: persist_lookup)
qed simp

section \<open>A collector in the whole system\<close>

text \<open>
  One call of a collector to the outside: \<open>tn_before\<close> is what everybody else does before it takes
  effect, \<open>tn_net\<close> what happens to request and response, the rest are the inputs of the broker's
  handler and of the database transaction.
\<close>

datatype net_fate = Request_lost | Reply_lost | Delivered

record 'db turn =
  tn_before :: "'db broker \<times> tables \<Rightarrow> 'db broker \<times> tables"
  tn_in :: op_in
  tn_lease :: "'db lease_in list"
  tn_net :: net_fate
  tn_fate :: tx_fate
  tn_ingested :: int

record 'db world =
  wd_core :: "'db broker \<times> tables"
  wd_script :: "'db turn list"

definition take_turn :: "('db turn \<Rightarrow> 'db broker \<times> tables \<Rightarrow> 'r \<times> 'db broker \<times> tables) \<Rightarrow> 'r \<Rightarrow> 'db world \<Rightarrow>
    'r \<times> 'db world" where
  "take_turn f unreachable w = (case wd_script w of
     [] \<Rightarrow> (unreachable, w)
   | x # xs \<Rightarrow> (case f x (tn_before x (wd_core w)) of
       (r, core) \<Rightarrow> (r, \<lparr>wd_core = core, wd_script = xs\<rparr>)))"

text \<open>A request to the broker's HTTP handler. A handler that has not answered yet counts as a lost reply.\<close>

definition http_call :: "'db env \<Rightarrow> (payload \<Rightarrow> bytes) \<Rightarrow> durable_request \<Rightarrow> 'db turn \<Rightarrow> 'db broker \<Rightarrow>
    exchange \<times> 'db broker" where
  "http_call E encp req x d = (case tn_net x of
     Request_lost \<Rightarrow> (Do_failed None, d)
   | Reply_lost \<Rightarrow> (Do_failed None, snd (durable_handle (broker_ops E (tn_in x) (tn_lease x) None) req d))
   | Delivered \<Rightarrow>
       (case durable_handle (broker_ops E (tn_in x) (tn_lease x) None) req d of
          (None, d') \<Rightarrow> (Do_failed None, d')
        | (Some r, d') \<Rightarrow> (deliver_response encp r, d')))"

definition over_http :: "'db env \<Rightarrow> (payload \<Rightarrow> bytes) \<Rightarrow> durable_request \<Rightarrow> (exchange \<Rightarrow> 'r) \<Rightarrow> 'db world \<Rightarrow>
    'r \<times> 'db world" where
  "over_http E encp req receive = take_turn (\<lambda>x (d, db). case http_call E encp req x d of
     (ex, d') \<Rightarrow> (receive ex, d', db)) (receive (Do_failed None))"

text \<open>The queue client and the store as the collector's dependencies.\<close>

definition system_deps :: "'db env \<Rightarrow> ('k :: linorder) pg \<Rightarrow> (event \<Rightarrow> bytes option) \<Rightarrow> codec \<Rightarrow>
    (payload \<Rightarrow> bytes) \<Rightarrow> client \<Rightarrow> 'db world deps" where
  "system_deps E P enc J encp cl =
     \<lparr>dp_Lease = (\<lambda>wait w. if bad_lease_wait cl wait then (LeaseForProcessing J cl wait Not_built, w)
        else over_http E encp (Post_leases (Inr (wait div Millisecond), Inl Body_eof))
               (LeaseForProcessing J cl wait) w),
      dp_Ack = (\<lambda>a. over_http E encp (Post_acks (Inr a, Inl Body_eof)) (Client_Ack J a (Some []))),
      dp_Nack = (\<lambda>n. over_http E encp (Post_nacks (Inr n, Inl Body_eof)) (Client_Nack J n (Some []))),
      dp_Persist = (\<lambda>e. take_turn (\<lambda>x (d, db). case Persist P enc (tn_ingested x) (tn_fate x) e db of
        (r, db') \<Rightarrow> (r, d, db')) (Inl Database_error))\<rparr>"

text \<open>What is asked of the environment: clocks in range, and only steps of the system.\<close>

definition lease_in_ok :: "'db env \<Rightarrow> durable_options \<Rightarrow> ('k :: linorder) pg \<Rightarrow> (event \<Rightarrow> bytes option) \<Rightarrow>
    'db lease_in \<Rightarrow> bool" where
  "lease_in_ok E p P enc li \<longleftrightarrow> clock_ok (i_now (l_try li))
     \<and> (\<forall>d db. pipeline_steps E p P enc (d, db) (l_between li d, db))
     \<and> (\<forall>d db. pipeline_steps E p P enc (d, db) (l_others li d, db))"

definition turn_ok :: "'db env \<Rightarrow> durable_options \<Rightarrow> ('k :: linorder) pg \<Rightarrow> (event \<Rightarrow> bytes option) \<Rightarrow>
    'db turn \<Rightarrow> bool" where
  "turn_ok E p P enc x \<longleftrightarrow> clock_ok (i_now (tn_in x)) \<and> (\<forall>li \<in> set (tn_lease x). lease_in_ok E p P enc li)
     \<and> (\<forall>v. pipeline_steps E p P enc v (tn_before x v))"

definition world_ok :: "'db env \<Rightarrow> durable_options \<Rightarrow> ('k :: linorder) pg \<Rightarrow> (event \<Rightarrow> bytes option) \<Rightarrow>
    'db world \<Rightarrow> bool" where
  "world_ok E p P enc w \<longleftrightarrow> (\<forall>x \<in> set (wd_script w). turn_ok E p P enc x)"

section \<open>Every change is a step of the system\<close>

lemma lease_steps:
  assumes "clock_ok (i_now i)" and "tryLease E d i = (res, d')"
  shows "pipeline_steps E p P enc (d, db) (d', db)"
  by (intro r_into_rtranclp pipeline_step.broker [OF broker_step.lease [OF assms]]) simp

lemma Lease_round_steps:
  assumes li: "lease_in_ok E p P enc li" and run: "Lease_round E wait li d = (res, d')"
  shows "pipeline_steps E p P enc (d, db) (d', db)"
proof (cases "l_ctx li = None \<and> lease_due E d (l_view li) = Inr True")
  case True
  obtain r d1 where tr: "tryLease E (l_between li d) (l_try li) = (r, d1)" by fastforce
  have "d1 = d'" using run True tr by (auto simp: Lease_round_def split: sum.splits option.splits)
  moreover have "clock_ok (i_now (l_try li))" and "pipeline_steps E p P enc (d, db) (l_between li d, db)"
    using li unfolding lease_in_ok_def by blast+
  ultimately show ?thesis using lease_steps [OF _ tr] rtranclp_trans by metis
next
  case False
  with run have "d' = d" by (auto simp: Lease_round_def split: option.splits sum.splits bool.splits)
  then show ?thesis by simp
qed

lemma Lease_steps:
  assumes "\<forall>li \<in> set xs. lease_in_ok E p P enc li" and "Lease_loop E wait xs d = (res, d')"
  shows "pipeline_steps E p P enc (d, db) (d', db)"
  using assms
proof (induction xs arbitrary: d)
  case (Cons li xs)
  obtain r d1 where round: "Lease_round E wait li d = (r, d1)" by fastforce
  have li: "lease_in_ok E p P enc li" using Cons.prems(1) by simp
  note 1 = Lease_round_steps [OF li round, where db = db]
  show ?case
  proof (cases r)
    case None
    let ?d2 = "l_others li d1"
    have 2: "pipeline_steps E p P enc (d, db) (?d2, db)"
    proof (rule rtranclp_trans [OF 1])
      show "pipeline_steps E p P enc (d1, db) (?d2, db)" using li unfolding lease_in_ok_def by blast
    qed
    have 3: "pipeline_steps E p P enc (?d2, db) (?d2\<lparr>b_notify := False\<rparr>, db)"
      by (intro r_into_rtranclp pipeline_step.broker [OF broker_step.wake]) simp
    show ?thesis
    proof (cases "l_wake li")
      case WNotify
      then have "Lease_loop E wait xs (?d2\<lparr>b_notify := False\<rparr>) = (res, d')"
        using Cons.prems(2) round None by (simp add: Let_def)
      with Cons.IH Cons.prems(1) 2 3 show ?thesis by (meson list.set_intros(2) rtranclp_trans)
    next
      case WTimer
      then have "Lease_loop E wait xs ?d2 = (res, d')"
        using Cons.prems(2) round None by (simp add: Let_def)
      with Cons.IH Cons.prems(1) 2 show ?thesis by (meson list.set_intros(2) rtranclp_trans)
    qed (use Cons.prems(2) round None 2 in \<open>auto simp: Let_def\<close>)
  qed (use Cons.prems(2) round 1 in simp)
qed simp

lemma take_turn_cases:
  assumes "take_turn f unreachable w = (r, w')" and "world_ok E p P enc w"
  obtains (none) "w' = w" and "r = unreachable"
  | (turn) x where "turn_ok E p P enc x" and "f x (tn_before x (wd_core w)) = (r, wd_core w')"
      and "world_ok E p P enc w'" and "pipeline_steps E p P enc (wd_core w) (tn_before x (wd_core w))"
proof (cases "wd_script w")
  case Nil
  with assms none show ?thesis by (simp add: take_turn_def)
next
  case (Cons x xs)
  let ?v = "tn_before x (wd_core w)"
  obtain core where run: "f x ?v = (r, core)" and w': "w' = \<lparr>wd_core = core, wd_script = xs\<rparr>"
    using assms(1) Cons by (auto simp: take_turn_def split: prod.splits)
  have ok: "turn_ok E p P enc x" "world_ok E p P enc w'" using assms(2) Cons w' by (simp_all add: world_ok_def)
  have "pipeline_steps E p P enc (wd_core w) ?v" using ok(1) unfolding turn_ok_def by blast
  with turn [of x] ok run w' show ?thesis by simp
qed

text \<open>A call over HTTP changes the broker as its handler does, or not at all.\<close>

lemma over_http_cases:
  fixes E :: "'db env"
  assumes "over_http E encp req receive w = (r, w')" and "world_ok E p P enc w"
  obtains (none) "w' = w"
  | (call) x d db d' where "turn_ok E p P enc x" and "world_ok E p P enc w'"
      and "pipeline_steps E p P enc (wd_core w) (d, db)" and "wd_core w' = (d', db)"
      and "d' = d \<or> d' = snd (durable_handle (broker_ops E (tn_in x) (tn_lease x) None) req d)"
proof (rule take_turn_cases [OF assms(1) [unfolded over_http_def] assms(2)])
  assume "w' = w"
  then show ?thesis by (rule none)
next
  fix x :: "'db turn"
  let ?v = "tn_before x (wd_core w)"
  assume ok: "turn_ok E p P enc x" "world_ok E p P enc w'" "pipeline_steps E p P enc (wd_core w) ?v"
    and run: "(\<lambda>(d, db). case http_call E encp req x d of (ex, d') \<Rightarrow> (receive ex, d', db)) ?v = (r, wd_core w')"
  obtain d db where v: "?v = (d, db)" by fastforce
  obtain ex d' where http: "http_call E encp req x d = (ex, d')" by fastforce
  have "d' = d \<or> d' = snd (durable_handle (broker_ops E (tn_in x) (tn_lease x) None) req d)"
    using http by (auto simp: http_call_def split: net_fate.splits prod.splits option.splits)
  moreover have "wd_core w' = (d', db)" using run v http by simp
  ultimately show ?thesis using call [of x d db d'] ok v by simp
qed

lemma pipeline_steps_stored:
  "pipeline_steps E p P enc v v' \<Longrightarrow> tel_lookup (snd v) i = Some row \<Longrightarrow> tel_lookup (snd v') i = Some row"
  by (induction rule: rtranclp_induct) (auto dest: pipeline_step_stored)

lemma handle_nack:
  "durable_handle R (Post_nacks (Inr n, Inl Body_eof)) s = (case so_Nack R n s of
     (res, s') \<Rightarrow> (Some (receipt_response (n_EventID n) res), s'))"
  by (simp add: durable_handle_def decode_def)

lemma handle_lease:
  "durable_handle R (Post_leases (Inr wait, Inl Body_eof)) s = (r, s') \<Longrightarrow>
     s' = s \<or> s' = snd (so_Lease R (wait * Millisecond) s)"
  by (auto simp: durable_handle_def decode_def split: if_splits prod.splits option.splits sum.splits)

definition row_stored :: "'db world \<Rightarrow> string \<Rightarrow> bool" where
  "row_stored w i \<longleftrightarrow> tel_lookup (snd (wd_core w)) i \<noteq> None"

lemma system_lease:
  assumes ok: "world_ok E p P enc w" and run: "dp_Lease (system_deps E P enc J encp cl) wait w = (r, w')"
  shows "world_ok E p P enc w' \<and> pipeline_steps E p P enc (wd_core w) (wd_core w')"
proof (cases "bad_lease_wait cl wait")
  case True
  with run ok show ?thesis by (simp add: system_deps_def)
next
  case False
  with run have "over_http E encp (Post_leases (Inr (wait div Millisecond), Inl Body_eof))
      (LeaseForProcessing J cl wait) w = (r, w')" by (simp add: system_deps_def)
  then show ?thesis
  proof (rule over_http_cases [OF _ ok])
    fix x :: "'a turn" and d db d'
    let ?ops = "broker_ops E (tn_in x) (tn_lease x) None"
    assume x: "turn_ok E p P enc x" and ok': "world_ok E p P enc w'"
      and 1: "pipeline_steps E p P enc (wd_core w) (d, db)" and core: "wd_core w' = (d', db)"
      and d': "d' = d \<or> d' = snd (durable_handle ?ops (Post_leases (Inr (wait div Millisecond), Inl Body_eof)) d)"
    have loop: "pipeline_steps E p P enc (d, db) (snd (Lease_loop E t (tn_lease x) d), db)" for t
      using Lease_steps [OF _ surjective_pairing, of "tn_lease x" E p P enc] x unfolding turn_ok_def by blast
    have "snd (so_Lease ?ops t d) = d \<or> snd (so_Lease ?ops t d) = snd (Lease_loop E t (tn_lease x) d)" for t
      by (simp add: broker_ops_def Lease_def)
    then have "d' = d \<or> (\<exists>t. d' = snd (Lease_loop E t (tn_lease x) d))"
      using d' handle_lease [of ?ops "wait div Millisecond" d] by (metis prod.collapse)
    with loop have "pipeline_steps E p P enc (d, db) (d', db)" by auto
    with 1 ok' core show ?thesis by (simp add: rtranclp_trans)
  qed (use ok in simp)
qed

lemma system_nack:
  assumes ok: "world_ok E p P enc w" and run: "dp_Nack (system_deps E P enc J encp cl) n w = (r, w')"
  shows "world_ok E p P enc w' \<and> pipeline_steps E p P enc (wd_core w) (wd_core w')"
proof -
  from run have "over_http E encp (Post_nacks (Inr n, Inl Body_eof)) (Client_Nack J n (Some [])) w = (r, w')"
    by (simp add: system_deps_def)
  then show ?thesis
  proof (rule over_http_cases [OF _ ok])
    fix x :: "'a turn" and d db d'
    assume x: "turn_ok E p P enc x" and ok': "world_ok E p P enc w'"
      and 1: "pipeline_steps E p P enc (wd_core w) (d, db)" and core: "wd_core w' = (d', db)"
      and d': "d' = d \<or> d' = snd (durable_handle (broker_ops E (tn_in x) (tn_lease x) None)
        (Post_nacks (Inr n, Inl Body_eof)) d)"
    have "clock_ok (i_now (tn_in x))" using x by (simp add: turn_ok_def)
    then have "pipeline_steps E p P enc (d, db) (snd (Nack E d (tn_in x) n), db)"
      by (intro r_into_rtranclp pipeline_step.broker [OF broker_step.nack [OF _ surjective_pairing]]) simp_all
    with d' have "pipeline_steps E p P enc (d, db) (d', db)"
      by (auto simp: handle_nack broker_ops_def split: prod.splits)
    with 1 ok' core show ?thesis by (simp add: rtranclp_trans)
  qed (use ok in simp)
qed

lemma system_ack:
  assumes ok: "world_ok E p P enc w" and stored: "row_stored w (a_EventID a)"
    and run: "dp_Ack (system_deps E P enc J encp cl) a w = (r, w')"
  shows "world_ok E p P enc w' \<and> pipeline_steps E p P enc (wd_core w) (wd_core w')"
proof -
  from run have "over_http E encp (Post_acks (Inr a, Inl Body_eof)) (Client_Ack J a (Some [])) w = (r, w')"
    by (simp add: system_deps_def)
  then show ?thesis
  proof (rule over_http_cases [OF _ ok])
    fix x :: "'a turn" and d db d'
    assume x: "turn_ok E p P enc x" and ok': "world_ok E p P enc w'"
      and 1: "pipeline_steps E p P enc (wd_core w) (d, db)" and core: "wd_core w' = (d', db)"
      and d': "d' = d \<or> d' = snd (durable_handle (broker_ops E (tn_in x) (tn_lease x) None)
        (Post_acks (Inr a, Inl Body_eof)) d)"
    have "clock_ok (i_now (tn_in x))" using x by (simp add: turn_ok_def)
    moreover have "tel_lookup db (a_EventID a) \<noteq> None"
      using stored pipeline_steps_stored [OF 1] by (auto simp: row_stored_def)
    ultimately have "pipeline_steps E p P enc (d, db) (snd (Ack E d (tn_in x) a), db)"
      by (intro r_into_rtranclp pipeline_step.broker [OF broker_step.ack [OF _ surjective_pairing]]) simp_all
    with d' have "pipeline_steps E p P enc (d, db) (d', db)"
      by (auto simp: handle_ack broker_ops_def split: prod.splits)
    with 1 ok' core show ?thesis by (simp add: rtranclp_trans)
  qed (use ok in simp)
qed

lemma system_persist:
  assumes ok: "world_ok E p P enc w" and run: "dp_Persist (system_deps E P enc J encp cl) e w = (r, w')"
  shows "world_ok E p P enc w' \<and> pipeline_steps E p P enc (wd_core w) (wd_core w')
    \<and> (r = Inr () \<longrightarrow> row_stored w' (e_EventID e))"
proof -
  from run have "take_turn (\<lambda>x (d, db). case Persist P enc (tn_ingested x) (tn_fate x) e db of
      (r, db') \<Rightarrow> (r, d, db')) (Inl Database_error) w = (r, w')" by (simp add: system_deps_def)
  then show ?thesis
  proof (rule take_turn_cases [OF _ ok])
    fix x :: "'a turn"
    assume ok': "world_ok E p P enc w'" and 1: "pipeline_steps E p P enc (wd_core w) (tn_before x (wd_core w))"
      and act: "(\<lambda>(d, db). case Persist P enc (tn_ingested x) (tn_fate x) e db of (r, db') \<Rightarrow> (r, d, db'))
        (tn_before x (wd_core w)) = (r, wd_core w')"
    obtain d db where v: "tn_before x (wd_core w) = (d, db)" by fastforce
    obtain r' db' where per: "Persist P enc (tn_ingested x) (tn_fate x) e db = (r', db')" by fastforce
    with act v have core: "wd_core w' = (d, db')" and "r' = r" by simp_all
    moreover have "pipeline_steps E p P enc (d, db) (d, db')"
      by (intro r_into_rtranclp pipeline_step.persist [OF per])
    ultimately show ?thesis
      using 1 v ok' Persist_effect(1) [OF per] by (auto simp: row_stored_def intro: rtranclp_trans)
  qed (use ok in auto)
qed

interpretation system: delivery_world "system_deps E P enc J encp cl" "world_ok E p P enc"
  "\<lambda>w w'. pipeline_steps E p P enc (wd_core w) (wd_core w')" row_stored
proof (unfold_locales, goal_cases)
  case (2 u v w)
  then show ?case by (rule rtranclp_trans)
next
  case (3 w w' i)
  then show ?case using pipeline_steps_stored [of E p P enc "wd_core w" "wd_core w'" i]
    by (auto simp: row_stored_def)
next
  case (4 w t lr w')
  then show ?case by (rule system_lease)
next
  case (5 w n r w')
  then show ?case by (rule system_nack)
next
  case (6 w e sr w')
  then show ?case by (rule system_persist)
next
  case (7 w a r w')
  then show ?case by (rule system_ack)
qed simp

section \<open>No event is lost\<close>

text \<open>An event is safe when the broker still has it uncompleted, unchanged, or its row is stored.\<close>

definition safe_event :: "'db env \<Rightarrow> string \<Rightarrow> disk_record \<Rightarrow> 'db broker \<times> tables \<Rightarrow> bool" where
  "safe_event E i r v \<longleftrightarrow> tel_lookup (snd v) i \<noteq> None
     \<or> (\<exists>r'. recs E (b_db (fst v)) i = Some r' \<and> r_State r' \<noteq> StCompleted
          \<and> r_Event r' = r_Event r \<and> r_Hash r' = r_Hash r)"

lemma pipeline_step_safe:
  assumes "bolt_db E" and step: "pipeline_step E p P enc v v'" and "reachable E p (fst v)"
    and safe: "safe_event E i r v"
  shows "reachable E p (fst v') \<and> safe_event E i r v'"
  using step
proof cases
  case (broker d l d' db)
  have reach: "reachable E p d'" using reachable.stepped [OF _ broker(3)] assms(3) broker(1) by simp
  have spec: "spec_step E p (recs E (b_db d)) l (recs E (b_db d'))"
    using bolt_db.step_refines [OF assms(1) broker(3) bolt_db.reachable_good [OF assms(1)]] assms(3) broker(1)
    by simp
  show ?thesis
  proof (cases "tel_lookup db i = None")
    case True
    with safe broker(1) obtain r0 where r0: "recs E (b_db d) i = Some r0" "r_State r0 \<noteq> StCompleted"
      "r_Event r0 = r_Event r" "r_Hash r0 = r_Hash r" by (auto simp: safe_event_def)
    have "\<not> (\<exists>a now. l = LAck a now (Inr False) \<and> a_EventID a = i)" using broker(4) True by blast
    with spec_step_keeps [OF spec r0(1,2)] r0 reach broker(2) show ?thesis
      by (auto simp: safe_event_def)
  qed (use reach broker(2) in \<open>simp add: safe_event_def\<close>)
next
  case (persist ingested fate e db res db' d)
  from pipeline_step_stored [OF step, of i] safe persist assms(3) show ?thesis
    by (auto simp: safe_event_def)
qed

lemma pipeline_steps_safe:
  assumes "bolt_db E" and "pipeline_steps E p P enc v v'" and "reachable E p (fst v)" and "safe_event E i r v"
  shows "reachable E p (fst v') \<and> safe_event E i r v'"
  using assms(2)
  by (induction rule: rtranclp_induct) (use assms(1,3,4) pipeline_step_safe in blast)+

text \<open>
  No event is lost on the way to the database. Let a collector run for any number of
  deliveries, with any configuration, any losses of requests and responses, any failing or
  uncertain commits, and with any steps of publishers, cleanups, crashes and other collectors
  around each of its calls. Every event the broker had accepted and not yet completed is
  afterwards either still kept by the broker, unchanged and uncompleted, or stored as a row of
  the telemetry table: the event is acknowledged only after its commit.
\<close>

theorem committed_before_ack:
  assumes "bolt_db E" and "reachable E p d"
    and "\<forall>x \<in> set script. turn_ok E p P enc x"
    and "worker c (system_deps E P enc J encp cl) xs delay \<lparr>wd_core = (d, db), wd_script = script\<rparr> = (res, w')"
    and "recs E (b_db d) i = Some r" and "r_State r \<noteq> StCompleted"
  shows "tel_lookup (snd (wd_core w')) i \<noteq> None
    \<or> (\<exists>r'. recs E (b_db (fst (wd_core w'))) i = Some r' \<and> r_State r' \<noteq> StCompleted
         \<and> r_Event r' = r_Event r \<and> r_Hash r' = r_Hash r)"
proof -
  have "world_ok E p P enc \<lparr>wd_core = (d, db), wd_script = script\<rparr>" using assms(3) by (simp add: world_ok_def)
  from system.worker_guar [OF this assms(4)]
  have steps: "pipeline_steps E p P enc (d, db) (wd_core w')" by simp
  have "safe_event E i r (d, db)" using assms(5,6) by (auto simp: safe_event_def)
  from pipeline_steps_safe [OF assms(1) steps _ this] assms(2) have "safe_event E i r (wd_core w')" by simp
  then show ?thesis by (simp add: safe_event_def)
qed

text \<open>
  A collector that takes the demonstration event from the broker to the database, with nothing
  going wrong on the way.
\<close>

definition demo_lease_in :: "mem_db lease_in" where
  "demo_lease_in = \<lparr>l_ctx = None, l_view = demo_in 2, l_between = (\<lambda>d. d), l_try = demo_in 2,
     l_others = (\<lambda>d. d), l_wake = WStopped\<rparr>"

definition demo_turn :: "int \<Rightarrow> mem_db turn" where
  "demo_turn n = \<lparr>tn_before = (\<lambda>v. v), tn_in = demo_in n, tn_lease = [demo_lease_in], tn_net = Delivered,
     tn_fate = Tx_committed, tn_ingested = n\<rparr>"

definition demo_attempt :: attempt_in where
  "demo_attempt = \<lparr>at_now = 2 * Second, at_canceled = False, at_random = (\<lambda>n. 0), at_wait = (\<lambda>d. None)\<rparr>"

definition demo_worker_in :: worker_in where
  "demo_worker_in = \<lparr>wk_stopped = False, wk_stopped_failed = False, wk_stopped_leased = False,
     wk_now = 2 * Second, wk_attempts = [demo_attempt, demo_attempt], wk_random = (\<lambda>n. 0), wk_wait = (\<lambda>d. False)\<rparr>"

definition demo_pipeline_codec :: codec where
  "demo_pipeline_codec = demo_codec\<lparr>jc_delivery := (\<lambda>b. Some demo_delivery)\<rparr>"

definition demo_world :: "mem_db world" where
  "demo_world = \<lparr>wd_core = (demo_published, \<lparr>db_telemetry = [], db_gpus = []\<rparr>),
     wd_script = [demo_turn 2, demo_turn 2, demo_turn 3]\<rparr>"

definition demo_deps :: "mem_db world deps" where
  "demo_deps = system_deps demo_env ascii_pg (\<lambda>e. Some ''x'') demo_pipeline_codec (\<lambda>b. ''{}'')
     \<lparr>c_base = [], c_timeout = 3 * Second\<rparr>"

lemma demo_lease_due: "lease_due demo_env demo_published (demo_in 2) = Inr True"
  by code_simp

lemma demo_storable: "Store_Validate demo_event = Inr ()"
  by code_simp

lemma demo_lease_http:
  "dp_Lease demo_deps (cc_LeaseWait (default_collector (\<lambda>v. None))) demo_world
     = (Inr (Some demo_delivery),
        \<lparr>wd_core = (demo_leased, \<lparr>db_telemetry = [], db_gpus = []\<rparr>), wd_script = [demo_turn 2, demo_turn 3]\<rparr>)"
proof -
  have "Lease demo_env Second [demo_lease_in] demo_published = (Some (Inr (Some demo_delivery)), demo_leased)"
    by (simp add: Lease_def Lease_round_def demo_lease_in_def demo_lease_due demo_try unit_defs)
  then show ?thesis
    by (simp add: demo_deps_def system_deps_def demo_world_def default_collector_def bad_lease_wait_def
        over_http_def take_turn_def http_call_def durable_handle_def decode_def broker_ops_def demo_turn_def
        deliver_response_def respond_def LeaseForProcessing_def lease_response_def request_def Let_def
        demo_pipeline_codec_def demo_delivery_def demo_valid demo_token_def is_zero_def unix_time_def zero_ns_def
        unit_defs)
qed

lemma demo_persist_turn:
  "dp_Persist demo_deps demo_event \<lparr>wd_core = (d, db), wd_script = demo_turn n # xs\<rparr>
     = (Inr (), \<lparr>wd_core = (d, persist_tx ascii_pg n ''x'' demo_event db), wd_script = xs\<rparr>)"
  by (simp add: demo_deps_def system_deps_def take_turn_def demo_turn_def Persist_def demo_storable)

lemma demo_ack_turn:
  "dp_Ack demo_deps demo_ack \<lparr>wd_core = (demo_leased, db), wd_script = demo_turn 3 # xs\<rparr>
     = (Inr (), \<lparr>wd_core = (demo_acked, db), wd_script = xs\<rparr>)"
proof -
  have "a_EventID demo_ack = ''e1''" by (simp add: demo_ack_def)
  then show ?thesis
    by (simp add: demo_deps_def system_deps_def take_turn_def demo_turn_def over_http_def http_call_def
        handle_ack broker_ops_def demo_done receipt_response_def deliver_response_def respond_def
        Client_Ack_def client_receipt_def request_def Let_def unit_defs demo_pipeline_codec_def demo_codec_def)
qed

lemma demo_process:
  "Process (default_collector (\<lambda>v. None)) demo_deps (2 * Second) demo_delivery [demo_attempt, demo_attempt]
     \<lparr>wd_core = (demo_leased, db), wd_script = [demo_turn 2, demo_turn 3]\<rparr>
   = (Some (Inr ()), [], \<lparr>wd_core = (demo_acked, persist_tx ascii_pg 2 ''x'' demo_event db), wd_script = []\<rparr>)"
proof -
  let ?c = "default_collector (\<lambda>v. None)"
  have ctx: "work_err (work_deadline ?c (2 * Second) demo_delivery) demo_attempt = None"
    by (simp add: work_err_def work_deadline_def demo_attempt_def demo_delivery_def default_collector_def
        unix_time_def unit_defs)
  have dl: "d_Event demo_delivery = demo_event" and a: "\<lparr>a_EventID = ''e1'', a_Token = d_Token demo_delivery\<rparr> = demo_ack"
    by (simp_all add: demo_delivery_def demo_ack_def)
  show ?thesis
    by (simp add: Process_def Let_def dl demo_storable retry_def ctx lift_error_def demo_persist_turn
        demo_valid a demo_ack_turn)
qed

theorem committed_before_ack_witness:
  "\<exists>w'. worker (default_collector (\<lambda>v. None)) demo_deps [demo_worker_in] 100 demo_world = (None, w')
     \<and> fst (wd_core w') = demo_acked \<and> tel_lookup (snd (wd_core w')) ''e1'' \<noteq> None"
proof -
  let ?db = "\<lparr>db_telemetry = [], db_gpus = []\<rparr>"
  let ?w = "\<lparr>wd_core = (demo_acked, persist_tx ascii_pg 2 ''x'' demo_event ?db), wd_script = []\<rparr>"
  have run: "worker (default_collector (\<lambda>v. None)) demo_deps [demo_worker_in] 100 demo_world = (None, ?w)"
    using demo_lease_http by (simp add: demo_worker_in_def demo_process)
  have "turn_ok demo_env demo_options ascii_pg (\<lambda>e. Some ''x'') (demo_turn n)" if "0 \<le> n" "n < 1000000" for n
    using that demo_clock [of 2] demo_clock [of n]
    by (simp add: turn_ok_def demo_turn_def lease_in_ok_def demo_lease_in_def)
  then have "\<forall>x \<in> set [demo_turn 2, demo_turn 2, demo_turn 3].
      turn_ok demo_env demo_options ascii_pg (\<lambda>e. Some ''x'') x" by simp
  from committed_before_ack [OF demo_bolt_db demo_reachable(2) this run [unfolded demo_deps_def demo_world_def]
      demo_recs(1)]
  have "tel_lookup (snd (wd_core ?w)) ''e1'' \<noteq> None \<or> (\<exists>r'. recs demo_env (b_db demo_acked) ''e1'' = Some r'
      \<and> r_State r' \<noteq> StCompleted)"
    by (auto simp: demo_fields)
  moreover have "recs demo_env (b_db demo_acked) ''e1'' = Some (completed_record demo_options (3 * Second) demo_lease)"
    using demo_recs(3) by simp
  ultimately have "tel_lookup (snd (wd_core ?w)) ''e1'' \<noteq> None" by (auto simp: completed_record_def)
  with run show ?thesis by auto
qed

end
