(* ===== verification/Collector_Run.thy ===== *)
theory Collector_Run
  imports Pipeline
begin

text \<open>
  internal/collector: \<^verbatim>\<open>Run\<close> as it runs: a fixed number of workers, the goroutine that cancels the
  processing context, two contexts and the channel of failures, interleaved step by step on a
  shared outside world. One worker on its own, between two calls of others, is the function
  \<open>worker\<close> of the theory Collector.
\<close>

section \<open>State\<close>

text \<open>What \<^verbatim>\<open>Process\<close> asks of the outside, one call after the other.\<close>

datatype job = Quarantine store_error | Commit | Confirm

text \<open>
  Where a worker is: at the head of its loop; in the long poll; with a failed lease; with a lease
  it has not started; in \<^verbatim>\<open>retry\<close>, before an attempt or pausing until a time; in a pause of its
  own loop; after it reported its failure; returned. The integer next to each is the backoff
  \<^verbatim>\<open>delay\<close> of the worker, after \<open>Trying\<close> and \<open>Resting\<close> the deadline of the work and the backoff of
  \<^verbatim>\<open>retry\<close> follow.
\<close>

datatype goroutine =
  At_head int
| Leasing int
| Failed client_error int
| Leased delivery int
| Trying job delivery int int int
| Resting job delivery int int int int
| Pausing int int
| Stopping
| Returned

datatype watch = Watching | Timing int | Watched

record 'w run_state =
  rs_ctx_done :: bool
  rs_fetch_done :: bool
  rs_processing_done :: bool
  rs_watch :: watch
  rs_now :: int
  rs_failures :: "client_error list"
  rs_workers :: "goroutine list"
  rs_world :: 'w

text \<open>
  What the runtime decides in a step: the number \<^verbatim>\<open>rand.Int64N\<close> draws below a bound, and which of two ready cases
  a \<^verbatim>\<open>select\<close> takes, the ended context or the other one.
\<close>

record choice =
  ch_random :: "int \<Rightarrow> int"
  ch_context :: bool

definition choice_ok :: "choice \<Rightarrow> bool" where
  "choice_ok x \<longleftrightarrow> (\<forall>n > 0. 0 \<le> ch_random x n \<and> ch_random x n < n)"

definition run_init :: "collector_config \<Rightarrow> int \<Rightarrow> 'w \<Rightarrow> 'w run_state" where
  "run_init c now w = \<lparr>rs_ctx_done = False, rs_fetch_done = False, rs_processing_done = False,
     rs_watch = Watching, rs_now = now, rs_failures = [],
     rs_workers = replicate (nat (cc_Workers c)) (At_head (cc_RetryMin c)), rs_world = w\<rparr>"

section \<open>One worker\<close>

definition pause_until :: "choice \<Rightarrow> 'w run_state \<Rightarrow> int \<Rightarrow> int" where
  "pause_until x s d = rs_now s + pause_time (ch_random x) d"

definition job_action :: "'w deps \<Rightarrow> job \<Rightarrow> delivery \<Rightarrow> 'w \<Rightarrow> (work_error + unit) \<times> 'w" where
  "job_action q j dl = (case j of
     Quarantine err \<Rightarrow> lift_error Work_queue (dp_Nack q (quarantine_request dl err))
   | Commit \<Rightarrow> lift_error Work_store (dp_Persist q (d_Event dl))
   | Confirm \<Rightarrow> lift_error Work_queue (dp_Ack q \<lparr>a_EventID = e_EventID (d_Event dl), a_Token = d_Token dl\<rparr>))"

definition job_receipt :: "job \<Rightarrow> bool" where
  "job_receipt j = (case j of Commit \<Rightarrow> False | _ \<Rightarrow> True)"

definition begin_work :: "collector_config \<Rightarrow> 'w run_state \<Rightarrow> delivery \<Rightarrow> int \<Rightarrow> goroutine" where
  "begin_work c s dl delay =
     (let deadline = work_deadline c (rs_now s) dl in
      Trying (case Store_Validate (d_Event dl) of Inl err \<Rightarrow> Quarantine err | Inr _ \<Rightarrow> Commit)
        dl delay deadline (cc_RetryMin c))"

definition work_ended :: "'w run_state \<Rightarrow> int \<Rightarrow> bool" where
  "work_ended s deadline \<longleftrightarrow> rs_processing_done s \<or> deadline \<le> rs_now s"

text \<open>The worker after \<^verbatim>\<open>Process\<close> failed: the delivery stays leased, the worker pauses.\<close>

definition work_failed :: "collector_config \<Rightarrow> choice \<Rightarrow> 'w run_state \<Rightarrow> int \<Rightarrow> goroutine" where
  "work_failed c x s delay = Pausing (backoff delay (cc_RetryMax c)) (pause_until x s delay)"

definition work_done :: "collector_config \<Rightarrow> job \<Rightarrow> delivery \<Rightarrow> int \<Rightarrow> int \<Rightarrow> goroutine" where
  "work_done c j dl delay deadline = (case j of
     Commit \<Rightarrow> Trying Confirm dl delay deadline (cc_RetryMin c)
   | _ \<Rightarrow> At_head (cc_RetryMin c))"

fun go_step :: "collector_config \<Rightarrow> 'w deps \<Rightarrow> choice \<Rightarrow> 'w run_state \<Rightarrow> goroutine \<Rightarrow>
    ('w run_state \<times> goroutine) option" where
  "go_step c q x s (At_head delay) = Some (s, if rs_fetch_done s then Returned else Leasing delay)"
| "go_step c q x s (Leasing delay) =
     (if rs_fetch_done s \<and> ch_context x then Some (s, Failed (Context_error Canceled) delay)
      else case dp_Lease q (cc_LeaseWait c) (rs_world s) of (r, w) \<Rightarrow>
        Some (s\<lparr>rs_world := w\<rparr>, case r of
            Inl err \<Rightarrow> Failed err delay
          | Inr None \<Rightarrow> Pausing delay (pause_until x s (cc_RetryMin c))
          | Inr (Some dl) \<Rightarrow> Leased dl delay))"
| "go_step c q x s (Failed err delay) =
     (if rs_fetch_done s then Some (s, Returned)
      else if \<not> Retryable err then
        (if int (length (rs_failures s)) < cc_Workers c
         then Some (s\<lparr>rs_failures := rs_failures s @ [err]\<rparr>, Stopping) else None)
      else Some (s, Pausing (backoff delay (cc_RetryMax c)) (pause_until x s delay)))"
| "go_step c q x s (Leased dl delay) = Some (s, if rs_fetch_done s then Returned else begin_work c s dl delay)"
| "go_step c q x s (Trying j dl delay deadline rdelay) =
     (if work_ended s deadline then Some (s, work_failed c x s delay)
      else case job_action q j dl (rs_world s) of (r, w) \<Rightarrow>
        Some (s\<lparr>rs_world := w\<rparr>, case r of
            Inr _ \<Rightarrow> work_done c j dl delay deadline
          | Inl err \<Rightarrow> if job_receipt j \<and> \<not> work_retryable err then work_failed c x s delay
              else Resting j dl delay deadline (backoff rdelay (cc_RetryMax c)) (pause_until x s rdelay)))"
| "go_step c q x s (Resting j dl delay deadline rdelay until) =
     (if work_ended s deadline \<and> (ch_context x \<or> rs_now s < until) then Some (s, work_failed c x s delay)
      else if until \<le> rs_now s then Some (s, Trying j dl delay deadline rdelay) else None)"
| "go_step c q x s (Pausing delay until) =
     (if rs_fetch_done s \<and> (ch_context x \<or> rs_now s < until) then Some (s, Returned)
      else if until \<le> rs_now s then Some (s, At_head delay) else None)"
| "go_step c q x s Stopping = Some (s\<lparr>rs_fetch_done := True\<rparr>, Returned)"
| "go_step c q x s Returned = None"

section \<open>All of them\<close>

definition worker_step :: "collector_config \<Rightarrow> 'w deps \<Rightarrow> nat \<Rightarrow> choice \<Rightarrow> 'w run_state \<Rightarrow> 'w run_state option" where
  "worker_step c q i x s =
     (if i < length (rs_workers s) then
        (case go_step c q x s (rs_workers s ! i) of
           None \<Rightarrow> None
         | Some (s', g) \<Rightarrow> Some (s'\<lparr>rs_workers := (rs_workers s)[i := g]\<rparr>))
      else None)"

definition all_returned :: "'w run_state \<Rightarrow> bool" where
  "all_returned s \<longleftrightarrow> (\<forall>g \<in> set (rs_workers s). g = Returned)"

text \<open>
  The goroutine next to the workers. \<^verbatim>\<open>done\<close> is closed when \<^verbatim>\<open>Run\<close> returns, after every worker did.
\<close>

definition watch_step :: "collector_config \<Rightarrow> 'w run_state \<Rightarrow> 'w run_state option" where
  "watch_step c s = (case rs_watch s of
     Watching \<Rightarrow> if rs_fetch_done s then Some (s\<lparr>rs_watch := Timing (rs_now s + cc_ShutdownTimeout c)\<rparr>)
       else if all_returned s then Some (s\<lparr>rs_watch := Watched\<rparr>) else None
   | Timing t \<Rightarrow> if t \<le> rs_now s then Some (s\<lparr>rs_processing_done := True, rs_watch := Watched\<rparr>)
       else if all_returned s then Some (s\<lparr>rs_watch := Watched\<rparr>) else None
   | Watched \<Rightarrow> None)"

text \<open>What happens beside the workers: the watch, a signal to the process, time.\<close>

inductive around_step :: "collector_config \<Rightarrow> 'w run_state \<Rightarrow> 'w run_state \<Rightarrow> bool"
  for c :: collector_config where
  watch: "watch_step c s = Some s' \<Longrightarrow> around_step c s s'"
| signal: "around_step c s (s\<lparr>rs_ctx_done := True, rs_fetch_done := True\<rparr>)"
| tick: "0 \<le> t \<Longrightarrow> around_step c s (s\<lparr>rs_now := rs_now s + t\<rparr>)"

inductive run_step :: "collector_config \<Rightarrow> 'w deps \<Rightarrow> 'w run_state \<Rightarrow> 'w run_state \<Rightarrow> bool"
  for c :: collector_config and q :: "'w deps" where
  work: "choice_ok x \<Longrightarrow> worker_step c q i x s = Some s' \<Longrightarrow> run_step c q s s'"
| around: "around_step c s s' \<Longrightarrow> run_step c q s s'"

abbreviation run_steps :: "collector_config \<Rightarrow> 'w deps \<Rightarrow> 'w run_state \<Rightarrow> 'w run_state \<Rightarrow> bool" where
  "run_steps c q \<equiv> (run_step c q)\<^sup>*\<^sup>*"

text \<open>What \<^verbatim>\<open>Run\<close> returns, once it does: the failures, joined.\<close>

definition run_result :: "'w run_state \<Rightarrow> client_error list option" where
  "run_result s = (if all_returned s then Some (rs_failures s) else None)"

section \<open>What a step of a worker does\<close>

definition reported :: "goroutine \<Rightarrow> bool" where
  "reported g \<longleftrightarrow> g = Stopping \<or> g = Returned"

text \<open>The backoffs a worker holds.\<close>

fun delays_of :: "goroutine \<Rightarrow> int set" where
  "delays_of (At_head d) = {d}"
| "delays_of (Leasing d) = {d}"
| "delays_of (Failed err d) = {d}"
| "delays_of (Leased dl d) = {d}"
| "delays_of (Trying j dl d deadline r) = {d, r}"
| "delays_of (Resting j dl d deadline r until) = {d, r}"
| "delays_of (Pausing d until) = {d}"
| "delays_of Stopping = {}"
| "delays_of Returned = {}"

lemmas go_step_splits = if_splits prod.splits sum.splits option.splits job.splits
lemmas next_of_step = work_failed_def work_done_def begin_work_def Let_def

text \<open>A step touches the outside only, or reports a permanent failure, or stops the others.\<close>

lemma go_step_outside:
  assumes "go_step c q x s g = Some (s', g')" and "g \<noteq> Stopping" and "\<And>err delay. g \<noteq> Failed err delay"
  shows "s' = s\<lparr>rs_world := rs_world s'\<rparr> \<and> \<not> reported g \<and> g' \<noteq> Stopping \<and> (g' = Returned \<longrightarrow> rs_fetch_done s)"
  using assms by (cases g) (simp_all add: reported_def next_of_step split: go_step_splits, auto)

lemma go_step_cases:
  assumes "go_step c q x s g = Some (s', g')"
  obtains (on) w where "s' = s\<lparr>rs_world := w\<rparr>" and "\<not> reported g" and "g' \<noteq> Stopping"
      and "g' = Returned \<longrightarrow> rs_fetch_done s"
  | (report) err delay where "g = Failed err delay" and "s' = s\<lparr>rs_failures := rs_failures s @ [err]\<rparr>"
      and "g' = Stopping" and "\<not> Retryable err" and "\<not> rs_fetch_done s"
      and "int (length (rs_failures s)) < cc_Workers c"
  | (stop) "g = Stopping" and "g' = Returned" and "s' = s\<lparr>rs_fetch_done := True\<rparr>"
proof -
  consider (failed) err delay where "g = Failed err delay" | (stopping) "g = Stopping"
    | (other) "g \<noteq> Stopping" and "\<And>err delay. g \<noteq> Failed err delay"
    by blast
  then show ?thesis
  proof cases
    case failed
    have same: "s = s\<lparr>rs_world := rs_world s\<rparr>" by simp
    show ?thesis
    proof (cases "rs_fetch_done s \<or> Retryable err")
      case True
      with assms failed have "s' = s" and "g' \<noteq> Stopping" and "g' = Returned \<longrightarrow> rs_fetch_done s"
        by (auto split: if_splits)
      with on [of "rs_world s"] failed show ?thesis by (simp add: reported_def)
    next
      case False
      with assms failed report show ?thesis by (simp split: if_splits)
    qed
  next
    case stopping
    with assms stop show ?thesis by simp
  next
    case other
    from go_step_outside [OF assms other] on [of "rs_world s'"] show ?thesis by blast
  qed
qed

lemma go_step_delays_of:
  assumes "go_step c q x s g = Some (s', g')"
  shows "delays_of g' \<subseteq> insert (cc_RetryMin c) (delays_of g \<union> (\<lambda>d. backoff d (cc_RetryMax c)) ` delays_of g)"
  using assms by (cases g) (simp_all add: next_of_step split: go_step_splits, auto)

lemma go_step_delays:
  assumes "go_step c q x s g = Some (s', g')" and "0 < cc_RetryMin c" and "cc_RetryMin c \<le> cc_RetryMax c"
    and "delays_of g \<subseteq> {cc_RetryMin c..cc_RetryMax c}"
  shows "delays_of g' \<subseteq> {cc_RetryMin c..cc_RetryMax c}"
proof -
  have "backoff d (cc_RetryMax c) \<in> {cc_RetryMin c..cc_RetryMax c}" if "d \<in> {cc_RetryMin c..cc_RetryMax c}" for d
    using that assms(2) backoff_bounds [of d "cc_RetryMax c"] by auto
  with assms(3,4) go_step_delays_of [OF assms(1)] show ?thesis by fastforce
qed

lemma worker_stepE:
  assumes "worker_step c q i x s = Some s'"
  obtains s1 g where "i < length (rs_workers s)" and "go_step c q x s (rs_workers s ! i) = Some (s1, g)"
    and "s' = s1\<lparr>rs_workers := (rs_workers s)[i := g]\<rparr>"
  using assms by (auto simp: worker_step_def split: if_splits option.splits)

text \<open>Counting the workers in a state, when one of them changes.\<close>

lemma filter_update:
  assumes "i < length xs"
  shows "length (filter P (xs[i := y])) + (if P (xs ! i) then 1 else 0)
    = length (filter P xs) + (if P y then 1 else 0)"
proof -
  have "length (filter P xs) = length (filter P (take i xs @ xs ! i # drop (Suc i) xs))"
    using assms by (simp add: id_take_nth_drop [symmetric])
  with assms show ?thesis by (simp add: upd_conv_take_nth_drop)
qed

lemma kept_in_update:
  "x \<in> set xs \<Longrightarrow> x \<noteq> xs ! i \<Longrightarrow> x \<in> set (xs[i := y])"
  by (metis in_set_conv_nth length_list_update nth_list_update_neq)

section \<open>Invariants\<close>

text \<open>
  Failures are permanent and no more than workers that reported; a worker returns only when no
  more deliveries are to be fetched, and so does one that reported, next; backoffs stay in
  their range; the processing context ends after the other one, by the watching goroutine.
\<close>

definition run_inv :: "collector_config \<Rightarrow> 'w run_state \<Rightarrow> bool" where
  "run_inv c s \<longleftrightarrow> length (rs_workers s) = nat (cc_Workers c)
     \<and> length (rs_failures s) \<le> length (filter reported (rs_workers s))
     \<and> (\<forall>err \<in> set (rs_failures s). \<not> Retryable err)
     \<and> (Returned \<in> set (rs_workers s) \<longrightarrow> rs_fetch_done s)
     \<and> (rs_failures s \<noteq> [] \<longrightarrow> rs_fetch_done s \<or> Stopping \<in> set (rs_workers s))
     \<and> (\<forall>g \<in> set (rs_workers s). delays_of g \<subseteq> {cc_RetryMin c..cc_RetryMax c})
     \<and> (rs_watch s \<noteq> Watching \<longrightarrow> rs_fetch_done s)
     \<and> (rs_processing_done s \<longrightarrow> rs_watch s = Watched)
     \<and> (Stopping \<in> set (rs_workers s) \<longrightarrow> rs_failures s \<noteq> [])
     \<and> (rs_fetch_done s \<longrightarrow> rs_ctx_done s \<or> rs_failures s \<noteq> [])"

definition run_config_ok :: "collector_config \<Rightarrow> bool" where
  "run_config_ok c \<longleftrightarrow> 0 < cc_Workers c \<and> 0 < cc_RetryMin c \<and> cc_RetryMin c \<le> cc_RetryMax c
     \<and> 0 < cc_ShutdownTimeout c"

lemma run_inv_init: "run_config_ok c \<Longrightarrow> run_inv c (run_init c now w)"
  by (simp add: run_inv_def run_init_def run_config_ok_def)

lemma run_inv_worker:
  assumes inv: "run_inv c s" and c: "run_config_ok c" and step: "worker_step c q i x s = Some s'"
  shows "run_inv c s'"
proof -
  from worker_stepE [OF step] obtain s1 g where i: "i < length (rs_workers s)"
    and go: "go_step c q x s (rs_workers s ! i) = Some (s1, g)"
    and s': "s' = s1\<lparr>rs_workers := (rs_workers s)[i := g]\<rparr>" .
  let ?ws = "(rs_workers s)[i := g]"
  have old: "rs_workers s ! i \<in> set (rs_workers s)" using i by simp
  have count: "length (filter reported ?ws) + (if reported (rs_workers s ! i) then 1 else 0)
      = length (filter reported (rs_workers s)) + (if reported g then 1 else 0)"
    by (rule filter_update [OF i])
  have len: "length ?ws = nat (cc_Workers c)" using inv by (simp add: run_inv_def)
  have delays: "\<forall>h \<in> set ?ws. delays_of h \<subseteq> {cc_RetryMin c..cc_RetryMax c}"
  proof
    fix h assume "h \<in> set ?ws"
    then have "h = g \<or> h \<in> set (rs_workers s)" using set_update_subset_insert [of "rs_workers s" i g] by blast
    with inv old c go_step_delays [OF go] show "delays_of h \<subseteq> {cc_RetryMin c..cc_RetryMax c}"
      by (auto simp: run_inv_def run_config_ok_def)
  qed
  have returned: "Returned \<in> set ?ws \<Longrightarrow> g = Returned \<or> Returned \<in> set (rs_workers s)"
    using set_update_subset_insert [of "rs_workers s" i g] by blast
  have stopped: "Stopping \<in> set ?ws \<Longrightarrow> g = Stopping \<or> Stopping \<in> set (rs_workers s)"
    using set_update_subset_insert [of "rs_workers s" i g] by blast
  have stopping: "Stopping \<in> set (rs_workers s) \<Longrightarrow> rs_workers s ! i \<noteq> Stopping \<Longrightarrow> Stopping \<in> set ?ws"
    by (rule kept_in_update) simp_all
  have new: "g \<in> set ?ws" using i by (rule set_update_memI)
  from go show ?thesis
  proof (cases rule: go_step_cases)
    case (on w)
    then have "rs_workers s ! i \<noteq> Stopping" by (auto simp: reported_def)
    with on s' inv count len delays returned stopping stopped show ?thesis by (auto simp: run_inv_def)
  next
    case (report err delay)
    then have "\<not> reported (rs_workers s ! i)" and "reported g" by (simp_all add: reported_def)
    with report s' inv count len delays returned new stopped show ?thesis by (auto simp: run_inv_def)
  next
    case stop
    then have "reported (rs_workers s ! i)" and "reported g" by (simp_all add: reported_def)
    with stop s' inv count len delays stopped old show ?thesis by (auto simp: run_inv_def)
  qed
qed

lemma all_returned_stopped: "run_inv c s \<Longrightarrow> run_config_ok c \<Longrightarrow> all_returned s \<Longrightarrow> rs_fetch_done s"
proof -
  assume inv: "run_inv c s" and c: "run_config_ok c" and all: "all_returned s"
  have "length (rs_workers s) = nat (cc_Workers c)" using inv by (simp add: run_inv_def)
  with c have "rs_workers s \<noteq> []" by (auto simp: run_config_ok_def)
  with all have "Returned \<in> set (rs_workers s)" by (cases "rs_workers s") (auto simp: all_returned_def)
  with inv show ?thesis by (simp add: run_inv_def)
qed

lemma run_inv_around:
  assumes "around_step c s s'" and inv: "run_inv c s" and c: "run_config_ok c"
  shows "run_inv c s'"
  using assms(1)
proof cases
  case watch
  with inv all_returned_stopped [OF inv c] show ?thesis
    by (auto simp: watch_step_def run_inv_def split: watch.splits if_splits)
qed (use inv in \<open>simp_all add: run_inv_def\<close>)

lemma run_inv_step:
  "run_step c q s s' \<Longrightarrow> run_inv c s \<Longrightarrow> run_config_ok c \<Longrightarrow> run_inv c s'"
  by (erule run_step.cases) (use run_inv_worker run_inv_around in blast)+

lemma run_inv_reachable:
  assumes "run_steps c q s s'" and "run_inv c s" and "run_config_ok c"
  shows "run_inv c s'"
  using assms(1) by (induction rule: rtranclp_induct) (use assms(2,3) run_inv_step in blast)+

section \<open>Progress\<close>

text \<open>
  No worker is ever stuck: one that has not returned can take a step, at once or when its timer
  fires. In particular the channel has room for every failure.
\<close>

definition waits_until :: "goroutine \<Rightarrow> int" where
  "waits_until g = (case g of Resting j dl d deadline r t \<Rightarrow> t | Pausing d t \<Rightarrow> t | _ \<Rightarrow> 0)"

lemma go_step_enabled:
  assumes "go_step c q x s g = None" and "g \<noteq> Returned"
    and "int (length (rs_failures s)) < cc_Workers c"
  shows "rs_now s < waits_until g \<and> \<not> (rs_fetch_done s \<and> rs_processing_done s \<and> ch_context x)"
  using assms by (cases g) (auto simp: waits_until_def work_ended_def split: if_splits prod.splits)

lemma failures_fit:
  assumes "run_inv c s" and i: "i < length (rs_workers s)" and "\<not> reported (rs_workers s ! i)"
  shows "int (length (rs_failures s)) < cc_Workers c"
proof -
  have "length (filter reported (rs_workers s)) < length (rs_workers s)"
    using i assms(3) by (intro length_filter_less [where x = "rs_workers s ! i"]) simp_all
  with assms(1) show ?thesis by (auto simp: run_inv_def)
qed

lemma worker_enabled:
  assumes inv: "run_inv c s" and i: "i < length (rs_workers s)" and g: "rs_workers s ! i \<noteq> Returned"
  shows "worker_step c q i x s \<noteq> None
    \<or> rs_now s < waits_until (rs_workers s ! i) \<and> \<not> (rs_fetch_done s \<and> rs_processing_done s \<and> ch_context x)"
proof (cases "rs_workers s ! i = Stopping")
  case True
  then show ?thesis using i by (simp add: worker_step_def)
next
  case False
  then have "int (length (rs_failures s)) < cc_Workers c"
    using failures_fit [OF inv i] g by (simp add: reported_def)
  from go_step_enabled [OF _ g this, of q x] i show ?thesis
    by (cases "go_step c q x s (rs_workers s ! i)") (auto simp: worker_step_def)
qed

text \<open>How many steps a worker may still take once both contexts have ended.\<close>

fun load_of :: "goroutine \<Rightarrow> nat" where
  "load_of Returned = 0"
| "load_of (Pausing d t) = 2"
| "load_of (Leasing d) = 3"
| "load_of (Trying j dl d deadline r) = 3"
| "load_of (Resting j dl d deadline r t) = 4"
| "load_of g = 1"

definition load :: "'w run_state \<Rightarrow> nat" where
  "load s = sum_list (map load_of (rs_workers s))"

lemma load_of_le: "load_of g \<le> 4"
  by (cases g) simp_all

lemma load_le: "load s \<le> 4 * length (rs_workers s)"
  unfolding load_def using sum_list_mono [of "rs_workers s" load_of "\<lambda>_. 4"] load_of_le
  by (simp add: sum_list_triv)

lemma load_zero: "load s = 0 \<longleftrightarrow> all_returned s"
proof -
  have "load_of g = 0 \<longleftrightarrow> g = Returned" for g by (cases g) simp_all
  then show ?thesis by (simp add: load_def all_returned_def)
qed

lemma go_step_load:
  assumes "go_step c q x s g = Some (s', g')" and "rs_fetch_done s" and "rs_processing_done s"
  shows "load_of g' < load_of g \<and> rs_fetch_done s' \<and> rs_processing_done s'"
  using assms by (cases g) (auto simp: next_of_step work_ended_def split: go_step_splits)

lemma worker_step_load:
  assumes "worker_step c q i x s = Some s'" and "rs_fetch_done s" and "rs_processing_done s"
  shows "load s' < load s \<and> rs_fetch_done s' \<and> rs_processing_done s'"
proof -
  from worker_stepE [OF assms(1)] obtain s1 g where i: "i < length (rs_workers s)"
    and go: "go_step c q x s (rs_workers s ! i) = Some (s1, g)"
    and s': "s' = s1\<lparr>rs_workers := (rs_workers s)[i := g]\<rparr>" .
  have "sum_list (map load_of ((rs_workers s)[i := g]))
      = sum_list (map load_of (rs_workers s)) + load_of g - load_of (rs_workers s ! i)"
    using i by (simp add: map_update sum_list_update)
  moreover have "load_of (rs_workers s ! i) \<le> sum_list (map load_of (rs_workers s))"
    using elem_le_sum_list [of i "map load_of (rs_workers s)"] i by simp
  ultimately show ?thesis using go_step_load [OF go assms(2,3)] s' by (auto simp: load_def)
qed

text \<open>A run in which the steps of the workers are counted.\<close>

inductive run_path :: "collector_config \<Rightarrow> 'w deps \<Rightarrow> 'w run_state \<Rightarrow> nat \<Rightarrow> 'w run_state \<Rightarrow> bool"
  for c :: collector_config and q :: "'w deps" and s :: "'w run_state" where
  start: "run_path c q s 0 s"
| worked: "run_path c q s n s1 \<Longrightarrow> choice_ok x \<Longrightarrow> worker_step c q i x s1 = Some s2 \<Longrightarrow> run_path c q s (Suc n) s2"
| other: "run_path c q s n s1 \<Longrightarrow> around_step c s1 s2 \<Longrightarrow> run_path c q s n s2"

lemma run_path_steps: "run_path c q s n s' \<Longrightarrow> run_steps c q s s'"
  by (induction rule: run_path.induct) (blast intro: run_step.intros rtranclp.intros)+

lemma around_step_keeps:
  assumes "around_step c s s'"
  shows "rs_workers s' = rs_workers s \<and> rs_world s' = rs_world s \<and> rs_now s \<le> rs_now s'
    \<and> (rs_fetch_done s \<longrightarrow> rs_fetch_done s') \<and> (rs_processing_done s \<longrightarrow> rs_processing_done s')"
  using assms by cases (auto simp: watch_step_def split: watch.splits if_splits)

lemma run_path_load:
  assumes "run_path c q s n s'" and "rs_fetch_done s" and "rs_processing_done s"
  shows "n + load s' \<le> load s \<and> rs_fetch_done s' \<and> rs_processing_done s'"
  using assms(1)
proof induction
  case (worked n s1 x i s2)
  with worker_step_load [OF worked(3)] show ?case by simp
next
  case (other n s1 s2)
  with around_step_keeps [OF other(2)] show ?case by (simp add: load_def)
qed (use assms(2,3) in simp)

section \<open>Running a schedule\<close>

text \<open>One step, chosen by an event, and a whole schedule of them; \<open>None\<close> when an event is not enabled.\<close>

datatype run_event = Work nat choice | Watch | Signal | Tick nat

definition run_event :: "collector_config \<Rightarrow> 'w deps \<Rightarrow> run_event \<Rightarrow> 'w run_state \<Rightarrow> 'w run_state option" where
  "run_event c q e s = (case e of
     Work i x \<Rightarrow> worker_step c q i x s
   | Watch \<Rightarrow> watch_step c s
   | Signal \<Rightarrow> Some (s\<lparr>rs_ctx_done := True, rs_fetch_done := True\<rparr>)
   | Tick t \<Rightarrow> Some (s\<lparr>rs_now := rs_now s + int t\<rparr>))"

definition event_ok :: "run_event \<Rightarrow> bool" where
  "event_ok e = (case e of Work i x \<Rightarrow> choice_ok x | _ \<Rightarrow> True)"

fun run_events :: "collector_config \<Rightarrow> 'w deps \<Rightarrow> run_event list \<Rightarrow> 'w run_state \<Rightarrow> 'w run_state option" where
  "run_events c q [] s = Some s"
| "run_events c q (e # es) s = (case run_event c q e s of None \<Rightarrow> None | Some s' \<Rightarrow> run_events c q es s')"

definition is_work :: "run_event \<Rightarrow> bool" where
  "is_work e = (case e of Work i x \<Rightarrow> True | _ \<Rightarrow> False)"

lemma around_tick: "around_step c s (s\<lparr>rs_now := rs_now s + int t\<rparr>)"
  by (rule around_step.tick) simp

lemmas around_steps = around_step.watch around_step.signal around_tick

lemma run_step_event: "run_step c q s s' \<longleftrightarrow> (\<exists>e. event_ok e \<and> run_event c q e s = Some s')"
proof
  assume "run_step c q s s'"
  then show "\<exists>e. event_ok e \<and> run_event c q e s = Some s'"
  proof cases
    case (work x i)
    then show ?thesis by (intro exI [of _ "Work i x"]) (simp add: event_ok_def run_event_def)
  next
    case around
    then show ?thesis
    proof cases
      case watch
      then show ?thesis by (intro exI [of _ Watch]) (simp add: event_ok_def run_event_def)
    next
      case signal
      then show ?thesis by (intro exI [of _ Signal]) (simp add: event_ok_def run_event_def)
    next
      case (tick t)
      then show ?thesis by (intro exI [of _ "Tick (nat t)"]) (simp add: event_ok_def run_event_def)
    qed
  qed
next
  assume "\<exists>e. event_ok e \<and> run_event c q e s = Some s'"
  then show "run_step c q s s'"
    by (auto simp: event_ok_def run_event_def intro: run_step.intros around_steps split: run_event.splits)
qed

lemma run_path_more: "run_path c q s1 n s2 \<Longrightarrow> run_path c q s m s1 \<Longrightarrow> run_path c q s (m + n) s2"
  by (induction rule: run_path.induct) (auto intro: run_path.intros)

lemma run_events_path:
  "run_events c q es s = Some s' \<Longrightarrow> \<forall>e \<in> set es. event_ok e \<Longrightarrow> run_path c q s (length (filter is_work es)) s'"
proof (induction es arbitrary: s)
  case (Cons e es)
  then obtain s1 where e: "run_event c q e s = Some s1" and rest: "run_events c q es s1 = Some s'"
    by (auto split: option.splits)
  have "run_path c q s (if is_work e then 1 else 0) s1"
    using e Cons.prems(2) by (auto simp: run_event_def event_ok_def is_work_def split: run_event.splits
      intro: run_path.intros around_steps run_path.worked [where n = 0, simplified])
  from run_path_more [OF Cons.IH [OF rest] this] Cons.prems(2) show ?case by (cases "is_work e") simp_all
qed (simp add: run_path.start)

lemma run_events_steps:
  "run_events c q es s = Some s' \<Longrightarrow> \<forall>e \<in> set es. event_ok e \<Longrightarrow> run_steps c q s s'"
  using run_events_path run_path_steps by blast

section \<open>Shutdown\<close>

text \<open>Since the clock showed \<open>t\<close>, when deliveries were still fetched.\<close>

definition window :: "collector_config \<Rightarrow> int \<Rightarrow> 'w run_state \<Rightarrow> bool" where
  "window c t s \<longleftrightarrow> t \<le> rs_now s \<and> (case rs_watch s of
     Watching \<Rightarrow> \<not> rs_processing_done s
   | Timing u \<Rightarrow> t + cc_ShutdownTimeout c \<le> u \<and> \<not> rs_processing_done s
   | Watched \<Rightarrow> rs_processing_done s \<longrightarrow> t + cc_ShutdownTimeout c \<le> rs_now s)"

text \<open>The delivery \<^verbatim>\<open>Process\<close> works on.\<close>

definition working :: "goroutine \<Rightarrow> delivery option" where
  "working g = (case g of Trying j dl d deadline r \<Rightarrow> Some dl | Resting j dl d deadline r t \<Rightarrow> Some dl | _ \<Rightarrow> None)"

lemma worker_step_keeps:
  assumes "worker_step c q i x s = Some s'"
  shows "rs_now s' = rs_now s \<and> rs_watch s' = rs_watch s \<and> rs_processing_done s' = rs_processing_done s
    \<and> (rs_fetch_done s \<longrightarrow> rs_fetch_done s') \<and> length (rs_workers s') = length (rs_workers s)"
proof -
  from worker_stepE [OF assms] obtain s1 g where go: "go_step c q x s (rs_workers s ! i) = Some (s1, g)"
    and s': "s' = s1\<lparr>rs_workers := (rs_workers s)[i := g]\<rparr>" .
  from go s' show ?thesis by (cases rule: go_step_cases) auto
qed

lemma run_step_window: "run_step c q s s' \<Longrightarrow> window c t s \<Longrightarrow> window c t s'"
proof (induction rule: run_step.induct)
  case (work x i s s')
  with worker_step_keeps [OF work(2)] show ?case by (simp add: window_def split: watch.splits)
next
  case (around s s')
  then show ?case
    by cases (auto simp: window_def watch_step_def split: watch.splits if_splits)
qed

lemma run_steps_window: "run_steps c q s s' \<Longrightarrow> window c t s \<Longrightarrow> window c t s'"
  by (induction rule: rtranclp_induct) (auto dest: run_step_window)

lemma go_step_working:
  assumes "go_step c q x s g = Some (s', g')" and "rs_fetch_done s"
  shows "working g' = None \<or> working g' = working g"
  using assms by (cases g) (simp_all add: working_def next_of_step split: go_step_splits, auto)

lemma run_step_working:
  assumes "run_step c q s s'" and "rs_fetch_done s"
  shows "rs_fetch_done s' \<and> (\<forall>i < length (rs_workers s'). working (rs_workers s' ! i) = None
    \<or> i < length (rs_workers s) \<and> working (rs_workers s' ! i) = working (rs_workers s ! i))"
  using assms(1)
proof cases
  case (work x i)
  from worker_stepE [OF work(2)] obtain s1 g where i: "i < length (rs_workers s)"
    and go: "go_step c q x s (rs_workers s ! i) = Some (s1, g)"
    and s': "s' = s1\<lparr>rs_workers := (rs_workers s)[i := g]\<rparr>" .
  from go_step_working [OF go assms(2)] worker_step_keeps [OF work(2)] assms(2) i s' show ?thesis
    by (auto simp: nth_list_update)
next
  case around
  with around_step_keeps [OF around] assms(2) show ?thesis by simp
qed

lemma run_steps_working:
  assumes "run_steps c q s s'" and "rs_fetch_done s"
  shows "rs_fetch_done s' \<and> (\<forall>i < length (rs_workers s'). working (rs_workers s' ! i) = None
    \<or> i < length (rs_workers s) \<and> working (rs_workers s' ! i) = working (rs_workers s ! i))"
  using assms(1)
proof (induction rule: rtranclp_induct)
  case (step s1 s2)
  with run_step_working [OF step(2)] show ?case by metis
qed (use assms(2) in simp)

section \<open>The outside\<close>

text \<open>The event a worker is about to acknowledge.\<close>

definition confirming :: "goroutine \<Rightarrow> string option" where
  "confirming g = (case g of
     Trying Confirm dl d deadline r \<Rightarrow> Some (e_EventID (d_Event dl))
   | Resting Confirm dl d deadline r t \<Rightarrow> Some (e_EventID (d_Event dl))
   | _ \<Rightarrow> None)"

context delivery_world
begin

definition confirms_stored :: "'w run_state \<Rightarrow> bool" where
  "confirms_stored s \<longleftrightarrow> ok (rs_world s)
     \<and> (\<forall>g \<in> set (rs_workers s). \<forall>i. confirming g = Some i \<longrightarrow> stored (rs_world s) i)"

lemma job_guar:
  assumes "ok w" and "job_action q j dl w = (r, w')" and "j = Confirm \<longrightarrow> stored w (e_EventID (d_Event dl))"
  shows "ok w' \<and> guar w w' \<and> (j = Commit \<and> r = Inr () \<longrightarrow> stored w' (e_EventID (d_Event dl)))"
proof (cases j)
  case (Quarantine err)
  with assms nack_guar show ?thesis
    by (fastforce simp: job_action_def lift_error_def split: prod.splits sum.splits)
next
  case Commit
  with assms persist_guar show ?thesis
    by (fastforce simp: job_action_def lift_error_def split: prod.splits sum.splits)
next
  case Confirm
  let ?a = "\<lparr>a_EventID = e_EventID (d_Event dl), a_Token = d_Token dl\<rparr>"
  obtain r0 where "dp_Ack q ?a w = (r0, w')"
    using assms(2) Confirm by (auto simp: job_action_def lift_error_def split: prod.splits sum.splits)
  with ack_guar [of w ?a] assms Confirm show ?thesis by simp
qed

lemma go_step_guar:
  assumes "ok (rs_world s)" and step: "go_step c q x s g = Some (s', g')"
    and stored: "\<forall>i. confirming g = Some i \<longrightarrow> stored (rs_world s) i"
  shows "ok (rs_world s') \<and> guar (rs_world s) (rs_world s')
    \<and> (\<forall>i. confirming g' = Some i \<longrightarrow> stored (rs_world s') i)"
proof (cases g)
  case (Leasing delay)
  obtain r w where lease: "dp_Lease q (cc_LeaseWait c) (rs_world s) = (r, w)" by fastforce
  from lease_guar [OF assms(1) lease] Leasing lease step assms(1) show ?thesis
    by (auto simp: confirming_def guar_refl split: if_splits sum.splits option.splits)
next
  case (Trying j dl delay deadline rdelay)
  obtain r w where act: "job_action q j dl (rs_world s) = (r, w)" by fastforce
  have "j = Confirm \<longrightarrow> stored (rs_world s) (e_EventID (d_Event dl))"
    using stored Trying by (simp add: confirming_def)
  from job_guar [OF assms(1) act this] guar_stored Trying act step stored assms(1) show ?thesis
    by (cases j) (auto simp: confirming_def next_of_step guar_refl split: if_splits sum.splits)
next
  case (Resting j dl delay deadline rdelay until)
  with step stored assms(1) show ?thesis
    by (cases j) (auto simp: confirming_def next_of_step guar_refl split: if_splits)
qed (use step assms(1) in \<open>auto simp: confirming_def next_of_step guar_refl split: if_splits sum.splits\<close>)

lemma run_step_guar:
  assumes "run_step c q s s'" and inv: "confirms_stored s"
  shows "confirms_stored s' \<and> guar (rs_world s) (rs_world s')"
  using assms(1)
proof cases
  case (work x i)
  from worker_stepE [OF work(2)] obtain s1 g where i: "i < length (rs_workers s)"
    and go: "go_step c q x s (rs_workers s ! i) = Some (s1, g)"
    and s': "s' = s1\<lparr>rs_workers := (rs_workers s)[i := g]\<rparr>" .
  from i inv have "\<forall>k. confirming (rs_workers s ! i) = Some k \<longrightarrow> stored (rs_world s) k"
    by (auto simp: confirms_stored_def)
  from go_step_guar [OF _ go this] inv have 1: "ok (rs_world s1)" "guar (rs_world s) (rs_world s1)"
    "\<forall>k. confirming g = Some k \<longrightarrow> stored (rs_world s1) k" by (auto simp: confirms_stored_def)
  have "stored (rs_world s1) k" if "h \<in> set ((rs_workers s)[i := g])" and "confirming h = Some k" for h k
  proof -
    have "h = g \<or> h \<in> set (rs_workers s)" using that(1) set_update_subset_insert [of "rs_workers s" i g] by blast
    with 1 that(2) inv guar_stored show ?thesis by (auto simp: confirms_stored_def)
  qed
  with 1 s' show ?thesis by (simp add: confirms_stored_def)
next
  case around
  with around_step_keeps [OF around] inv show ?thesis by (simp add: confirms_stored_def guar_refl)
qed

lemma run_steps_guar:
  assumes "run_steps c q s s'" and "confirms_stored s"
  shows "confirms_stored s' \<and> guar (rs_world s) (rs_world s')"
  using assms(1)
proof (induction rule: rtranclp_induct)
  case (step s1 s2)
  with run_step_guar [OF step(2)] guar_trans show ?case by blast
qed (use assms(2) guar_refl in simp)

lemma run_init_guar:
  "run_steps c q (run_init c now w) s \<Longrightarrow> ok w \<Longrightarrow> ok (rs_world s) \<and> guar w (rs_world s)"
  using run_steps_guar [of c "run_init c now w" s]
  by (auto simp: confirms_stored_def run_init_def confirming_def)

end

end
