(* ===== verification/Collector_Solo.thy ===== *)
theory Collector_Solo
  imports Collector_Run
begin

text \<open>
  The steps of a worker agree with the functions of the theory Collector: what a worker does to a
  delivery step by step, while others only pass the time or ask to stop, is one call of \<open>Process\<close>.
\<close>

section \<open>The functions, from any point of the work\<close>

definition work_on :: "collector_config \<Rightarrow> 'w deps \<Rightarrow> delivery \<Rightarrow> int \<Rightarrow> job \<Rightarrow> int \<Rightarrow> attempt_in list \<Rightarrow> 'w \<Rightarrow>
    (work_error + unit) option \<times> attempt_in list \<times> 'w" where
  "work_on c q dl deadline j rdelay xs w =
     (case retry_loop deadline c (job_action q j dl) (job_receipt j) rdelay xs w of
        (Some (Inr _), ys, w') \<Rightarrow>
          if j = Commit
          then retry_loop deadline c (job_action q Confirm dl) (job_receipt Confirm) (cc_RetryMin c) ys w'
          else (Some (Inr ()), ys, w')
      | other \<Rightarrow> other)"

lemma Process_work_on:
  "Process c q now dl xs w = work_on c q dl (work_deadline c now dl)
     (case Store_Validate (d_Event dl) of Inl err \<Rightarrow> Quarantine err | Inr _ \<Rightarrow> Commit) (cc_RetryMin c) xs w"
  by (auto simp: Process_def work_on_def Let_def retry_def job_action_def job_receipt_def
      split: sum.splits prod.splits option.splits)

text \<open>One attempt, in each way it can go.\<close>

lemma work_on_ended:
  "work_err deadline x = Some err \<Longrightarrow> work_on c q dl deadline j r (x # xs) w = (Some (Inl (Work_context err)), xs, w)"
  by (simp add: work_on_def)

lemma work_on_done:
  assumes "work_err deadline x = None" and "job_action q j dl w = (Inr u, w')"
  shows "work_on c q dl deadline j r (x # xs) w =
    (if j = Commit then work_on c q dl deadline Confirm (cc_RetryMin c) xs w' else (Some (Inr ()), xs, w'))"
  using assms by (auto simp: work_on_def split: prod.splits option.splits sum.splits)

lemma work_on_refused:
  assumes "work_err deadline x = None" and "job_action q j dl w = (Inl err, w')"
    and "job_receipt j" and "\<not> work_retryable err"
  shows "work_on c q dl deadline j r (x # xs) w = (Some (Inl err), xs, w')"
  using assms by (simp add: work_on_def)

lemma work_on_again:
  assumes "work_err deadline x = None" and "job_action q j dl w = (Inl err, w')"
    and "\<not> (job_receipt j \<and> \<not> work_retryable err)"
  shows "work_on c q dl deadline j r (x # xs) w = (case at_wait x (pause_time (at_random x) r) of
      Some cerr \<Rightarrow> (Some (Inl (Work_context cerr)), xs, w')
    | None \<Rightarrow> work_on c q dl deadline j (backoff r (cc_RetryMax c)) xs w')"
  using assms by (auto simp: work_on_def split: option.splits)

section \<open>A worker left alone\<close>

text \<open>Its steps from some point of its work on a delivery to the end of that work.\<close>

inductive solo_work :: "collector_config \<Rightarrow> 'w deps \<Rightarrow> nat \<Rightarrow> 'w run_state \<Rightarrow> 'w run_state \<Rightarrow> bool"
  for c :: collector_config and q :: "'w deps" and i :: nat where
  ends: "working (rs_workers s ! i) \<noteq> None \<Longrightarrow> worker_step c q i x s = Some s' \<Longrightarrow>
    working (rs_workers s' ! i) = None \<Longrightarrow> solo_work c q i s s'"
| works: "working (rs_workers s ! i) \<noteq> None \<Longrightarrow> worker_step c q i x s = Some s1 \<Longrightarrow>
    working (rs_workers s1 ! i) \<noteq> None \<Longrightarrow> solo_work c q i s1 s' \<Longrightarrow> solo_work c q i s s'"
| waits: "around_step c s s1 \<Longrightarrow> solo_work c q i s1 s' \<Longrightarrow> solo_work c q i s s'"

definition work_result :: "collector_config \<Rightarrow> int \<Rightarrow> work_error + unit \<Rightarrow> goroutine \<Rightarrow> bool" where
  "work_result c delay res g \<longleftrightarrow> (case res of
     Inr _ \<Rightarrow> g = At_head (cc_RetryMin c)
   | Inl _ \<Rightarrow> \<exists>t. g = Pausing (backoff delay (cc_RetryMax c)) t)"

lemma work_result_simps [simp]:
  "work_result c delay (Inr u) g \<longleftrightarrow> g = At_head (cc_RetryMin c)"
  "work_result c delay (Inl err) g \<longleftrightarrow> (\<exists>t. g = Pausing (backoff delay (cc_RetryMax c)) t)"
  by (simp_all add: work_result_def)

definition attempt_of :: "choice \<Rightarrow> 'w run_state \<Rightarrow> queue_error option \<Rightarrow> attempt_in" where
  "attempt_of x s ended = \<lparr>at_now = rs_now s, at_canceled = rs_processing_done s, at_random = ch_random x,
     at_wait = (\<lambda>d. ended)\<rparr>"

lemma work_err_attempt: "work_err deadline (attempt_of x s ended) = None \<longleftrightarrow> \<not> work_ended s deadline"
  by (simp add: work_err_def attempt_of_def work_ended_def not_less)

text \<open>The functions can do what the worker does, from a point of its work to the end in \<open>s'\<close>.\<close>

fun replays :: "collector_config \<Rightarrow> 'w deps \<Rightarrow> 'w run_state \<Rightarrow> goroutine \<Rightarrow> 'w \<Rightarrow> goroutine \<Rightarrow> bool" where
  "replays c q s (Trying j dl delay deadline r) w' g' =
     (\<exists>xs res. work_on c q dl deadline j r xs (rs_world s) = (Some res, [], w') \<and> work_result c delay res g')"
| "replays c q s (Resting j dl delay deadline r until) w' g' =
     ((w' = rs_world s \<and> (\<exists>t. g' = Pausing (backoff delay (cc_RetryMax c)) t))
      \<or> (\<exists>xs res. work_on c q dl deadline j r xs (rs_world s) = (Some res, [], w') \<and> work_result c delay res g'))"
| "replays c q s g w' g' = (g' = g \<and> w' = rs_world s)"

text \<open>One step of the worker, before anything that can be replayed.\<close>

lemma replays_failed:
  "replays c q s (work_failed c x s delay) w' g' \<Longrightarrow> w' = rs_world s \<and> (\<exists>t. g' = Pausing (backoff delay (cc_RetryMax c)) t)"
  by (simp add: work_failed_def)

lemma replays_attempt:
  assumes "work_on c q dl deadline j r (attempt_of x s e # xs) (rs_world s) = (Some res, [], w')"
    and "work_result c delay res g'"
  shows "replays c q s (Trying j dl delay deadline r) w' g'"
  using assms by auto

lemma trying_step_replays:
  assumes step: "go_step c q x s (Trying j dl delay deadline r) = Some (s1, g1)"
    and later: "replays c q s1 g1 w' g'"
  shows "replays c q s (Trying j dl delay deadline r) w' g'"
proof (cases "work_ended s deadline")
  case True
  then obtain err where err: "work_err deadline (attempt_of x s None) = Some err"
    using work_err_attempt [of deadline x s None] by auto
  from step True later have fin: "w' = rs_world s" "\<exists>t. g' = Pausing (backoff delay (cc_RetryMax c)) t"
    using replays_failed [of c q s x delay w' g'] by auto
  show ?thesis
    by (rule replays_attempt [where x = x and e = None and xs = "[]" and res = "Inl (Work_context err)"])
      (use work_on_ended [OF err, of c q dl j r "[]" "rs_world s"] fin in \<open>simp_all\<close>)
next
  case False
  then have go: "work_err deadline (attempt_of x s e) = None" for e by (simp add: work_err_attempt)
  obtain res w where act: "job_action q j dl (rs_world s) = (res, w)" by fastforce
  have s1: "rs_world s1 = w" using step False act by (auto split: sum.splits)
  show ?thesis
  proof (cases res)
    case (Inr u)
    with step False act have g1: "g1 = work_done c j dl delay deadline" by simp
    note run = work_on_done [OF go act [unfolded Inr], of c r None]
    show ?thesis
    proof (cases "j = Commit")
      case True
      with g1 later s1 obtain xs res' where
        "work_on c q dl deadline Confirm (cc_RetryMin c) xs w = (Some res', [], w')" and "work_result c delay res' g'"
        by (auto simp: work_done_def)
      with run [of xs] True show ?thesis by (intro replays_attempt) simp_all
    next
      case False
      with g1 later s1 have "g' = At_head (cc_RetryMin c)" and "w' = w"
        by (auto simp: work_done_def split: job.splits)
      with run [of "[]"] False show ?thesis by (intro replays_attempt [where res = "Inr ()"]) simp_all
    qed
  next
    case (Inl err)
    show ?thesis
    proof (cases "job_receipt j \<and> \<not> work_retryable err")
      case True
      with step False act Inl have "g1 = work_failed c x s delay" by simp
      with later s1 have fin: "w' = w" "\<exists>t. g' = Pausing (backoff delay (cc_RetryMax c)) t"
        by (auto simp: work_failed_def)
      with work_on_refused [OF go act [unfolded Inl], of c r None "[]"] True show ?thesis
        by (intro replays_attempt [where res = "Inl err"]) simp_all
    next
      case again: False
      with step False act Inl have g1: "g1 = Resting j dl delay deadline (backoff r (cc_RetryMax c)) (pause_until x s r)"
        by simp
      note run = work_on_again [OF go act [unfolded Inl] again, of c r]
      from later [unfolded g1] s1 consider
        (ended) "w' = w" and "\<exists>t. g' = Pausing (backoff delay (cc_RetryMax c)) t"
        | (on) xs res' where "work_on c q dl deadline j (backoff r (cc_RetryMax c)) xs w = (Some res', [], w')"
            and "work_result c delay res' g'"
        by auto
      then show ?thesis
      proof cases
        case ended
        with run [of "Some Canceled" "[]"] show ?thesis
          by (intro replays_attempt [where res = "Inl (Work_context Canceled)"]) (simp_all add: attempt_of_def)
      next
        case on
        with run [of None xs] show ?thesis by (intro replays_attempt) (simp_all add: attempt_of_def)
      qed
    qed
  qed
qed

lemma resting_step_replays:
  assumes step: "go_step c q x s (Resting j dl delay deadline r until) = Some (s1, g1)"
    and later: "replays c q s1 g1 w' g'"
  shows "replays c q s (Resting j dl delay deadline r until) w' g'"
proof -
  from step have "s1 = s" and "g1 = work_failed c x s delay \<or> g1 = Trying j dl delay deadline r"
    by (auto split: if_splits)
  with later show ?thesis by (auto simp: work_failed_def)
qed

lemma working_cases:
  assumes "working g \<noteq> None"
  obtains (trying) j dl delay deadline r where "g = Trying j dl delay deadline r"
  | (resting) j dl delay deadline r until where "g = Resting j dl delay deadline r until"
  using assms by (cases g) (auto simp: working_def)

lemma worker_step_replays:
  assumes work: "working (rs_workers s ! i) \<noteq> None" and step: "worker_step c q i x s = Some s1"
    and later: "replays c q s1 (rs_workers s1 ! i) w' g'"
  shows "replays c q s (rs_workers s ! i) w' g'"
proof -
  from worker_stepE [OF step] obtain s2 g where i: "i < length (rs_workers s)"
    and go: "go_step c q x s (rs_workers s ! i) = Some (s2, g)"
    and s1: "s1 = s2\<lparr>rs_workers := (rs_workers s)[i := g]\<rparr>" .
  have same: "replays c q s1 h w' g' = replays c q s2 h w' g'" for h using s1 by (cases h) simp_all
  have later': "replays c q s2 g w' g'" using later s1 i same by simp
  from work show ?thesis
  proof (cases rule: working_cases)
    case trying
    with trying_step_replays go later' show ?thesis by metis
  next
    case resting
    with resting_step_replays go later' show ?thesis by metis
  qed
qed

lemma solo_work_replays:
  "solo_work c q i s s' \<Longrightarrow> replays c q s (rs_workers s ! i) (rs_world s') (rs_workers s' ! i)"
proof (induction rule: solo_work.induct)
  case (ends s x s')
  have "replays c q s' (rs_workers s' ! i) (rs_world s') (rs_workers s' ! i)"
    using ends(3) by (cases "rs_workers s' ! i") (simp_all add: working_def)
  with worker_step_replays [OF ends(1,2)] show ?case by blast
next
  case (works s x s1 s')
  with worker_step_replays [OF works(1,2)] show ?case by blast
next
  case (waits s s1 s')
  from around_step_keeps [OF waits(1)] have "rs_workers s1 = rs_workers s" and "rs_world s1 = rs_world s" by simp_all
  with waits(3) show ?case by (cases "rs_workers s ! i") simp_all
qed

text \<open>
  The two forms of the lines of \<^verbatim>\<open>Process\<close> agree: the function \<open>Process\<close>, and the steps of a worker that
  the interleavings of \<open>run_step\<close> need. Whatever a worker does with a delivery from the moment it
  starts on it until it is done with it, step by step while time passes and shutdown may cut it
  off at any point, is one call of the function on the outside as the worker found it, for some
  list of attempts: the same changes outside, and the worker goes on with the shortest backoff
  exactly when that call succeeds, else with a pause and the next backoff.
\<close>

theorem work_implements_Process:
  assumes "rs_workers s ! i = begin_work c s dl delay" and "solo_work c q i s s'"
  shows "\<exists>xs res. Process c q (rs_now s) dl xs (rs_world s) = (Some res, [], rs_world s')
    \<and> (case res of
         Inr _ \<Rightarrow> rs_workers s' ! i = At_head (cc_RetryMin c)
       | Inl _ \<Rightarrow> \<exists>t. rs_workers s' ! i = Pausing (backoff delay (cc_RetryMax c)) t)"
proof -
  have "replays c q s (begin_work c s dl delay) (rs_world s') (rs_workers s' ! i)"
    using solo_work_replays [OF assms(2)] assms(1) by simp
  then show ?thesis by (auto simp: begin_work_def Let_def Process_work_on work_result_def)
qed

text \<open>A delivery whose commit fails once, is stored at the second attempt and then acknowledged.\<close>

definition flaky_deps :: "nat deps" where
  "flaky_deps = \<lparr>dp_Lease = (\<lambda>t n. (Inr (Some demo_delivery), n)), dp_Ack = (\<lambda>a n. (Inr (), n + 10)),
     dp_Nack = (\<lambda>a n. (Inr (), n)), dp_Persist = (\<lambda>e n. (if n = 0 then Inl Database_error else Inr (), n + 1))\<rparr>"

definition solo_state :: "goroutine \<Rightarrow> int \<Rightarrow> nat \<Rightarrow> nat run_state" where
  "solo_state g now n = \<lparr>rs_ctx_done = False, rs_fetch_done = False, rs_processing_done = False,
     rs_watch = Watching, rs_now = now, rs_failures = [], rs_workers = [g], rs_world = n\<rparr>"

definition solo_choice :: choice where
  "solo_choice = \<lparr>ch_random = (\<lambda>n. 0), ch_context = True\<rparr>"

lemma solo_demo:
  "solo_work (default_collector (\<lambda>v. None)) flaky_deps 0
     (solo_state (begin_work (default_collector (\<lambda>v. None)) (solo_state Returned 0 0) demo_delivery 7) 0 0)
     (solo_state (At_head (100 * Millisecond)) (50 * Millisecond) 12)"
proof -
  let ?c = "default_collector (\<lambda>v. None)"
  let ?trying = "\<lambda>j r. Trying j demo_delivery 7 (10 * Second) r"
  let ?resting = "Resting Commit demo_delivery 7 (10 * Second) (200 * Millisecond) (50 * Millisecond)"
  have starts: "begin_work ?c (solo_state g 0 0) demo_delivery 7 = ?trying Commit (100 * Millisecond)" for g
    using demo_storable
    by (simp add: begin_work_def Let_def solo_state_def work_deadline_def default_collector_def demo_delivery_def
        unix_time_def unit_defs)
  note defs = worker_step_def solo_state_def work_ended_def job_action_def lift_error_def flaky_deps_def
    job_receipt_def solo_choice_def work_done_def working_def default_collector_def pause_until_def pause_time_def
    backoff_def unit_defs
  have 1: "worker_step ?c flaky_deps 0 solo_choice (solo_state (?trying Commit (100 * Millisecond)) 0 0)
      = Some (solo_state ?resting 0 1)" by (simp add: defs)
  have 2: "around_step ?c (solo_state ?resting 0 1) (solo_state ?resting (50 * Millisecond) 1)"
    using around_step.tick [of "50 * Millisecond" ?c "solo_state ?resting 0 1"] by (simp add: defs)
  have 3: "worker_step ?c flaky_deps 0 solo_choice (solo_state ?resting (50 * Millisecond) 1)
      = Some (solo_state (?trying Commit (200 * Millisecond)) (50 * Millisecond) 1)" by (simp add: defs)
  have 4: "worker_step ?c flaky_deps 0 solo_choice (solo_state (?trying Commit (200 * Millisecond)) (50 * Millisecond) 1)
      = Some (solo_state (?trying Confirm (100 * Millisecond)) (50 * Millisecond) 2)" by (simp add: defs)
  have 5: "worker_step ?c flaky_deps 0 solo_choice (solo_state (?trying Confirm (100 * Millisecond)) (50 * Millisecond) 2)
      = Some (solo_state (At_head (100 * Millisecond)) (50 * Millisecond) 12)" by (simp add: defs)
  show ?thesis unfolding starts
    by (rule solo_work.works [OF _ 1 _ solo_work.waits [OF 2 solo_work.works [OF _ 3 _ solo_work.works [OF _ 4 _
          solo_work.ends [OF _ 5]]]]]) (simp_all add: solo_state_def working_def)
qed

theorem work_implements_Process_witness:
  "\<exists>xs. Process (default_collector (\<lambda>v. None)) flaky_deps 0 demo_delivery xs 0 = (Some (Inr ()), [], 12)"
proof -
  let ?s = "solo_state (begin_work (default_collector (\<lambda>v. None)) (solo_state Returned 0 0) demo_delivery 7) 0 0"
  have "rs_workers ?s ! 0 = begin_work (default_collector (\<lambda>v. None)) ?s demo_delivery 7"
    by (simp add: begin_work_def solo_state_def)
  from work_implements_Process [OF this solo_demo] show ?thesis
    by (auto simp: solo_state_def split: sum.splits) (metis (full_types) old.unit.exhaust sum.exhaust)
qed

end
