(* ===== verification/Collector_Safety.thy ===== *)
theory Collector_Safety
  imports Collector_Run
begin

text \<open>
  What holds whenever \<^verbatim>\<open>collector.Run\<close> runs, whatever the order in which its workers take their
  steps: on its own, when it shuts down, and together with the broker and the database.
\<close>

section \<open>On its own\<close>

text \<open>
  C27: the protocol between the workers, at every moment of a run and in any interleaving. The
  channel of failures holds at most one failure per worker, only failures no retry can help. No
  worker is ever stuck: each that has not returned can take a step, or waits for a timer that
  has not fired yet. Backoffs stay between the two configured bounds. Run returns only after
  its context was canceled or with the failures that made it stop; without an error, only
  after its context was canceled.
\<close>

theorem run_protocol:
  assumes "run_config_ok c" and "run_steps c q (run_init c now w) s"
  shows "int (length (rs_failures s)) \<le> cc_Workers c \<and> (\<forall>err \<in> set (rs_failures s). \<not> Retryable err)
    \<and> (\<forall>i < length (rs_workers s). \<forall>x. rs_workers s ! i \<noteq> Returned \<longrightarrow>
         worker_step c q i x s \<noteq> None \<or> rs_now s < waits_until (rs_workers s ! i))
    \<and> (\<forall>g \<in> set (rs_workers s). \<forall>d \<in> delays_of g. cc_RetryMin c \<le> d \<and> d \<le> cc_RetryMax c)
    \<and> (\<forall>errs. run_result s = Some errs \<longrightarrow> rs_fetch_done s \<and> (errs = [] \<longrightarrow> rs_ctx_done s))"
proof -
  have inv: "run_inv c s" using run_inv_reachable [OF assms(2) run_inv_init assms(1)] assms(1) by blast
  have "length (filter reported (rs_workers s)) \<le> length (rs_workers s)" by (rule length_filter_le)
  with inv have 1: "int (length (rs_failures s)) \<le> cc_Workers c"
    using assms(1) by (auto simp: run_inv_def run_config_ok_def)
  have 2: "rs_fetch_done s \<and> (errs = [] \<longrightarrow> rs_ctx_done s)" if "run_result s = Some errs" for errs
    using that all_returned_stopped [OF inv assms(1)] inv
    by (auto simp: run_result_def run_inv_def split: if_splits)
  have 3: "worker_step c q i x s \<noteq> None \<or> rs_now s < waits_until (rs_workers s ! i)"
    if "i < length (rs_workers s)" and "rs_workers s ! i \<noteq> Returned" for i x
    using worker_enabled [OF inv that] by blast
  have 4: "\<forall>err \<in> set (rs_failures s). \<not> Retryable err" using inv by (simp add: run_inv_def)
  have "\<forall>g \<in> set (rs_workers s). delays_of g \<subseteq> {cc_RetryMin c..cc_RetryMax c}"
    using inv by (simp add: run_inv_def)
  then have 5: "\<forall>g \<in> set (rs_workers s). \<forall>d \<in> delays_of g. cc_RetryMin c \<le> d \<and> d \<le> cc_RetryMax c"
    by (meson atLeastAtMost_iff subsetD)
  show ?thesis using 1 2 3 4 5 by (intro conjI allI impI) simp_all
qed

text \<open>Two workers; the broker refuses the first for good, and the second stops with it.\<close>

definition demo_config :: collector_config where
  "demo_config = (default_collector (\<lambda>v. None))\<lparr>cc_Workers := 1\<rparr>"

definition demo_choice :: choice where
  "demo_choice = \<lparr>ch_random = (\<lambda>n. 0), ch_context = True\<rparr>"

definition refusing_deps :: "unit deps" where
  "refusing_deps = \<lparr>dp_Lease = (\<lambda>t w. (Inl (Http_error 400 False), w)), dp_Ack = (\<lambda>a w. (Inr (), w)),
     dp_Nack = (\<lambda>n w. (Inr (), w)), dp_Persist = (\<lambda>e w. (Inr (), w))\<rparr>"

definition refused_run :: "unit run_state" where
  "refused_run = \<lparr>rs_ctx_done = False, rs_fetch_done = True, rs_processing_done = False, rs_watch = Watching,
     rs_now = 0, rs_failures = [Http_error 400 False], rs_workers = [Returned, Returned], rs_world = ()\<rparr>"

lemma demo_choice_ok: "event_ok (Work i demo_choice)"
  by (simp add: event_ok_def choice_ok_def demo_choice_def)

lemma demo_config_ok: "run_config_ok (default_collector env) \<and> run_config_ok demo_config"
  by (simp add: run_config_ok_def demo_config_def default_collector_def unit_defs)

lemma refused_run_events:
  "run_events (default_collector (\<lambda>v. None)) refusing_deps
     [Work 0 demo_choice, Work 0 demo_choice, Work 0 demo_choice, Work 0 demo_choice, Work 1 demo_choice]
     (run_init (default_collector (\<lambda>v. None)) 0 ()) = Some refused_run"
  by (simp add: run_event_def worker_step_def run_init_def default_collector_def refusing_deps_def
      demo_choice_def Retryable_def refused_run_def numeral_2_eq_2)

theorem run_protocol_witness:
  "run_result refused_run = Some [Http_error 400 False]
     \<and> int (length (rs_failures refused_run)) \<le> 2 \<and> rs_fetch_done refused_run"
proof -
  let ?c = "default_collector (\<lambda>v. None)"
  have res: "run_result refused_run = Some [Http_error 400 False]"
    by (simp add: refused_run_def run_result_def all_returned_def)
  have "run_steps ?c refusing_deps (run_init ?c 0 ()) refused_run"
    by (rule run_events_steps [OF refused_run_events]) (simp add: demo_choice_ok)
  from run_protocol [OF _ this] demo_config_ok [of "\<lambda>v. None"] res show ?thesis
    by (simp add: default_collector_def)
qed

section \<open>Shutting down\<close>

text \<open>
  C28: a collector drains and stops. Once deliveries are no longer fetched, no worker starts on a
  delivery: what is worked on then was being worked on before, by the same worker. That work has
  the whole shutdown timeout: the processing context ends no earlier than that after the last
  moment deliveries were still fetched. And then it is over soon: at most four further steps of
  each worker, in any interleaving with signals and time, until all of them returned, and as
  long as one has not returned it can take a step at once.
\<close>

theorem run_drains:
  assumes "run_config_ok c" and "run_steps c q (run_init c now w) s0" and "\<not> rs_fetch_done s0"
    and "run_steps c q s0 s" and "rs_fetch_done s" and "run_path c q s n s'"
  shows "(\<forall>i dl. i < length (rs_workers s') \<and> working (rs_workers s' ! i) = Some dl \<longrightarrow>
        working (rs_workers s ! i) = Some dl)
    \<and> (rs_processing_done s' \<longrightarrow> rs_now s0 + cc_ShutdownTimeout c \<le> rs_now s')
    \<and> (rs_processing_done s \<longrightarrow> n \<le> 4 * nat (cc_Workers c)
        \<and> (n = 4 * nat (cc_Workers c) \<longrightarrow> all_returned s')
        \<and> (\<forall>i < length (rs_workers s'). rs_workers s' ! i \<noteq> Returned \<longrightarrow>
             worker_step c q i \<lparr>ch_random = (\<lambda>n. 0), ch_context = True\<rparr> s' \<noteq> None))"
proof (intro conjI impI)
  have inv0: "run_inv c s0" using run_inv_reachable [OF assms(2) run_inv_init assms(1)] assms(1) by blast
  have inv: "run_inv c s" by (rule run_inv_reachable [OF assms(4) inv0 assms(1)])
  have steps: "run_steps c q s s'" by (rule run_path_steps [OF assms(6)])
  have inv': "run_inv c s'" by (rule run_inv_reachable [OF steps inv assms(1)])
  show "\<forall>i dl. i < length (rs_workers s') \<and> working (rs_workers s' ! i) = Some dl \<longrightarrow>
      working (rs_workers s ! i) = Some dl"
    using run_steps_working [OF steps assms(5)] by (metis option.distinct(1))
  have "window c (rs_now s0) s0"
    using inv0 assms(3) by (auto simp: window_def run_inv_def split: watch.splits)
  with assms(4) steps have "window c (rs_now s0) s'" by (meson rtranclp_trans run_steps_window)
  then show "rs_now s0 + cc_ShutdownTimeout c \<le> rs_now s'" if "rs_processing_done s'"
    using that by (auto simp: window_def split: watch.splits)
  assume over: "rs_processing_done s"
  from run_path_load [OF assms(6,5) over]
  have load: "n + load s' \<le> load s" "rs_fetch_done s'" "rs_processing_done s'" by blast+
  have "load s \<le> 4 * nat (cc_Workers c)" using load_le [of s] inv by (simp add: run_inv_def)
  with load show "n \<le> 4 * nat (cc_Workers c)" by linarith
  show "all_returned s'" if "n = 4 * nat (cc_Workers c)"
    using that load \<open>load s \<le> 4 * nat (cc_Workers c)\<close> load_zero [of s'] by linarith
  show "\<forall>i < length (rs_workers s'). rs_workers s' ! i \<noteq> Returned \<longrightarrow>
      worker_step c q i \<lparr>ch_random = (\<lambda>n. 0), ch_context = True\<rparr> s' \<noteq> None"
    using worker_enabled [OF inv', of _ q "\<lparr>ch_random = (\<lambda>n. 0), ch_context = True\<rparr>"] load by auto
qed

text \<open>
  A worker that is asked to stop while it works on a delivery whose row cannot be stored: it tries
  again until the shutdown timeout has passed.
\<close>

definition broken_deps :: "unit deps" where
  "broken_deps = \<lparr>dp_Lease = (\<lambda>t w. (Inr (Some demo_delivery), w)), dp_Ack = (\<lambda>a w. (Inr (), w)),
     dp_Nack = (\<lambda>n w. (Inr (), w)), dp_Persist = (\<lambda>e w. (Inl Database_error, w))\<rparr>"

definition drain_state :: "goroutine \<Rightarrow> bool \<Rightarrow> int \<Rightarrow> unit run_state" where
  "drain_state g late now = \<lparr>rs_ctx_done = late, rs_fetch_done = late, rs_processing_done = late,
     rs_watch = (if late then Watched else Watching), rs_now = now, rs_failures = [], rs_workers = [g], rs_world = ()\<rparr>"

definition drain_work :: goroutine where
  "drain_work = Resting Commit demo_delivery (100 * Millisecond) (10 * Second) (200 * Millisecond) (50 * Millisecond)"

lemma drain_begins:
  "run_events demo_config broken_deps (replicate 4 (Work 0 demo_choice)) (run_init demo_config 0 ())
     = Some (drain_state drain_work False 0)"
proof -
  have "d_Event demo_delivery = demo_event" by (simp add: demo_delivery_def)
  moreover have "work_deadline demo_config 0 demo_delivery = 10 * Second"
    by (simp add: work_deadline_def demo_config_def default_collector_def demo_delivery_def unix_time_def unit_defs)
  ultimately show ?thesis
    by (simp add: run_event_def worker_step_def run_init_def demo_config_def default_collector_def broken_deps_def
        demo_choice_def begin_work_def Let_def demo_storable job_action_def job_receipt_def lift_error_def
        pause_until_def pause_time_def backoff_def drain_state_def drain_work_def work_ended_def unit_defs
        eval_nat_numeral)
qed

lemma drain_waits:
  "run_events demo_config broken_deps [Signal, Watch, Tick 20000000000, Watch] (drain_state drain_work False 0)
     = Some (drain_state drain_work True (20 * Second))"
  by (simp add: run_event_def watch_step_def drain_state_def demo_config_def default_collector_def unit_defs)

lemma drain_ends:
  "run_events demo_config broken_deps (replicate 2 (Work 0 demo_choice)) (drain_state drain_work True (20 * Second))
     = Some (drain_state Returned True (20 * Second))"
  by (simp add: run_event_def worker_step_def drain_state_def drain_work_def demo_choice_def work_ended_def
      work_failed_def eval_nat_numeral)

theorem run_drains_witness:
  "2 \<le> 4 * nat (cc_Workers demo_config)
     \<and> rs_now (drain_state drain_work False 0) + 20 * Second \<le> rs_now (drain_state Returned True (20 * Second))"
proof -
  note ok = demo_choice_ok [of 0] demo_config_ok [of "\<lambda>v. None"]
  have begins: "run_steps demo_config broken_deps (run_init demo_config 0 ()) (drain_state drain_work False 0)"
    by (rule run_events_steps [OF drain_begins]) (simp add: ok)
  have waits: "run_steps demo_config broken_deps (drain_state drain_work False 0) (drain_state drain_work True (20 * Second))"
    by (rule run_events_steps [OF drain_waits]) (simp add: event_ok_def)
  have ends: "run_path demo_config broken_deps (drain_state drain_work True (20 * Second)) 2
      (drain_state Returned True (20 * Second))"
    using run_events_path [OF drain_ends] ok(1) by (simp add: is_work_def)
  from run_drains [OF _ begins _ waits _ ends] ok show ?thesis
    by (simp add: drain_state_def demo_config_def default_collector_def)
qed

section \<open>With the broker and the database\<close>

text \<open>
  C26: no event is lost by the collector as a whole. All its workers run, interleaved in any order
  with each other, with the signal that stops them and the shutdown that cuts them off in the
  middle of their work; around each of their calls publishers, other collectors, cleanups, crashes
  and restarts take any steps, requests and responses get lost, commits fail or stay uncertain.
  Every event the broker had accepted and not yet completed is, at every moment, either still
  kept by the broker, unchanged and uncompleted, or stored as a row of the telemetry table.
\<close>

theorem run_loses_nothing:
  assumes "bolt_db E" and "reachable E p d" and "\<forall>x \<in> set script. turn_ok E p P enc x"
    and "run_steps c (system_deps E P enc J encp cl)
      (run_init c now \<lparr>wd_core = (d, db), wd_script = script\<rparr>) s"
    and "recs E (b_db d) i = Some r" and "r_State r \<noteq> StCompleted"
  shows "tel_lookup (snd (wd_core (rs_world s))) i \<noteq> None
    \<or> (\<exists>r'. recs E (b_db (fst (wd_core (rs_world s)))) i = Some r' \<and> r_State r' \<noteq> StCompleted
         \<and> r_Event r' = r_Event r \<and> r_Hash r' = r_Hash r)"
proof -
  have "world_ok E p P enc \<lparr>wd_core = (d, db), wd_script = script\<rparr>" using assms(3) by (simp add: world_ok_def)
  from system.run_init_guar [OF assms(4) this]
  have steps: "pipeline_steps E p P enc (d, db) (wd_core (rs_world s))" by simp
  have "safe_event E i r (d, db)" using assms(5,6) by (auto simp: safe_event_def)
  from pipeline_steps_safe [OF assms(1) steps _ this] assms(2) have "safe_event E i r (wd_core (rs_world s))" by simp
  then show ?thesis by (simp add: safe_event_def)
qed

text \<open>The demonstration event, taken to the database by a running collector.\<close>

definition stored_run :: "mem_db world run_state" where
  "stored_run = \<lparr>rs_ctx_done = False, rs_fetch_done = False, rs_processing_done = False, rs_watch = Watching,
     rs_now = 2 * Second, rs_failures = [], rs_workers = [At_head (100 * Millisecond)],
     rs_world = \<lparr>wd_core = (demo_acked, persist_tx ascii_pg 2 ''x'' demo_event \<lparr>db_telemetry = [], db_gpus = []\<rparr>),
       wd_script = []\<rparr>\<rparr>"

lemma stored_run_events:
  "run_events demo_config demo_deps (replicate 5 (Work 0 demo_choice))
     (run_init demo_config (2 * Second) demo_world) = Some stored_run"
proof -
  have c: "cc_Workers demo_config = 1" "cc_RetryMin demo_config = 100 * Millisecond"
    "cc_LeaseWait demo_config = cc_LeaseWait (default_collector (\<lambda>v. None))"
    by (simp_all add: demo_config_def default_collector_def)
  have dead: "work_deadline demo_config 2000000000 demo_delivery = 12000000000"
    by (simp add: work_deadline_def demo_config_def default_collector_def demo_delivery_def unix_time_def unit_defs)
  have dl: "d_Event demo_delivery = demo_event" and a: "\<lparr>a_EventID = ''e1'', a_Token = d_Token demo_delivery\<rparr> = demo_ack"
    by (simp_all add: demo_delivery_def demo_ack_def)
  show ?thesis
    by (simp add: run_event_def worker_step_def run_init_def c begin_work_def Let_def dl dead demo_storable
        job_action_def lift_error_def demo_persist_turn demo_valid a demo_ack_turn demo_lease_http work_ended_def
        work_done_def stored_run_def unit_defs eval_nat_numeral)
qed

theorem run_loses_nothing_witness:
  "run_events demo_config demo_deps (replicate 5 (Work 0 demo_choice)) (run_init demo_config (2 * Second) demo_world)
      = Some stored_run
   \<and> fst (wd_core (rs_world stored_run)) = demo_acked
   \<and> tel_lookup (snd (wd_core (rs_world stored_run))) ''e1'' \<noteq> None"
proof -
  have "turn_ok demo_env demo_options ascii_pg (\<lambda>e. Some ''x'') (demo_turn n)" if "0 \<le> n" "n < 1000000" for n
    using that demo_clock [of 2] demo_clock [of n]
    by (simp add: turn_ok_def demo_turn_def lease_in_ok_def demo_lease_in_def)
  then have turns: "\<forall>x \<in> set [demo_turn 2, demo_turn 2, demo_turn 3].
      turn_ok demo_env demo_options ascii_pg (\<lambda>e. Some ''x'') x" by simp
  have steps: "run_steps demo_config demo_deps (run_init demo_config (2 * Second) demo_world) stored_run"
    by (rule run_events_steps [OF stored_run_events]) (simp add: demo_choice_ok)
  from run_loses_nothing [OF demo_bolt_db demo_reachable(2) turns steps [unfolded demo_deps_def demo_world_def]
      demo_recs(1)]
  have "tel_lookup (snd (wd_core (rs_world stored_run))) ''e1'' \<noteq> None
      \<or> (\<exists>r'. recs demo_env (b_db demo_acked) ''e1'' = Some r' \<and> r_State r' \<noteq> StCompleted)"
    by (auto simp: demo_fields stored_run_def)
  moreover have "recs demo_env (b_db demo_acked) ''e1'' = Some (completed_record demo_options (3 * Second) demo_lease)"
    using demo_recs(3) by simp
  ultimately have "tel_lookup (snd (wd_core (rs_world stored_run))) ''e1'' \<noteq> None"
    by (auto simp: completed_record_def)
  with stored_run_events show ?thesis by (simp add: stored_run_def)
qed

end
