(* ===== verification/Api.thy ===== *)
theory Api
  imports Storage Config
begin

text \<open>
  internal/api/api.go: the read-only HTTP API. A data request is answered with a complete JSON
  array or with an error, decided before the first byte is sent; the array is prepared in a
  temporary file under a byte budget. The router and error bodies of huma are left out.
\<close>

section \<open>Query strings\<close>

text \<open>\<^verbatim>\<open>url.QueryUnescape\<close>.\<close>

definition hex_value :: "char \<Rightarrow> nat option" where
  "hex_value c = (if CHR ''0'' \<le> c \<and> c \<le> CHR ''9'' then Some (of_char c - 48)
     else if CHR ''a'' \<le> c \<and> c \<le> CHR ''f'' then Some (of_char c - 87)
     else if CHR ''A'' \<le> c \<and> c \<le> CHR ''F'' then Some (of_char c - 55) else None)"

fun QueryUnescape :: "string \<Rightarrow> string option" where
  "QueryUnescape [] = Some []"
| "QueryUnescape (c # cs) =
     (if c = CHR ''%'' then
        (case cs of
           a # b # rest \<Rightarrow> (case (hex_value a, hex_value b) of
               (Some x, Some y) \<Rightarrow> map_option ((#) (char_of (16 * x + y))) (QueryUnescape rest)
             | _ \<Rightarrow> None)
         | _ \<Rightarrow> None)
      else map_option ((#) (if c = CHR ''+'' then CHR '' '' else c)) (QueryUnescape cs))"

text \<open>\<^verbatim>\<open>strings.Cut\<close> and the pieces between separators.\<close>

definition cut :: "char \<Rightarrow> string \<Rightarrow> string \<times> string" where
  "cut sep s = (takeWhile (\<lambda>c. c \<noteq> sep) s, drop 1 (dropWhile (\<lambda>c. c \<noteq> sep) s))"

fun pieces :: "char \<Rightarrow> string \<Rightarrow> string \<Rightarrow> string list" where
  "pieces sep acc [] = [rev acc]"
| "pieces sep acc (c # cs) = (if c = sep then rev acc # pieces sep [] cs else pieces sep (c # acc) cs)"

text \<open>One setting of a query: \<open>None\<close> when \<^verbatim>\<open>ParseQuery\<close> reports an error for it.\<close>

definition query_pair :: "string \<Rightarrow> (string \<times> string) option" where
  "query_pair piece =
     (if CHR '';'' \<in> set piece then None
      else case cut CHR ''='' piece of (k, v) \<Rightarrow>
        (case (QueryUnescape k, QueryUnescape v) of
           (Some k', Some v') \<Rightarrow> Some (k', v')
         | _ \<Rightarrow> None))"

text \<open>\<^verbatim>\<open>url.ParseQuery\<close>: the settings in order; \<open>None\<close> when it returns an error.\<close>

definition ParseQuery :: "string \<Rightarrow> (string \<times> string) list option" where
  "ParseQuery raw = (let ps = filter (\<lambda>piece. piece \<noteq> []) (pieces CHR ''&'' [] raw) in
     if list_all (\<lambda>piece. query_pair piece \<noteq> None) ps then Some (List.map_filter query_pair ps) else None)"

definition query_values :: "string \<Rightarrow> (string \<times> string) list \<Rightarrow> string list" where
  "query_values k q = map snd (filter (\<lambda>kv. fst kv = k) q)"

section \<open>Timestamps\<close>

definition is_digit :: "char \<Rightarrow> bool" where
  "is_digit c \<longleftrightarrow> CHR ''0'' \<le> c \<and> c \<le> CHR ''9''"

text \<open>A text against a template in which \<open>d\<close> stands for a digit.\<close>

definition fits :: "string \<Rightarrow> string \<Rightarrow> bool" where
  "fits template s \<longleftrightarrow> list_all2 (\<lambda>t c. if t = CHR ''d'' then is_digit c else c = t) template s"

definition zone_ok :: "string \<Rightarrow> bool" where
  "zone_ok s \<longleftrightarrow> s = ''Z''
     \<or> (s \<noteq> [] \<and> (hd s = CHR ''+'' \<or> hd s = CHR ''-'') \<and> fits ''dd:dd'' (tl s)
        \<and> (s ! 1 \<in> {CHR ''0'', CHR ''1''} \<or> s ! 1 = CHR ''2'' \<and> s ! 2 \<le> CHR ''3'')
        \<and> s ! 4 \<le> CHR ''5'')"

definition rfc3339 :: "string \<Rightarrow> bool" where
  "rfc3339 s \<longleftrightarrow> fits ''dddd-dd-ddTdd:dd:dd'' (take 19 s)
     \<and> (let rest = drop 19 s in
        if rest \<noteq> [] \<and> hd rest = CHR ''.''
        then (let n = length (takeWhile is_digit (tl rest)) in 1 \<le> n \<and> n \<le> 9 \<and> zone_ok (drop n (tl rest)))
        else zone_ok rest)"

text \<open>
  \<^verbatim>\<open>parseRange\<close>; \<open>parse\<close> is \<^verbatim>\<open>time.Parse\<close> with \<^verbatim>\<open>RFC3339Nano\<close>. Every error is a 400; which of several
  messages is reported depends on the order of a Go map and is left out.
\<close>

definition parse_bound :: "(string \<Rightarrow> gotime option) \<Rightarrow> string \<Rightarrow> gotime option option" where
  "parse_bound parse text = (if \<not> rfc3339 text then None
     else case parse text of
         None \<Rightarrow> None
       | Some t \<Rightarrow> if year t < 1 \<or> year t > 9999 then None else Some (Some (utc t)))"

definition parse_key :: "(string \<Rightarrow> gotime option) \<Rightarrow> (string \<times> string) list \<Rightarrow> string \<Rightarrow> gotime option option" where
  "parse_key parse q k = (case query_values k q of [] \<Rightarrow> Some None | v # _ \<Rightarrow> parse_bound parse v)"

definition parseRange :: "(string \<Rightarrow> gotime option) \<Rightarrow> string \<Rightarrow> (gotime option \<times> gotime option) option" where
  "parseRange parse raw = (case ParseQuery raw of
     None \<Rightarrow> None
   | Some q \<Rightarrow>
       if list_ex (\<lambda>(k, v). (k \<noteq> ''start_time'' \<and> k \<noteq> ''end_time'')
            \<or> length (query_values k q) \<noteq> 1 \<or> v = []) q then None
       else (case parse_key parse q ''start_time'' of
           None \<Rightarrow> None
         | Some start \<Rightarrow>
             (case parse_key parse q ''end_time'' of
                None \<Rightarrow> None
              | Some until \<Rightarrow>
                  (case (start, until) of
                     (Some s, Some u) \<Rightarrow> if t_ns s > t_ns u then None else Some (start, until)
                   | _ \<Rightarrow> Some (start, until)))))"

section \<open>Preparing the response\<close>

text \<open>
  The output of a request: what was written to the file, what is left of the budget, whether
  the next element is the first, and how often the query context was looked at.
\<close>

record out_state =
  os_data :: bytes
  os_left :: int
  os_first :: bool
  os_checks :: nat

text \<open>
  What a request meets: the lifetime context, the requests already running, the temporary file,
  the query context (\<open>True\<close>: done) at each look, whether the file takes a write, the flush and
  seek, and how much of the body the client takes (\<open>None\<close>: all).
\<close>

record send_in =
  si_stopping :: bool
  si_active :: int
  si_temp_ok :: bool
  si_ctx :: "nat \<Rightarrow> bool"
  si_disk :: "bytes \<Rightarrow> bytes \<Rightarrow> bool"
  si_flush_ok :: bool
  si_seek_ok :: bool
  si_copied :: "nat option"

text \<open>\<^verbatim>\<open>limitedWriter.Write\<close>: it refuses a write that exceeds the budget.\<close>

definition limited_Write :: "send_in \<Rightarrow> bytes \<Rightarrow> out_state \<Rightarrow> (read_error + unit) \<times> out_state" where
  "limited_Write I b s =
     (if int (length b) > os_left s then (Inl Visit_error, s)
      else if \<not> si_disk I (os_data s) b then (Inl Visit_error, s)
      else (Inr (), s\<lparr>os_data := os_data s @ b, os_left := os_left s - int (length b)\<rparr>))"

definition newline :: char where "newline = CHR 0x0A"

text \<open>The callback of \<^verbatim>\<open>sendArray\<close>; \<open>json\<close> encodes a row, \<^verbatim>\<open>Encode\<close> ends it with a newline.\<close>

definition emit :: "send_in \<Rightarrow> ('r \<Rightarrow> bytes option) \<Rightarrow> 'r \<Rightarrow> out_state \<Rightarrow> (read_error + unit) \<times> out_state" where
  "emit I json v s0 =
     (let s = s0\<lparr>os_checks := os_checks s0 + 1\<rparr> in
      if si_ctx I (os_checks s0) then (Inl Visit_error, s)
      else case (if os_first s then (Inr (), s) else limited_Write I '','' s) of
          (Inl err, s1) \<Rightarrow> (Inl err, s1)
        | (Inr _, s1) \<Rightarrow>
            (case json v of
               None \<Rightarrow> (Inl Visit_error, s1\<lparr>os_first := False\<rparr>)
             | Some b \<Rightarrow> limited_Write I (b @ [newline]) (s1\<lparr>os_first := False\<rparr>)))"

text \<open>The replies: an error, a complete body, or a body cut short by an aborted connection.\<close>

datatype api_reply = Reply_error int | Reply_array bytes | Reply_aborted bytes

definition prepare :: "send_in \<Rightarrow> api_config \<Rightarrow> (out_state \<Rightarrow> (read_error + unit) \<times> out_state) \<Rightarrow> read_error + bytes" where
  "prepare I c visit =
     (case limited_Write I ''['' \<lparr>os_data = [], os_left = ac_MaxResponseBytes c, os_first = True, os_checks = 0\<rparr> of
        (Inl err, _) \<Rightarrow> Inl err
      | (Inr _, s) \<Rightarrow>
          (case visit s of
             (Inl err, _) \<Rightarrow> Inl err
           | (Inr _, s1) \<Rightarrow>
               if si_ctx I (os_checks s1) then Inl Visit_error
               else (case limited_Write I '']'' s1 of
                   (Inl err, _) \<Rightarrow> Inl err
                 | (Inr _, s2) \<Rightarrow> if si_flush_ok I then Inr (os_data s2) else Inl Visit_error)))"

definition sendArray :: "send_in \<Rightarrow> api_config \<Rightarrow> (out_state \<Rightarrow> (read_error + unit) \<times> out_state) \<Rightarrow> api_reply" where
  "sendArray I c visit =
     (if si_stopping I then Reply_error 503
      else if si_active I \<ge> ac_MaxConcurrent c then Reply_error 503
      else if \<not> si_temp_ok I then Reply_error 503
      else case prepare I c visit of
          Inl GPU_not_found \<Rightarrow> Reply_error 404
        | Inl _ \<Rightarrow> Reply_error 503
        | Inr body \<Rightarrow>
            if \<not> si_seek_ok I then Reply_error 503
            else (case si_copied I of
                None \<Rightarrow> Reply_array body
              | Some n \<Rightarrow> Reply_aborted (take n body)))"

section \<open>The operations\<close>

text \<open>\<open>failed\<close> and \<open>broken\<close> are failures of the database, before and after the rows.\<close>

definition list_gpus :: "('k :: linorder) pg \<Rightarrow> (gpu_row \<Rightarrow> bytes option) \<Rightarrow> send_in \<Rightarrow> api_config \<Rightarrow>
    bool \<Rightarrow> bool \<Rightarrow> tables \<Rightarrow> string \<Rightarrow> api_reply" where
  "list_gpus P json I c failed broken db raw =
     (if raw \<noteq> [] then Reply_error 400
      else sendArray I c (VisitGPUs P failed broken db (emit I json)))"

definition get_gpu_telemetry :: "('k :: linorder) pg \<Rightarrow> (telemetry_row \<Rightarrow> bytes option) \<Rightarrow>
    (string \<Rightarrow> gotime option) \<Rightarrow> send_in \<Rightarrow> api_config \<Rightarrow> bool \<Rightarrow> bool \<Rightarrow> tables \<Rightarrow> string \<Rightarrow> string \<Rightarrow> api_reply" where
  "get_gpu_telemetry P json parse I c failed broken db uuid raw = (case parseRange parse raw of
     None \<Rightarrow> Reply_error 400
   | Some (start, until) \<Rightarrow>
       if uuid = [] \<or> char_of (0 :: nat) \<in> set uuid then Reply_error 400
       else sendArray I c (VisitTelemetry P failed broken db uuid start until (emit I json)))"

definition api_ready :: "bool \<Rightarrow> bool \<Rightarrow> int" where
  "api_ready stopped db_ready = (if stopped \<or> \<not> db_ready then 503 else 200)"

section \<open>Facts\<close>

text \<open>The JSON text of an array: brackets, commas and a newline after each element.\<close>

fun json_elements :: "bytes list \<Rightarrow> bytes" where
  "json_elements [] = []"
| "json_elements [b] = b @ [newline]"
| "json_elements (b # bs) = b @ [newline] @ '','' @ json_elements bs"

definition json_array :: "bytes list \<Rightarrow> bytes" where
  "json_array bs = ''['' @ json_elements bs @ '']''"

text \<open>What the elements add after at least one element.\<close>

definition more_elements :: "bytes list \<Rightarrow> bytes" where
  "more_elements bs = concat (map (\<lambda>b. '','' @ b @ [newline]) bs)"

lemma json_elements_more: "json_elements (b # bs) = b @ [newline] @ more_elements bs"
  by (induction bs arbitrary: b) (simp_all add: more_elements_def)

definition written :: "bool \<Rightarrow> bytes list \<Rightarrow> bytes" where
  "written first bs = (if first then json_elements bs else more_elements bs)"

lemma written_Cons: "written first (b # bs) = (if first then [] else '','') @ b @ [newline] @ written False bs"
  by (simp add: written_def json_elements_more) (simp add: more_elements_def)

lemma limited_Write_ok:
  "limited_Write I b s = (Inr u, s') \<longleftrightarrow>
     int (length b) \<le> os_left s \<and> si_disk I (os_data s) b
     \<and> s' = s\<lparr>os_data := os_data s @ b, os_left := os_left s - int (length b)\<rparr>"
  by (auto simp: limited_Write_def)

lemma limited_Write_err: "limited_Write I b s = (Inl err, s') \<Longrightarrow> err = Visit_error"
  by (auto simp: limited_Write_def split: if_splits)

lemma emit_ok:
  assumes "emit I json v s = (Inr u, s')"
  obtains b where "json v = Some b" and "os_data s' = os_data s @ written (os_first s) [b]"
    and "os_left s' = os_left s - int (length (written (os_first s) [b]))" and "0 \<le> os_left s'"
    and "\<not> os_first s'"
  using assms
  by (auto simp: emit_def Let_def limited_Write_ok written_def more_elements_def
      split: if_splits prod.splits sum.splits option.splits)

lemma emit_err: "emit I json v s = (Inl err, s') \<Longrightarrow> err = Visit_error"
  by (auto simp: emit_def Let_def dest: limited_Write_err split: if_splits prod.splits sum.splits option.splits)

lemma visit_rows_ok:
  assumes "visit_rows (emit I json) broken rs s = (Inr u, s')"
  shows "\<exists>bs. map json rs = map Some bs \<and> os_data s' = os_data s @ written (os_first s) bs
    \<and> os_left s' = os_left s - int (length (written (os_first s) bs)) \<and> (0 \<le> os_left s \<longrightarrow> 0 \<le> os_left s')"
  using assms
proof (induction rs arbitrary: s)
  case Nil
  then show ?case by (auto simp: written_def more_elements_def split: if_splits)
next
  case (Cons r rs)
  obtain s1 where e: "emit I json r s = (Inr (), s1)" and rest: "visit_rows (emit I json) broken rs s1 = (Inr u, s')"
    using Cons.prems by (auto split: prod.splits sum.splits)
  obtain b where b: "json r = Some b" "os_data s1 = os_data s @ written (os_first s) [b]"
    "os_left s1 = os_left s - int (length (written (os_first s) [b]))" "0 \<le> os_left s1" "\<not> os_first s1"
    by (rule emit_ok [OF e])
  from Cons.IH [OF rest] obtain bs where bs: "map json rs = map Some bs"
    "os_data s' = os_data s1 @ written False bs" "os_left s' = os_left s1 - int (length (written False bs))"
    "0 \<le> os_left s'" using b(4,5) by auto
  have "written (os_first s) (b # bs) = written (os_first s) [b] @ written False bs"
    by (simp add: written_Cons) (simp add: written_def more_elements_def)
  with b bs show ?case by (intro exI [of _ "b # bs"]) simp
qed

lemma visit_rows_err:
  "visit_rows (emit I json) broken rs s = (Inl err, s') \<Longrightarrow> err \<noteq> GPU_not_found"
  by (induction rs arbitrary: s) (auto split: if_splits prod.splits sum.splits dest: emit_err)

definition gpu_known :: "tables \<Rightarrow> string \<Rightarrow> bool" where
  "gpu_known db uuid \<longleftrightarrow> list_ex (\<lambda>g. g_uuid g = uuid) (db_gpus db)"

lemma VisitTelemetry_rows:
  "VisitTelemetry P failed broken db uuid start until visit s =
     (if failed then (Inl Read_failed_error, s)
      else if \<not> gpu_known db uuid then (Inl GPU_not_found, s)
      else visit_rows visit broken (select_telemetry P uuid start until db) s)"
  by (simp add: VisitTelemetry_def gpu_known_def)

lemma prepare_ok:
  assumes "prepare I c visit = Inr body"
    and "\<And>s u s'. visit s = (Inr u, s') \<Longrightarrow> visit s = visit_rows (emit I json) broken rs s"
  shows "\<exists>bs. map json rs = map Some bs \<and> body = json_array bs \<and> int (length body) \<le> ac_MaxResponseBytes c"
proof -
  let ?s0 = "\<lparr>os_data = [], os_left = ac_MaxResponseBytes c, os_first = True, os_checks = 0\<rparr>"
  obtain s s1 s2 where 1: "limited_Write I ''['' ?s0 = (Inr (), s)" and 2: "visit s = (Inr (), s1)"
    and 3: "limited_Write I '']'' s1 = (Inr (), s2)" and body: "body = os_data s2"
    using assms(1) by (auto simp: prepare_def split: prod.splits sum.splits if_splits)
  from 2 assms(2) [OF 2] have "visit_rows (emit I json) broken rs s = (Inr (), s1)" by simp
  from visit_rows_ok [OF this] obtain bs where bs: "map json rs = map Some bs"
    "os_data s1 = os_data s @ written (os_first s) bs"
    "os_left s1 = os_left s - int (length (written (os_first s) bs))" by blast
  have s: "os_data s = ''[''" "os_first s" "os_left s = ac_MaxResponseBytes c - 1"
    using 1 by (auto simp: limited_Write_ok)
  have "body = json_array bs" using body 3 bs s by (auto simp: limited_Write_ok json_array_def written_def)
  moreover have "int (length body) \<le> ac_MaxResponseBytes c"
    using body 3 bs s by (auto simp: limited_Write_ok)
  ultimately show ?thesis using bs(1) by blast
qed

lemma prepare_not_found:
  assumes "prepare I c visit = Inl GPU_not_found" and "\<And>s s'. visit s \<noteq> (Inl GPU_not_found, s')"
  shows False
  using assms limited_Write_err [of I _ _ GPU_not_found]
  by (auto simp: prepare_def split: prod.splits sum.splits if_splits)

lemma sendArray_array:
  "sendArray I c visit = Reply_array body \<Longrightarrow> prepare I c visit = Inr body"
  "sendArray I c visit = Reply_aborted body \<Longrightarrow> \<exists>whole n. prepare I c visit = Inr whole \<and> body = take n whole"
  by (auto simp: sendArray_def split: if_splits sum.splits read_error.splits option.splits)

lemma sendArray_error:
  "sendArray I c visit = Reply_error st \<Longrightarrow> st = 503 \<or> st = 404 \<and> prepare I c visit = Inl GPU_not_found"
  by (auto simp: sendArray_def split: if_splits sum.splits read_error.splits option.splits)

section \<open>Properties\<close>

text \<open>
  C30: a telemetry request is answered completely or with an error. Whatever fails on the way,
  a 200 reply is the JSON array of exactly the rows the range selects, all of them in their
  order, within the byte budget and for a known GPU; a body cut short is the beginning of such
  an array on an aborted connection; an error is 400, 404 (only for an unknown GPU) or 503.
\<close>

theorem api_complete_or_error:
  assumes "get_gpu_telemetry P json parse I c failed broken db uuid raw = reply"
  shows "(reply = Reply_array body \<longrightarrow> (\<exists>start until bs. parseRange parse raw = Some (start, until)
        \<and> gpu_known db uuid \<and> map json (select_telemetry P uuid start until db) = map Some bs
        \<and> body = json_array bs \<and> int (length body) \<le> ac_MaxResponseBytes c))
    \<and> (reply = Reply_aborted body \<longrightarrow> (\<exists>start until bs n. parseRange parse raw = Some (start, until)
        \<and> map json (select_telemetry P uuid start until db) = map Some bs \<and> body = take n (json_array bs)))
    \<and> (reply = Reply_error st \<longrightarrow> st \<in> {400, 404, 503} \<and> (st = 404 \<longrightarrow> \<not> gpu_known db uuid))"
proof (cases "parseRange parse raw = None \<or> uuid = [] \<or> char_of (0 :: nat) \<in> set uuid")
  case True
  then show ?thesis using assms by (auto simp: get_gpu_telemetry_def split: option.splits prod.splits)
next
  case False
  then obtain start until where range: "parseRange parse raw = Some (start, until)" by auto
  let ?visit = "VisitTelemetry P failed broken db uuid start until (emit I json)"
  let ?rows = "select_telemetry P uuid start until db"
  have reply: "reply = sendArray I c ?visit" using assms False range by (simp add: get_gpu_telemetry_def)
  have visit: "?visit s = visit_rows (emit I json) broken ?rows s \<and> gpu_known db uuid"
    if "?visit s = (Inr u, s')" for s u s'
    using that by (simp add: VisitTelemetry_rows split: if_splits)
  have known: "gpu_known db uuid" if "prepare I c ?visit = Inr b" for b
    using that visit by (auto simp: prepare_def split: prod.splits sum.splits if_splits)
  have whole: "\<exists>bs. map json ?rows = map Some bs \<and> b = json_array bs \<and> int (length b) \<le> ac_MaxResponseBytes c"
    if "prepare I c ?visit = Inr b" for b
    using prepare_ok [OF that] visit by blast
  have "\<not> gpu_known db uuid" if "prepare I c ?visit = Inl GPU_not_found"
  proof
    assume "gpu_known db uuid"
    then have "?visit s \<noteq> (Inl GPU_not_found, s')" for s s'
      using visit_rows_err [of I json broken ?rows s GPU_not_found s'] by (auto simp: VisitTelemetry_rows)
    with prepare_not_found [OF that] show False by blast
  qed
  note missing = this
  show ?thesis
  proof (intro conjI impI)
    assume "reply = Reply_array body"
    then have "prepare I c ?visit = Inr body" using sendArray_array(1) unfolding reply by blast
    with known whole range show "\<exists>start until bs. parseRange parse raw = Some (start, until)
        \<and> gpu_known db uuid \<and> map json (select_telemetry P uuid start until db) = map Some bs
        \<and> body = json_array bs \<and> int (length body) \<le> ac_MaxResponseBytes c" by fast
  next
    assume "reply = Reply_aborted body"
    then obtain b n where "prepare I c ?visit = Inr b" and "body = take n b"
      using sendArray_array(2) unfolding reply by blast
    with whole range show "\<exists>start until bs n. parseRange parse raw = Some (start, until)
        \<and> map json (select_telemetry P uuid start until db) = map Some bs \<and> body = take n (json_array bs)"
      by fast
  next
    assume "reply = Reply_error st"
    then have "st = 503 \<or> st = 404 \<and> prepare I c ?visit = Inl GPU_not_found"
      using sendArray_error unfolding reply by blast
    with missing show "st \<in> {400, 404, 503}" and "st = 404 \<Longrightarrow> \<not> gpu_known db uuid" by auto
  qed
qed

lemma fits_demo: "rfc3339 ''2025-07-18T20:42:34.123Z''" "\<not> rfc3339 ''2025-07-18 20:42:34Z''"
  "\<not> rfc3339 ''2025-07-18T20:42:34+24:00''" "rfc3339 ''2025-07-18T20:42:34+05:30''"
  by code_simp+

definition demo_send :: send_in where
  "demo_send = \<lparr>si_stopping = False, si_active = 0, si_temp_ok = True, si_ctx = (\<lambda>k. False),
     si_disk = (\<lambda>d b. True), si_flush_ok = True, si_seek_ok = True, si_copied = None\<rparr>"

definition demo_tables :: tables where
  "demo_tables = filled [(1, [], sample_event ''b'' 3 ''k''), (2, [], sample_event ''a'' 5 ''h'')]"

theorem api_complete_or_error_witness:
  "\<exists>body. get_gpu_telemetry ascii_pg (\<lambda>r. Some (tr_event_id r)) (\<lambda>t. Some (unix_time 4000)) demo_send DefaultAPI
       False False demo_tables ''g'' ''start_time=2025-07-18T20:42:34Z'' = Reply_array body
     \<and> int (length body) \<le> 64 * 2 ^ 20"
proof -
  let ?reply = "get_gpu_telemetry ascii_pg (\<lambda>r. Some (tr_event_id r)) (\<lambda>t. Some (unix_time 4000)) demo_send
      DefaultAPI False False demo_tables ''g'' ''start_time=2025-07-18T20:42:34Z''"
  have "(case ?reply of Reply_array b \<Rightarrow> True | _ \<Rightarrow> False)" by code_simp
  then obtain body where body: "?reply = Reply_array body" by (cases ?reply) auto
  from conjunct1 [OF api_complete_or_error [OF body, of body 0]]
  have "int (length body) \<le> ac_MaxResponseBytes DefaultAPI" by blast
  with body show ?thesis by (simp add: DefaultAPI_def)
qed

section \<open>Without failures\<close>

definition quiet_send :: "send_in \<Rightarrow> api_config \<Rightarrow> bool" where
  "quiet_send I c \<longleftrightarrow> \<not> si_stopping I \<and> si_active I < ac_MaxConcurrent c \<and> si_temp_ok I
     \<and> (\<forall>k. \<not> si_ctx I k) \<and> (\<forall>d b. si_disk I d b) \<and> si_flush_ok I \<and> si_seek_ok I \<and> si_copied I = None"

lemma limited_Write_quiet:
  "quiet_send I c \<Longrightarrow> limited_Write I b s =
     (if int (length b) \<le> os_left s
      then (Inr (), s\<lparr>os_data := os_data s @ b, os_left := os_left s - int (length b)\<rparr>)
      else (Inl Visit_error, s))"
  by (simp add: limited_Write_def quiet_send_def)

lemma emit_quiet:
  assumes "quiet_send I c" and "json v = Some b"
  shows "if int (length (written (os_first s) [b])) \<le> os_left s
    then \<exists>s'. emit I json v s = (Inr (), s') \<and> os_data s' = os_data s @ written (os_first s) [b]
        \<and> os_left s' = os_left s - int (length (written (os_first s) [b])) \<and> \<not> os_first s'
    else \<exists>s'. emit I json v s = (Inl Visit_error, s')"
proof -
  have "\<not> si_ctx I k" for k using assms(1) by (simp add: quiet_send_def)
  then show ?thesis
    using assms(2) by (simp add: emit_def Let_def limited_Write_quiet [OF assms(1)] written_def more_elements_def)
qed

lemma visit_rows_quiet:
  assumes q: "quiet_send I c" and "map json rs = map Some bs" and "0 \<le> os_left s"
  shows "if int (length (written (os_first s) bs)) \<le> os_left s
    then \<exists>s'. visit_rows (emit I json) False rs s = (Inr (), s') \<and> os_data s' = os_data s @ written (os_first s) bs
        \<and> os_left s' = os_left s - int (length (written (os_first s) bs))
    else \<exists>s'. visit_rows (emit I json) False rs s = (Inl Visit_error, s')"
  using assms(2,3)
proof (induction rs arbitrary: bs s)
  case Nil
  then show ?case by (simp add: written_def more_elements_def)
next
  case (Cons r rs)
  then obtain b bs' where bs: "bs = b # bs'" "json r = Some b" "map json rs = map Some bs'"
    by (cases bs) auto
  have len: "written (os_first s) bs = written (os_first s) [b] @ written False bs'"
    unfolding bs(1) by (simp add: written_Cons) (simp add: written_def more_elements_def)
  show ?case
  proof (cases "int (length (written (os_first s) [b])) \<le> os_left s")
    case True
    with emit_quiet [where json = json and v = r and s = s, OF q bs(2)] obtain s1
      where s1: "emit I json r s = (Inr (), s1)" "os_data s1 = os_data s @ written (os_first s) [b]"
      "os_left s1 = os_left s - int (length (written (os_first s) [b]))" "os_first s1 = False" by auto
    with Cons.IH [OF bs(3), of s1] True show ?thesis by (auto simp: len)
  next
    case False
    with emit_quiet [where json = json and v = r and s = s, OF q bs(2)] obtain s1
      where "emit I json r s = (Inl Visit_error, s1)" by auto
    with False show ?thesis by (simp add: len)
  qed
qed

text \<open>
  C31: when nothing fails, a telemetry request has exactly one outcome: 400 for a malformed
  range or identity, 404 for a GPU that is not known, 503 when the array of the selected rows
  exceeds the byte budget, and otherwise that array.
\<close>

theorem api_serves:
  assumes "quiet_send I c" and "1 \<le> ac_MaxResponseBytes c"
    and "\<And>r. json r \<noteq> None"
  shows "get_gpu_telemetry P json parse I c False False db uuid raw =
    (case parseRange parse raw of
       None \<Rightarrow> Reply_error 400
     | Some (start, until) \<Rightarrow>
         if uuid = [] \<or> char_of (0 :: nat) \<in> set uuid then Reply_error 400
         else if \<not> gpu_known db uuid then Reply_error 404
         else let body = json_array (map (\<lambda>r. the (json r)) (select_telemetry P uuid start until db)) in
           if int (length body) > ac_MaxResponseBytes c then Reply_error 503 else Reply_array body)"
proof -
  have "sendArray I c (VisitTelemetry P False False db uuid start until (emit I json)) =
    (if \<not> gpu_known db uuid then Reply_error 404
     else let body = json_array (map (\<lambda>r. the (json r)) (select_telemetry P uuid start until db)) in
       if int (length body) > ac_MaxResponseBytes c then Reply_error 503 else Reply_array body)" for start until
  proof -
    let ?rows = "select_telemetry P uuid start until db"
    let ?bs = "map (\<lambda>r. the (json r)) ?rows"
    let ?s = "\<lparr>os_data = ''['', os_left = ac_MaxResponseBytes c - 1, os_first = True, os_checks = 0\<rparr>"
    have bs: "map json ?rows = map Some ?bs" using assms(3) by simp
    have start: "limited_Write I ''['' \<lparr>os_data = [], os_left = ac_MaxResponseBytes c, os_first = True, os_checks = 0\<rparr>
        = (Inr (), ?s)" using assms(2) by (simp add: limited_Write_quiet [OF assms(1)])
    have quiet: "\<not> si_stopping I" "si_active I < ac_MaxConcurrent c" "si_temp_ok I" "\<not> si_ctx I k" "si_flush_ok I"
      "si_seek_ok I" "si_copied I = None" for k using assms(1) by (simp_all add: quiet_send_def)
    show ?thesis
    proof (cases "gpu_known db uuid")
      case True
      have len: "int (length (json_array ?bs)) = int (length (written True ?bs)) + 2"
        by (simp add: json_array_def written_def)
      show ?thesis
      proof (cases "int (length (written True ?bs)) \<le> ac_MaxResponseBytes c - 1")
        case fits: True
        with visit_rows_quiet [OF assms(1) bs, of ?s] assms(2) obtain s'
          where s': "visit_rows (emit I json) False ?rows ?s = (Inr (), s')" "os_data s' = ''['' @ written True ?bs"
            "os_left s' = ac_MaxResponseBytes c - 1 - int (length (written True ?bs))" by auto
        have "prepare I c (VisitTelemetry P False False db uuid start until (emit I json)) =
            (if int (length (json_array ?bs)) \<le> ac_MaxResponseBytes c then Inr (json_array ?bs) else Inl Visit_error)"
          using s' quiet True len
          by (auto simp: prepare_def start VisitTelemetry_rows limited_Write_quiet [OF assms(1)] json_array_def
              written_def)
        then show ?thesis using quiet True by (simp add: sendArray_def Let_def)
      next
        case False
        with visit_rows_quiet [OF assms(1) bs, of ?s] assms(2) obtain s'
          where "visit_rows (emit I json) False ?rows ?s = (Inl Visit_error, s')" by auto
        then have "prepare I c (VisitTelemetry P False False db uuid start until (emit I json)) = Inl Visit_error"
          using True by (simp add: prepare_def start VisitTelemetry_rows)
        then show ?thesis using quiet True len False by (simp add: sendArray_def Let_def)
      qed
    next
      case False
      then show ?thesis using quiet by (simp add: sendArray_def prepare_def start VisitTelemetry_rows)
    qed
  qed
  then show ?thesis by (simp add: get_gpu_telemetry_def split: option.split)
qed

theorem api_serves_witness:
  "get_gpu_telemetry ascii_pg (\<lambda>r. Some (tr_event_id r)) (\<lambda>t. None) demo_send DefaultAPI False False
     demo_tables ''g'' [] = Reply_array (json_array [''b'', ''a''])"
proof -
  have "quiet_send demo_send DefaultAPI" by (simp add: quiet_send_def demo_send_def DefaultAPI_def)
  moreover have "parseRange (\<lambda>t. None) [] = Some (None, None)" by code_simp
  moreover have "gpu_known demo_tables ''g''" by code_simp
  moreover have "char_of (0 :: nat) \<notin> set ''g''" by code_simp
  moreover have "map tr_event_id (select_telemetry ascii_pg ''g'' None None demo_tables) = [''b'', ''a'']"
    by code_simp
  moreover have "length (json_array [''b'', ''a'']) = 7" by code_simp
  ultimately show ?thesis
    by (subst api_serves) (simp_all add: DefaultAPI_def)
qed

end
