(* ===== verification/Api_Load.thy ===== *)
theory Api_Load
  imports Api
begin

text \<open>
  internal/api: the routes, many requests at the same time, and the transfer of a prepared
  response. Each request in progress holds one of the slots and one temporary file.
\<close>

section \<open>Routes\<close>

text \<open>The requests the router lets through to the handlers, and what they answer.\<close>

datatype api_request =
  List_gpus string
| Get_telemetry string string
| Api_health
| Api_ready

datatype api_answer = Array_answer api_reply | Status_answer int string

definition api_route :: "('k :: linorder) pg \<Rightarrow> (gpu_row \<Rightarrow> bytes option) \<Rightarrow> (telemetry_row \<Rightarrow> bytes option) \<Rightarrow>
    (string \<Rightarrow> gotime option) \<Rightarrow> send_in \<Rightarrow> api_config \<Rightarrow> bool \<Rightarrow> bool \<Rightarrow> bool \<Rightarrow> tables \<Rightarrow> api_request \<Rightarrow> api_answer" where
  "api_route P gpu_json row_json parse I c failed broken db_ready db req = (case req of
     List_gpus raw \<Rightarrow> Array_answer (list_gpus P gpu_json I c failed broken db raw)
   | Get_telemetry uuid raw \<Rightarrow>
       Array_answer (get_gpu_telemetry P row_json parse I c failed broken db uuid raw)
   | Api_health \<Rightarrow> Status_answer 200 ''ok''
   | Api_ready \<Rightarrow> if api_ready (si_stopping I) db_ready = 200 then Status_answer 200 ''ready''
       else Status_answer (api_ready (si_stopping I) db_ready) ''Database unavailable or migrations missing'')"

section \<open>Requests in progress\<close>

text \<open>
  \<open>Begin\<close> takes a slot and creates the file, \<open>Write_part\<close> writes to it through the limit (a failing
  disk may take a part only), \<open>Emit_gpu\<close> and \<open>Emit_row\<close> are the callback for one row, \<open>Finish\<close> gives file and slot
  back.
\<close>

definition fresh_output :: "api_config \<Rightarrow> out_state" where
  "fresh_output c = \<lparr>os_data = [], os_left = ac_MaxResponseBytes c, os_first = True, os_checks = 0\<rparr>"

definition write_part :: "bytes \<Rightarrow> nat \<Rightarrow> out_state \<Rightarrow> out_state" where
  "write_part b n s = (if int (length b) > os_left s then s
     else s\<lparr>os_data := os_data s @ take n b, os_left := os_left s - int (length (take n b))\<rparr>)"

definition admit_request :: "api_config \<Rightarrow> send_in \<Rightarrow> bool" where
  "admit_request c I \<longleftrightarrow> \<not> si_stopping I \<and> \<not> si_active I \<ge> ac_MaxConcurrent c \<and> si_temp_ok I"

inductive load_step :: "api_config \<Rightarrow> out_state list \<Rightarrow> out_state list \<Rightarrow> bool"
  for c :: api_config where
  Begin: "admit_request c I \<Longrightarrow> si_active I = int (length rs) \<Longrightarrow> load_step c rs (rs @ [fresh_output c])"
| Write_part: "i < length rs \<Longrightarrow> load_step c rs (rs[i := write_part b n (rs ! i)])"
| Emit_gpu: "i < length rs \<Longrightarrow> emit I gpu_json (g :: gpu_row) (rs ! i) = (res, s) \<Longrightarrow> load_step c rs (rs[i := s])"
| Emit_row: "i < length rs \<Longrightarrow> emit I json (v :: telemetry_row) (rs ! i) = (res, s) \<Longrightarrow> load_step c rs (rs[i := s])"
| Finish: "i < length rs \<Longrightarrow> load_step c rs (take i rs @ drop (Suc i) rs)"

definition output_ok :: "api_config \<Rightarrow> out_state \<Rightarrow> bool" where
  "output_ok c s \<longleftrightarrow> 0 \<le> os_left s \<and> int (length (os_data s)) + os_left s = ac_MaxResponseBytes c"

definition load_ok :: "api_config \<Rightarrow> out_state list \<Rightarrow> bool" where
  "load_ok c rs \<longleftrightarrow> int (length rs) \<le> ac_MaxConcurrent c \<and> (\<forall>s \<in> set rs. output_ok c s)"

lemma sendArray_admits: "sendArray I c visit \<noteq> Reply_error 503 \<Longrightarrow> admit_request c I"
  by (auto simp: sendArray_def admit_request_def split: if_splits)

lemma write_part_ok: "output_ok c s \<Longrightarrow> output_ok c (write_part b n s)"
  by (auto simp: output_ok_def write_part_def)

lemma limited_Write_part:
  assumes "limited_Write I b s = (r, s')"
  shows "s' = s \<or> s' = write_part b (length b) s"
  using assms by (auto simp: limited_Write_def write_part_def split: if_splits)

lemma limited_Write_output: "limited_Write I b s = (r, s') \<Longrightarrow> output_ok c s \<Longrightarrow> output_ok c s'"
  using limited_Write_part write_part_ok by metis

lemma output_ok_fields:
  "output_ok c (s\<lparr>os_first := f\<rparr>) = output_ok c s" "output_ok c (s\<lparr>os_checks := n\<rparr>) = output_ok c s"
  by (simp_all add: output_ok_def)

lemma emit_output:
  assumes "emit I json v s = (r, s')" and "output_ok c s"
  shows "output_ok c s'"
proof -
  let ?s = "s\<lparr>os_checks := os_checks s + 1\<rparr>"
  have s: "output_ok c ?s" using assms(2) by (simp add: output_ok_fields)
  obtain r1 s1 where comma: "(if os_first ?s then (Inr (), ?s) else limited_Write I '','' ?s) = (r1, s1)" by fastforce
  have s1: "output_ok c s1" using comma s limited_Write_output by (auto split: if_splits)
  note run = assms(1) [unfolded emit_def Let_def comma]
  show ?thesis
  proof (cases "si_ctx I (os_checks s)")
    case True
    with run s show ?thesis by simp
  next
    case False
    show ?thesis
    proof (cases r1)
      case (Inl err)
      with run False s1 show ?thesis by simp
    next
      case (Inr u)
      have "output_ok c (s1\<lparr>os_first := False\<rparr>)" using s1 by (simp add: output_ok_fields)
      with run False Inr limited_Write_output show ?thesis by (auto split: option.splits)
    qed
  qed
qed

lemma load_step_ok:
  assumes "load_step c rs rs'" and ok: "load_ok c rs" and "0 \<le> ac_MaxResponseBytes c"
  shows "load_ok c rs'"
  using assms(1)
proof cases
  case (Begin I)
  with ok assms(3) show ?thesis by (auto simp: load_ok_def admit_request_def fresh_output_def output_ok_def)
next
  case (Write_part i b n)
  then have "output_ok c (rs ! i)" using ok by (simp add: load_ok_def)
  from write_part_ok [OF this] ok Write_part show ?thesis
    by (auto simp: load_ok_def dest: set_update_subset_insert [THEN subsetD])
next
  case (Emit_gpu i I gpu_json g res s)
  then have "output_ok c (rs ! i)" using ok by (simp add: load_ok_def)
  with emit_output [OF Emit_gpu(3)] ok Emit_gpu(1,2) show ?thesis
    by (auto simp: load_ok_def dest: set_update_subset_insert [THEN subsetD])
next
  case (Emit_row i I json v res s)
  then have "output_ok c (rs ! i)" using ok by (simp add: load_ok_def)
  with emit_output [OF Emit_row(3)] ok Emit_row(1,2) show ?thesis
    by (auto simp: load_ok_def dest: set_update_subset_insert [THEN subsetD])
next
  case (Finish i)
  with ok show ?thesis by (auto simp: load_ok_def dest: in_set_takeD in_set_dropD)
qed

lemma load_steps_ok:
  assumes "(load_step c)\<^sup>*\<^sup>* [] rs" and "1 \<le> ac_MaxConcurrent c" and "0 \<le> ac_MaxResponseBytes c"
  shows "load_ok c rs"
  using assms(1)
proof (induction rule: rtranclp_induct)
  case base
  with assms(2) show ?case by (simp add: load_ok_def)
next
  case (step rs1 rs2)
  with load_step_ok assms(3) show ?case by blast
qed

text \<open>
  C32: the response budget holds for the server as a whole. With an accepted configuration, and any
  number of requests that begin, write, fail and finish in any order, no more requests are in
  progress than configured, and their temporary files together never take more than the
  configured bytes per response for each of them, at most 16 GiB.
\<close>

theorem api_budget:
  assumes "ParseAPI S env args = Inr c" and "(load_step c)\<^sup>*\<^sup>* [] rs"
  shows "int (length rs) \<le> ac_MaxConcurrent c
    \<and> (\<Sum>s \<leftarrow> rs. int (length (os_data s))) \<le> ac_MaxConcurrent c * ac_MaxResponseBytes c
    \<and> (\<Sum>s \<leftarrow> rs. int (length (os_data s))) \<le> 2 ^ 34"
proof -
  have c: "\<not> bad_api c" using assms(1) by (auto simp: ParseAPI_def sbind_def split: sum.splits if_splits)
  have ok: "load_ok c rs" using load_steps_ok [OF assms(2)] c by (simp add: bad_api_def)
  have "(\<Sum>s \<leftarrow> rs. int (length (os_data s))) \<le> (\<Sum>s \<leftarrow> rs. ac_MaxResponseBytes c)"
    using ok by (intro sum_list_mono) (auto simp: load_ok_def output_ok_def)
  also have "\<dots> = int (length rs) * ac_MaxResponseBytes c" by (simp add: sum_list_triv)
  also have "\<dots> \<le> ac_MaxConcurrent c * ac_MaxResponseBytes c"
    using ok c by (intro mult_right_mono) (auto simp: load_ok_def bad_api_def)
  finally have 1: "(\<Sum>s \<leftarrow> rs. int (length (os_data s))) \<le> ac_MaxConcurrent c * ac_MaxResponseBytes c" .
  have "ac_MaxConcurrent c * ac_MaxResponseBytes c \<le> 16 * 2 ^ 30"
    using c by (intro mult_mono) (auto simp: bad_api_def)
  with 1 ok show ?thesis by (auto simp: load_ok_def)
qed

text \<open>Two requests of a server with the default limits; the second has written its first byte.\<close>

definition demo_send :: "nat \<Rightarrow> send_in" where
  "demo_send n = \<lparr>si_stopping = False, si_active = int n, si_temp_ok = True, si_ctx = (\<lambda>k. False),
     si_disk = (\<lambda>a b. True), si_flush_ok = True, si_seek_ok = True, si_copied = None\<rparr>"

definition demo_api_values :: value_syntax where
  "demo_api_values = \<lparr>vs_int = (\<lambda>v. None), vs_uint = (\<lambda>v. None), vs_float = (\<lambda>v. None), vs_duration = (\<lambda>v. None)\<rparr>"

theorem api_budget_witness:
  "\<exists>c rs. ParseAPI demo_api_values [''DATABASE_URL'' \<mapsto> ''db''] [] = Inr c \<and> (load_step c)\<^sup>*\<^sup>* [] rs
     \<and> map os_data rs = [[], ''['']
     \<and> (\<Sum>s \<leftarrow> rs. int (length (os_data s))) \<le> ac_MaxConcurrent c * ac_MaxResponseBytes c"
proof -
  let ?r = "ParseAPI demo_api_values [''DATABASE_URL'' \<mapsto> ''db''] []"
  have "(case ?r of Inr c \<Rightarrow> 2 \<le> ac_MaxConcurrent c \<and> 1 \<le> ac_MaxResponseBytes c | Inl _ \<Rightarrow> False)" by code_simp
  then obtain c where c: "?r = Inr c" "2 \<le> ac_MaxConcurrent c" "1 \<le> ac_MaxResponseBytes c" by (cases ?r) auto
  have begins: "load_step c rs (rs @ [fresh_output c])" if "length rs \<le> 1" for rs
    using that c by (intro load_step.Begin [of c "demo_send (length rs)"]) (simp_all add: admit_request_def demo_send_def)
  let ?rs = "[fresh_output c, fresh_output c]"
  let ?rs' = "?rs[1 := write_part ''['' 1 (?rs ! 1)]"
  have "(load_step c)\<^sup>*\<^sup>* [] ?rs"
    using begins [of "[]"] begins [of "[fresh_output c]"] by (auto intro: rtranclp.intros)
  moreover have "load_step c ?rs ?rs'" by (rule load_step.Write_part) simp
  ultimately have steps: "(load_step c)\<^sup>*\<^sup>* [] ?rs'" by (rule rtranclp.rtrancl_into_rtrancl)
  have "map os_data ?rs' = [[], ''['']" using c(3) by (simp add: fresh_output_def write_part_def)
  with api_budget [OF c(1) steps] c(1) steps show ?thesis by (intro exI [of _ c] exI [of _ ?rs']) simp
qed

section \<open>The transfer\<close>

text \<open>
  \<^verbatim>\<open>contextReader.Read\<close>: the file is read only while the context of the request has not ended.
  \<open>n\<close> is how much the read returns, nothing at the end of the file.
\<close>

definition contextReader_Read :: "bool \<Rightarrow> nat \<Rightarrow> bytes \<Rightarrow> read_error + (bytes \<times> bytes)" where
  "contextReader_Read ended n file = (if ended then Inl Visit_error else Inr (take n file, drop n file))"

text \<open>
  \<^verbatim>\<open>io.CopyBuffer\<close>: for each read, whether the context has ended, how much is read (at least a
  byte) and how much of it the client takes. The result is what the client got and whether the
  copy ended without error.
\<close>

record copy_in =
  cp_ended :: bool
  cp_size :: nat
  cp_taken :: nat

fun copy_body :: "copy_in list \<Rightarrow> bytes \<Rightarrow> bytes \<times> bool" where
  "copy_body [] file = ([], False)"
| "copy_body (x # xs) file = (case contextReader_Read (cp_ended x) (Suc (cp_size x)) file of
     Inl err \<Rightarrow> ([], False)
   | Inr (b, rest) \<Rightarrow>
       if b = [] then ([], True)
       else if cp_taken x < length b then (take (cp_taken x) b, False)
       else (case copy_body xs rest of (got, ok) \<Rightarrow> (b @ got, ok)))"

definition copied_of :: "bytes \<times> bool \<Rightarrow> nat option" where
  "copied_of r = (if snd r then None else Some (length (fst r)))"

lemma take_of_append: "g = take (length g) ys \<Longrightarrow> xs @ g = take (length (xs @ g)) (xs @ ys)"
  by simp

lemma copy_body_prefix:
  "copy_body xs f = (got, ok) \<Longrightarrow> got = take (length got) f \<and> (ok \<longrightarrow> got = f)"
proof (induction xs arbitrary: f got ok)
  case (Cons x xs)
  let ?b = "take (Suc (cp_size x)) f" and ?rest = "drop (Suc (cp_size x)) f"
  show ?case
  proof (cases "cp_ended x \<or> ?b = [] \<or> cp_taken x < length ?b")
    case True
    with Cons.prems show ?thesis by (auto simp: contextReader_Read_def split: if_splits)
  next
    case False
    obtain got1 ok1 where rec: "copy_body xs ?rest = (got1, ok1)" by fastforce
    with False Cons.prems have got: "got = ?b @ got1" "ok = ok1" by (auto simp: contextReader_Read_def)
    from Cons.IH [OF rec] have 1: "got1 = take (length got1) ?rest" "ok1 \<longrightarrow> got1 = ?rest" by blast+
    have "got = take (length got) (?b @ ?rest)" using take_of_append [OF 1(1)] got(1) by metis
    then show ?thesis using got 1 by (simp only: append_take_drop_id) simp
  qed
qed simp

text \<open>
  However the transfer goes, the client gets the prepared body or, with the connection aborted, a
  prefix of it.
\<close>

lemma sendArray_transfer:
  assumes "prepare I c visit = Inr body" and "copy_body xs body = (got, ok)"
    and "admit_request c I" and "si_seek_ok I" and "si_copied I = copied_of (got, ok)"
  shows "sendArray I c visit = (if ok then Reply_array body else Reply_aborted got)
    \<and> got = take (length got) body"
  using assms copy_body_prefix [OF assms(2)] by (auto simp: sendArray_def admit_request_def copied_of_def)

end
