(* ===== verification/Runner.thy ===== *)
theory Runner
  imports Text
begin

text \<open>
  What the console's cleaner is written in: white space of package \<^verbatim>\<open>strings\<close>, sequences of
  external commands that stop at the first error, and the record of the commands they issue.
  How commands answer is a parameter; \<open>wp\<close> is the calculus in which properties of the commands
  issued are proved, for every way they can be answered.
\<close>

section \<open>White space\<close>

text \<open>
  The UTF-8 encodings of the runes \<^verbatim>\<open>unicode.IsSpace\<close> accepts. Each starts with a byte that occurs
  in no encoding except at the start, so looking for them byte by byte finds exactly the white
  space of the text, also when parts of it are not valid UTF-8.
\<close>

definition space_codes :: "string list" where
  "space_codes = map (\<lambda>n. [char_of (n::nat)]) [9, 10, 11, 12, 13, 32]
     @ map (map char_of) [[0xC2, 0x85], [0xC2, 0xA0], [0xE1, 0x9A, 0x80::nat]]
     @ map (\<lambda>n. map char_of [0xE2, 0x80, n]) ([0x80..<0x8B] @ [0xA8, 0xA9, 0xAF])
     @ map (map char_of) [[0xE2, 0x81, 0x9F], [0xE3, 0x80, 0x80::nat]]"

text \<open>The length of the first of the given codes that the string starts with, 0 if there is none.\<close>

definition code_length :: "string list \<Rightarrow> string \<Rightarrow> nat" where
  "code_length codes s = (case find (\<lambda>p. take (length p) s = p) codes of
     None \<Rightarrow> 0 | Some p \<Rightarrow> length p)"

fun trim_codes :: "string list \<Rightarrow> nat \<Rightarrow> string \<Rightarrow> string" where
  "trim_codes codes n [] = []"
| "trim_codes codes (Suc n) (c # cs) = trim_codes codes n cs"
| "trim_codes codes 0 (c # cs) = (case code_length codes (c # cs) of
     0 \<Rightarrow> c # cs | Suc n \<Rightarrow> trim_codes codes n cs)"

definition TrimSpace :: "string \<Rightarrow> string" where
  "TrimSpace s = rev (trim_codes (map rev space_codes) 0 (rev (trim_codes space_codes 0 s)))"

definition emit_word :: "string \<Rightarrow> string list" where
  "emit_word cur = (if cur = [] then [] else [cur])"

fun fields_from :: "nat \<Rightarrow> string \<Rightarrow> string \<Rightarrow> string list" where
  "fields_from n cur [] = emit_word cur"
| "fields_from (Suc n) cur (c # cs) = fields_from n cur cs"
| "fields_from 0 cur (c # cs) = (case code_length space_codes (c # cs) of
     0 \<Rightarrow> fields_from 0 (cur @ [c]) cs
   | Suc n \<Rightarrow> emit_word cur @ fields_from n [] cs)"

definition Fields :: "string \<Rightarrow> string list" where
  "Fields s = fields_from 0 [] s"

lemma fields_from_nonempty: "w \<in> set (fields_from n cur s) \<Longrightarrow> w \<noteq> []"
  by (induction n cur s rule: fields_from.induct)
    (auto simp: emit_word_def split: if_splits nat.splits)

lemma Fields_nonempty: "w \<in> set (Fields s) \<Longrightarrow> w \<noteq> []"
  by (simp add: Fields_def fields_from_nonempty)

section \<open>Commands\<close>

text \<open>
  The context a command runs under: that of the action, or the one with its own time limit under
  which a probe is removed even when the action has been canceled.
\<close>

datatype run_context = Action_context | Cleanup_context

text \<open>
  What \<open>w\<close>, everything outside, does: run a command, giving its output and whether it failed;
  show a line in the log; write a document to a new temporary file; remove a file; draw random bytes.
\<close>

datatype temp_result = No_temp | Temp_failed string | Temp_written string

record ('d, 'w) runner =
  rn_call :: "run_context \<Rightarrow> string \<Rightarrow> string list \<Rightarrow> 'w \<Rightarrow> (string \<times> bool) \<times> 'w"
  rn_log :: "string \<Rightarrow> 'w \<Rightarrow> 'w"
  rn_temp :: "'d \<Rightarrow> 'w \<Rightarrow> temp_result \<times> 'w"
  rn_remove :: "string \<Rightarrow> 'w \<Rightarrow> 'w"
  rn_random :: "nat \<Rightarrow> 'w \<Rightarrow> bytes option \<times> 'w"

type_synonym ('w, 'e, 'a) act = "'w \<Rightarrow> ('e + 'a) \<times> 'w"

definition ret :: "'a \<Rightarrow> ('w, 'e, 'a) act" where
  "ret a w = (Inr a, w)"

definition throw :: "'e \<Rightarrow> ('w, 'e, 'a) act" where
  "throw e w = (Inl e, w)"

text \<open>\<^verbatim>\<open>if err != nil { return err }\<close> after a command, followed by the rest of the function.\<close>

definition bindA :: "('w, 'e, 'a) act \<Rightarrow> ('a \<Rightarrow> ('w, 'e, 'b) act) \<Rightarrow> ('w, 'e, 'b) act" where
  "bindA m f w = (case m w of (Inl e, w') \<Rightarrow> (Inl e, w') | (Inr a, w') \<Rightarrow> f a w')"

text \<open>A check of a value, which runs no command.\<close>

definition checkA :: "'e + 'a \<Rightarrow> ('w, 'e, 'a) act" where
  "checkA x w = (x, w)"

text \<open>A result that is itself inspected by the caller, error or not.\<close>

definition attempt :: "('w, 'e, 'a) act \<Rightarrow> ('w, 'e, 'e + 'a) act" where
  "attempt m w = (case m w of (r, w') \<Rightarrow> (Inr r, w'))"

definition logA :: "('d, 'w) runner \<Rightarrow> string \<Rightarrow> ('w, 'e, unit) act" where
  "logA P line w = (Inr (), rn_log P line w)"

definition callA :: "('d, 'w) runner \<Rightarrow> 'e \<Rightarrow> run_context \<Rightarrow> string \<Rightarrow> string list \<Rightarrow> ('w, 'e, string) act" where
  "callA P e x cmd args w = (case rn_call P x cmd args w of
     ((out, bad), w') \<Rightarrow> (if bad then Inl e else Inr out, w'))"

text \<open>The output of a command that may have failed.\<close>

definition outputA :: "('d, 'w) runner \<Rightarrow> run_context \<Rightarrow> string \<Rightarrow> string list \<Rightarrow> ('w, 'e, string) act" where
  "outputA P x cmd args w = (case rn_call P x cmd args w of ((out, bad), w') \<Rightarrow> (Inr out, w'))"

definition tempA :: "('d, 'w) runner \<Rightarrow> 'd \<Rightarrow> ('w, 'e, temp_result) act" where
  "tempA P d w = (case rn_temp P d w of (r, w') \<Rightarrow> (Inr r, w'))"

definition removeA :: "('d, 'w) runner \<Rightarrow> string \<Rightarrow> ('w, 'e, unit) act" where
  "removeA P name w = (Inr (), rn_remove P name w)"

definition randomA :: "('d, 'w) runner \<Rightarrow> 'e \<Rightarrow> nat \<Rightarrow> ('w, 'e, bytes) act" where
  "randomA P e n w = (case rn_random P n w of
     (None, w') \<Rightarrow> (Inl e, w') | (Some b, w') \<Rightarrow> (Inr b, w'))"

text \<open>
  \<^verbatim>\<open>defer\<close>: the last part runs whatever the first one returned. Its own error replaces the result,
  as \<open>fail\<close> says.
\<close>

definition deferA :: "('w, 'e, 'a) act \<Rightarrow> ('w, 'e, unit) act \<Rightarrow> 'e \<Rightarrow> ('w, 'e, 'a) act" where
  "deferA m final fail w = (case m w of (r, w1) \<Rightarrow>
     (case final w1 of (Inl _, w2) \<Rightarrow> (Inl fail, w2) | (Inr _, w2) \<Rightarrow> (r, w2)))"

section \<open>What a sequence of commands keeps\<close>

text \<open>\<open>stays R m\<close>: what \<open>m\<close> leaves is related to what it found.\<close>

definition stays :: "('w \<Rightarrow> 'w \<Rightarrow> bool) \<Rightarrow> ('w, 'e, 'a) act \<Rightarrow> bool" where
  "stays R m \<longleftrightarrow> (\<forall>w. R w (snd (m w)))"

lemma staysD: "stays R m \<Longrightarrow> m w = (r, w') \<Longrightarrow> R w w'"
  unfolding stays_def by (metis snd_conv)

text \<open>The contract between a sequence of commands and what runs them.\<close>

locale steady_runner =
  fixes P :: "('d, 'w) runner" and R :: "'w \<Rightarrow> 'w \<Rightarrow> bool"
  assumes refl: "R w w"
    and trans: "R u v \<Longrightarrow> R v w \<Longrightarrow> R u w"
    and call: "R w (snd (rn_call P x cmd args w))"
    and log: "R w (rn_log P line w)"
    and temp: "R w (snd (rn_temp P d w))"
    and remove: "R w (rn_remove P name w)"
    and random: "R w (snd (rn_random P n w))"
begin

lemma stays_basic [intro!]:
  "stays R (ret a)" "stays R (throw e)" "stays R (checkA x)"
  "stays R (logA P line)" "stays R (callA P e2 x2 cmd args)" "stays R (outputA P x2 cmd args)"
  "stays R (tempA P d)" "stays R (removeA P name)" "stays R (randomA P e3 n)"
  using refl log call temp remove random
  by (simp_all add: stays_def ret_def throw_def checkA_def logA_def callA_def outputA_def tempA_def removeA_def
    randomA_def split_beta split: option.split)

lemma stays_bind [intro!]:
  assumes "stays R m" and "\<And>a. stays R (f a)"
  shows "stays R (bindA m f)"
  unfolding stays_def
proof
  fix w
  obtain r w1 where m: "m w = (r, w1)" by fastforce
  show "R w (snd (bindA m f w))"
  proof (cases r)
    case (Inr a)
    have "R w1 (snd (f a w1))" using assms(2) by (simp add: stays_def)
    with staysD [OF assms(1) m] show ?thesis using m Inr by (auto simp: bindA_def intro: trans)
  qed (use staysD [OF assms(1) m] m in \<open>simp add: bindA_def\<close>)
qed

lemma stays_defer [intro!]:
  assumes "stays R m" and "stays R final"
  shows "stays R (deferA m final e)"
  unfolding stays_def deferA_def
  by (auto split: prod.split sum.split intro: trans dest: staysD [OF assms(1)] staysD [OF assms(2)])

lemma stays_attempt [intro!]: "stays R m \<Longrightarrow> stays R (attempt m)"
  by (simp add: stays_def attempt_def split_beta)

end

section \<open>Traces\<close>

text \<open>
  A runner that also keeps the commands it was given, each with its answer, oldest first. What
  is proved about the trace of a sequence of commands holds for every way commands can answer.
\<close>

record command =
  cm_context :: run_context
  cm_name :: string
  cm_args :: "string list"
  cm_output :: string
  cm_failed :: bool

definition traced :: "('d, 'w) runner \<Rightarrow> ('d, command list \<times> 'w) runner" where
  "traced P = \<lparr>
     rn_call = (\<lambda>x cmd args (tr, w). case rn_call P x cmd args w of
        ((out, bad), w') \<Rightarrow> ((out, bad), (tr @ [\<lparr>cm_context = x, cm_name = cmd, cm_args = args,
           cm_output = out, cm_failed = bad\<rparr>], w'))),
     rn_log = (\<lambda>line (tr, w). (tr, rn_log P line w)),
     rn_temp = (\<lambda>d (tr, w). case rn_temp P d w of (r, w') \<Rightarrow> (r, (tr, w'))),
     rn_remove = (\<lambda>name (tr, w). (tr, rn_remove P name w)),
     rn_random = (\<lambda>n (tr, w). case rn_random P n w of (r, w') \<Rightarrow> (r, (tr, w')))\<rparr>"

text \<open>
  \<open>wp m C tr\<close>: after the commands \<open>tr\<close>, however the next ones are answered, \<open>m\<close> returns a result
  and leaves a trace that satisfy \<open>C\<close>.
\<close>

definition wp :: "(command list \<times> 'w, 'e, 'a) act \<Rightarrow> ('e + 'a \<Rightarrow> command list \<Rightarrow> bool) \<Rightarrow> command list \<Rightarrow> bool" where
  "wp m C tr \<longleftrightarrow> (\<forall>w. C (fst (m (tr, w))) (fst (snd (m (tr, w)))))"

lemma wpD: "wp m C tr \<Longrightarrow> m (tr, w) = (r, tr', w') \<Longrightarrow> C r tr'"
  unfolding wp_def by (metis fst_conv snd_conv)

lemma wp_mono: "wp m C tr \<Longrightarrow> (\<And>r tr'. C r tr' \<Longrightarrow> C' r tr') \<Longrightarrow> wp m C' tr"
  by (simp add: wp_def)

lemma wp_ret [simp]: "wp (ret a) C tr = C (Inr a) tr"
  by (simp add: wp_def ret_def)

lemma wp_throw [simp]: "wp (throw e) C tr = C (Inl e) tr"
  by (simp add: wp_def throw_def)

lemma wp_check [simp]: "wp (checkA x) C tr = C x tr"
  by (simp add: wp_def checkA_def)

lemma wp_silent [simp]:
  "wp (logA (traced P) line) C tr = C (Inr ()) tr"
  "wp (removeA (traced P) name) C tr = C (Inr ()) tr"
  by (simp_all add: wp_def logA_def removeA_def traced_def)

lemma wp_attempt [simp]: "wp (attempt m) C tr = wp m (\<lambda>r. C (Inr r)) tr"
  by (simp add: wp_def attempt_def split_beta)

lemma wp_temp: "(\<And>r. C (Inr r) tr) \<Longrightarrow> wp (tempA (traced P) d) C tr"
  by (simp add: wp_def tempA_def traced_def split_beta)

lemma wp_random: "C (Inl e) tr \<Longrightarrow> (\<And>b. C (Inr b) tr) \<Longrightarrow> wp (randomA (traced P) e n) C tr"
  by (auto simp: wp_def randomA_def traced_def split_beta split: option.split)

lemma wp_bind:
  assumes "wp m (\<lambda>r tr'. case r of Inl e \<Rightarrow> C (Inl e) tr' | Inr a \<Rightarrow> wp (f a) C tr') tr"
  shows "wp (bindA m f) C tr"
  unfolding wp_def
proof
  fix w
  obtain r tr' w' where m: "m (tr, w) = (r, tr', w')" by (metis prod_cases3)
  from wpD [OF assms m] m show "C (fst (bindA m f (tr, w))) (fst (snd (bindA m f (tr, w))))"
    by (cases r) (simp_all add: bindA_def wp_def)
qed

lemma wp_bind_log: "wp (f ()) C tr \<Longrightarrow> wp (bindA (logA (traced P) line) f) C tr"
  by (rule wp_bind) simp

lemma wp_defer:
  assumes "wp m (\<lambda>r. wp final (\<lambda>r'. C (case r' of Inl _ \<Rightarrow> Inl fail | Inr _ \<Rightarrow> r))) tr"
  shows "wp (deferA m final fail) C tr"
  unfolding wp_def
proof
  fix w
  obtain r tr' w' where m: "m (tr, w) = (r, tr', w')" by (metis prod_cases3)
  obtain r' tr2 w2 where f: "final (tr', w') = (r', tr2, w2)" by (metis prod_cases3)
  from wpD [OF wpD [OF assms m] f] m f
  show "C (fst (deferA m final fail (tr, w))) (fst (snd (deferA m final fail (tr, w))))"
    by (cases r') (simp_all add: deferA_def)
qed

lemma wp_defer_remove: "wp m C tr \<Longrightarrow> wp (deferA m (removeA (traced P) name) fail) C tr"
  by (rule wp_defer, erule wp_mono) simp

lemma wp_conj: "wp m C tr \<Longrightarrow> wp m D tr \<Longrightarrow> wp m (\<lambda>r t. C r t \<and> D r t) tr"
  by (simp add: wp_def)

abbreviation answer :: "run_context \<Rightarrow> string \<Rightarrow> string list \<Rightarrow> string \<Rightarrow> bool \<Rightarrow> command" where
  "answer x cmd args out bad \<equiv> \<lparr>cm_context = x, cm_name = cmd, cm_args = args, cm_output = out, cm_failed = bad\<rparr>"

lemma wp_call:
  assumes "\<And>out. C (Inl e) (tr @ [answer x cmd args out True])"
    and "\<And>out. C (Inr out) (tr @ [answer x cmd args out False])"
  shows "wp (callA (traced P) e x cmd args) C tr"
  unfolding wp_def
proof
  fix w
  obtain out bad w' where "rn_call P x cmd args w = ((out, bad), w')" by (metis surj_pair)
  with assms show "C (fst (callA (traced P) e x cmd args (tr, w))) (fst (snd (callA (traced P) e x cmd args (tr, w))))"
    by (cases bad) (simp_all add: callA_def traced_def)
qed

lemma wp_output:
  assumes "\<And>out bad. C (Inr out) (tr @ [answer x cmd args out bad])"
  shows "wp (outputA (traced P) x cmd args) C tr"
  unfolding wp_def
proof
  fix w
  obtain out bad w' where "rn_call P x cmd args w = ((out, bad), w')" by (metis surj_pair)
  with assms show "C (fst (outputA (traced P) x cmd args (tr, w))) (fst (snd (outputA (traced P) x cmd args (tr, w))))"
    by (simp add: outputA_def traced_def)
qed

lemmas wp_steps = wp_bind wp_defer wp_call wp_output wp_temp wp_random

section \<open>What a sequence of commands issues\<close>

text \<open>\<open>adds S m\<close>: \<open>m\<close> only appends to the trace, and only commands in \<open>S\<close>.\<close>

definition adds :: "(command \<Rightarrow> bool) \<Rightarrow> (command list \<times> 'w, 'e, 'a) act \<Rightarrow> bool" where
  "adds S m \<longleftrightarrow> (\<forall>tr. wp m (\<lambda>r tr'. \<exists>new. tr' = tr @ new \<and> (\<forall>c \<in> set new. S c)) tr)"

lemma addsD: "adds S m \<Longrightarrow> wp m (\<lambda>r tr'. \<exists>new. tr' = tr @ new \<and> (\<forall>c \<in> set new. S c)) tr"
  by (simp add: adds_def)

lemma adds_mono: "adds S m \<Longrightarrow> (\<And>c. S c \<Longrightarrow> S' c) \<Longrightarrow> adds S' m"
  unfolding adds_def by (blast intro: wp_mono)

lemma adds_none: "(\<And>tr. wp m (\<lambda>r tr'. tr' = tr) tr) \<Longrightarrow> adds S m"
  unfolding adds_def by (rule allI) (rule wp_mono, assumption, rule exI [of _ "[]"], simp)

lemma adds_pure [intro!]:
  "adds S (ret a)" "adds S (throw e)" "adds S (checkA x)" "adds S (logA (traced P) line)"
  "adds S (removeA (traced P) name)" "adds S (tempA (traced P) d)" "adds S (randomA (traced P) e n)"
  by (simp_all add: adds_def wp_temp wp_random)

lemma adds_attempt [intro!]: "adds S m \<Longrightarrow> adds S (attempt m)"
  by (simp add: adds_def)

lemma adds_bind [intro!]:
  assumes "adds S m" and "\<And>a. adds S (f a)"
  shows "adds S (bindA m f)"
  unfolding adds_def
proof (rule allI, rule wp_bind, rule wp_mono [OF addsD [OF assms(1)]])
  fix tr r tr'
  assume "\<exists>new. tr' = tr @ new \<and> (\<forall>c \<in> set new. S c)"
  then obtain new where new: "tr' = tr @ new" "\<forall>c \<in> set new. S c" by blast
  show "case r of Inl e \<Rightarrow> \<exists>new. tr' = tr @ new \<and> (\<forall>c \<in> set new. S c)
      | Inr a \<Rightarrow> wp (f a) (\<lambda>r tr'. \<exists>new. tr' = tr @ new \<and> (\<forall>c \<in> set new. S c)) tr'"
  proof (cases r)
    case (Inr a)
    show ?thesis
      unfolding Inr sum.case by (rule wp_mono [OF addsD [OF assms(2)]]) (use new in auto)
  qed (use new in auto)
qed

lemma adds_defer [intro!]:
  assumes "adds S m" and "adds S final"
  shows "adds S (deferA m final fail)"
  unfolding adds_def
proof (rule allI, rule wp_defer, rule wp_mono [OF addsD [OF assms(1)]])
  fix tr r tr'
  assume "\<exists>new. tr' = tr @ new \<and> (\<forall>c \<in> set new. S c)"
  then obtain new where new: "tr' = tr @ new" "\<forall>c \<in> set new. S c" by blast
  show "wp final (\<lambda>r' tr2. \<exists>new. tr2 = tr @ new \<and> (\<forall>c \<in> set new. S c)) tr'"
    by (rule wp_mono [OF addsD [OF assms(2)]]) (use new in auto)
qed

lemma adds_call [intro!]:
  "(\<And>out bad. S (answer x cmd args out bad)) \<Longrightarrow> adds S (callA (traced P) e x cmd args)"
  unfolding adds_def by (rule allI, rule wp_call) auto

lemma adds_output [intro!]:
  "(\<And>out bad. S (answer x cmd args out bad)) \<Longrightarrow> adds S (outputA (traced P) x cmd args)"
  unfolding adds_def by (rule allI, rule wp_output) auto

text \<open>\<open>guarded G tr\<close>: every command of the trace stands in the relation \<open>G\<close> to the trace before it.\<close>

definition guarded :: "(command list \<Rightarrow> command \<Rightarrow> bool) \<Rightarrow> command list \<Rightarrow> bool" where
  "guarded G tr \<longleftrightarrow> (\<forall>a c b. tr = a @ c # b \<longrightarrow> G a c)"

lemma guarded_Nil [simp]: "guarded G []"
  by (simp add: guarded_def)

lemma guarded_snoc [simp]: "guarded G (tr @ [c]) \<longleftrightarrow> guarded G tr \<and> G tr c"
proof
  assume *: "guarded G (tr @ [c])"
  then have "G a d" if "tr = a @ d # b" for a d b
    using that unfolding guarded_def by (metis append.assoc append_Cons)
  with * show "guarded G tr \<and> G tr c" by (auto simp: guarded_def)
next
  assume *: "guarded G tr \<and> G tr c"
  have "G a d" if "tr @ [c] = a @ d # b" for a d b
    using that * by (cases b rule: rev_cases) (auto simp: guarded_def)
  then show "guarded G (tr @ [c])" by (auto simp: guarded_def)
qed

text \<open>Facts about the trace that later commands cannot undo.\<close>

definition kept :: "(command list \<Rightarrow> bool) \<Rightarrow> bool" where
  "kept K \<longleftrightarrow> (\<forall>tr new. K tr \<longrightarrow> K (tr @ new))"

lemma keptD: "kept K \<Longrightarrow> K tr \<Longrightarrow> K (tr @ new)"
  by (simp add: kept_def)

lemma guarded_append:
  assumes "guarded G tr" and "\<And>a c b. new = a @ c # b \<Longrightarrow> G (tr @ a) c"
  shows "guarded G (tr @ new)"
  using assms(2)
proof (induction new rule: rev_induct)
  case Nil
  then show ?case using assms(1) by simp
next
  case (snoc c new)
  have "G (tr @ a) d" if "new = a @ d # b" for a d b
    by (rule snoc.prems [of a d "b @ [c]"]) (simp add: that)
  moreover have "G (tr @ new) c" by (rule snoc.prems [of new c "[]"]) simp
  ultimately show ?case
    using snoc.IH by (simp flip: append_assoc)
qed

text \<open>A command with its answer stands in the trace.\<close>

definition got :: "command list \<Rightarrow> string \<Rightarrow> string list \<Rightarrow> (string \<Rightarrow> bool) \<Rightarrow> bool" where
  "got tr cmd args Q \<longleftrightarrow> (\<exists>c \<in> set tr. cm_name c = cmd \<and> cm_args c = args \<and> \<not> cm_failed c \<and> Q (cm_output c))"

lemma got_append [simp]: "got (tr @ new) cmd args Q \<longleftrightarrow> got tr cmd args Q \<or> got new cmd args Q"
  by (auto simp: got_def)

lemma got_Cons [simp]:
  "got (c # tr) cmd args Q \<longleftrightarrow>
     cm_name c = cmd \<and> cm_args c = args \<and> \<not> cm_failed c \<and> Q (cm_output c) \<or> got tr cmd args Q"
  by (auto simp: got_def)

lemma got_Nil [simp]: "\<not> got [] cmd args Q"
  by (simp add: got_def)

end
