(* ===== verification/Logging.thy ===== *)
theory Logging
  imports Config Text
begin

text \<open>
  internal/observability: the logger of every program, of which only the parsing of the level can
  fail. The configuration does not check the level, so each program stops there when it is wrong.
\<close>

section \<open>Numbers\<close>

definition decimal_digit :: "char \<Rightarrow> bool" where
  "decimal_digit c \<longleftrightarrow> CHR ''0'' \<le> c \<and> c \<le> CHR ''9''"

text \<open>\<^verbatim>\<open>strconv.Atoi\<close>: a sign or none, digits, in the range of a 64-bit integer.\<close>

definition Atoi :: "string \<Rightarrow> int option" where
  "Atoi s =
     (let signed = s \<noteq> [] \<and> (hd s = CHR ''+'' \<or> hd s = CHR ''-'');
          digits = (if signed then tl s else s);
          n = int (decimal_value digits);
          v = (if signed \<and> hd s = CHR ''-'' then - n else n) in
      if digits = [] \<or> \<not> list_all decimal_digit digits \<or> \<not> int64_range v then None else Some v)"

section \<open>Levels\<close>

text \<open>
  \<^verbatim>\<open>strings.ToUpper\<close>, as far as it can make one of the names of a level: besides the small letters
  of ASCII it maps the dotless i (two bytes in UTF-8) to an I.
\<close>

fun ToUpper :: "string \<Rightarrow> string" where
  "ToUpper [] = []"
| "ToUpper (c # cs) = (case cs of
     d # ds \<Rightarrow> if c = CHR 0xC4 \<and> d = CHR 0xB1 then CHR ''I'' # ToUpper ds else upper c # ToUpper cs
   | [] \<Rightarrow> [upper c])"

definition level_base :: "string \<Rightarrow> int option" where
  "level_base name = map_of [(''DEBUG'', - 4), (''INFO'', 0), (''WARN'', 4), (''ERROR'', 8)] (ToUpper name)"

definition sign_char :: "char \<Rightarrow> bool" where
  "sign_char c \<longleftrightarrow> c = CHR ''+'' \<or> c = CHR ''-''"

text \<open>\<^verbatim>\<open>slog.Level.UnmarshalText\<close>: a name, and behind the first sign an offset to it.\<close>

definition parse_level :: "string \<Rightarrow> int option" where
  "parse_level s =
     (let name = takeWhile (\<lambda>c. \<not> sign_char c) s; offset = dropWhile (\<lambda>c. \<not> sign_char c) s in
      case (if offset = [] then Some 0 else Atoi offset) of
        None \<Rightarrow> None
      | Some n \<Rightarrow> map_option (\<lambda>b. wrap64 (b + n)) (level_base name))"

text \<open>\<^verbatim>\<open>observability.New\<close>: the threshold of the logger.\<close>

definition New_logger :: "string \<Rightarrow> int option" where
  "New_logger level = parse_level level"

section \<open>Facts\<close>

lemma decimal_digit_digits: "list_all decimal_digit (decimal n)"
proof -
  have "decimal_digit c" if "c \<in> set (decimal n)" for c
    using decimal_digits [OF that] by (simp add: decimal_digit_def less_eq_char_def)
  then show ?thesis by (simp add: list_all_iff)
qed

lemma decimal_unsigned: "\<not> sign_char (hd (decimal n))"
proof -
  have "hd (decimal n) \<in> set (decimal n)" by simp
  from decimal_digits [OF this] show ?thesis by (auto simp: sign_char_def)
qed

text \<open>An integer as \<^verbatim>\<open>fmt\<close> prints it is read back.\<close>

lemma Atoi_decimal_int: "int64_range n \<Longrightarrow> Atoi (decimal_int n) = Some n"
  using decimal_digit_digits [of "nat n"] decimal_digit_digits [of "nat (- n)"] decimal_unsigned [of "nat n"]
  by (auto simp: Atoi_def decimal_int_def Let_def sign_char_def)

text \<open>The default level of every program is one.\<close>

lemma default_level: "New_logger ''info'' = Some 0"
  by code_simp

end
