(* ===== verification/Migrations.thy ===== *)
theory Migrations
  imports Prelude
begin

text \<open>
  migrations/migrations.go: one versioned SQL script, applied once and guarded by its checksum.
  The database is the table of applied versions and the scripts that took effect, in order.
\<close>

definition Version :: string where
  "Version = ''001_initial.sql''"

record schema =
  sm_versions :: "(string \<times> string) list option"
  sm_scripts :: "bytes list"

datatype migration_error = Step_failed | Checksum_mismatch

text \<open>
  The statements that may fail, in the order of the code: begin, advisory lock, creation of the
  version table, the embedded file, the query, the script, the insert. The commit fails with or
  without taking effect (\<open>Some True\<close>, \<open>Some False\<close>) or succeeds (\<open>None\<close>).
\<close>

record migration_in =
  mi_begin :: bool
  mi_lock :: bool
  mi_create :: bool
  mi_query :: bool
  mi_script :: bool
  mi_insert :: bool
  mi_commit :: "bool option"

definition commit_schema :: "migration_in \<Rightarrow> schema \<Rightarrow> schema \<Rightarrow> (migration_error + unit) \<times> schema" where
  "commit_schema i db db' = (case mi_commit i of
     None \<Rightarrow> (Inr (), db')
   | Some took_effect \<Rightarrow> (Inl Step_failed, if took_effect then db' else db))"

text \<open>\<open>sql\<close> is the embedded file, \<open>None\<close> when it cannot be read; \<open>sha\<close> is SHA-256 in hexadecimal.\<close>

definition Apply :: "(bytes \<Rightarrow> string) \<Rightarrow> bytes option \<Rightarrow> migration_in \<Rightarrow> schema \<Rightarrow> (migration_error + unit) \<times> schema" where
  "Apply sha sql i db =
     (if mi_begin i \<or> mi_lock i \<or> mi_create i then (Inl Step_failed, db)
      else let versions = (case sm_versions db of None \<Rightarrow> [] | Some vs \<Rightarrow> vs);
               created = db\<lparr>sm_versions := Some versions\<rparr> in
        case sql of
          None \<Rightarrow> (Inl Step_failed, db)
        | Some script \<Rightarrow>
            if mi_query i then (Inl Step_failed, db)
            else (case map_of versions Version of
                Some old \<Rightarrow>
                  if old \<noteq> sha script then (Inl Checksum_mismatch, db) else commit_schema i db created
              | None \<Rightarrow>
                  if mi_script i \<or> mi_insert i then (Inl Step_failed, db)
                  else commit_schema i db
                    (created\<lparr>sm_versions := Some (versions @ [(Version, sha script)]),
                             sm_scripts := sm_scripts db @ [script]\<rparr>)))"

text \<open>Any number of runners, which the advisory lock makes run one after the other.\<close>

definition apply_all :: "(bytes \<Rightarrow> string) \<Rightarrow> (bytes option \<times> migration_in) list \<Rightarrow> schema \<Rightarrow> schema" where
  "apply_all sha runs db = fold (\<lambda>(sql, i) db. snd (Apply sha sql i db)) runs db"

definition applied :: "schema \<Rightarrow> string option" where
  "applied db = (case sm_versions db of None \<Rightarrow> None | Some vs \<Rightarrow> map_of vs Version)"

text \<open>The version table is right: either nothing was run, or one script, with its checksum.\<close>

definition schema_ok :: "(bytes \<Rightarrow> string) \<Rightarrow> schema \<Rightarrow> bool" where
  "schema_ok sha db \<longleftrightarrow> (applied db = None \<and> sm_scripts db = [])
     \<or> (\<exists>script. applied db = Some (sha script) \<and> sm_scripts db = [script])"

lemma applied_append:
  "map_of vs Version = None \<Longrightarrow> map_of (vs @ [(Version, c)]) Version = Some c"
  by (simp add: map_add_def)

lemma Apply_cases:
  assumes "Apply sha sql i db = (res, db')"
  obtains (same) "applied db' = applied db" and "sm_scripts db' = sm_scripts db"
      and "res = Inr () \<longrightarrow> (\<exists>script. sql = Some script \<and> applied db = Some (sha script))"
  | (ran) script where "sql = Some script" and "applied db = None" and "applied db' = Some (sha script)"
      and "sm_scripts db' = sm_scripts db @ [script]"
proof -
  have keep: "applied (db\<lparr>sm_versions := Some (case sm_versions db of None \<Rightarrow> [] | Some vs \<Rightarrow> vs)\<rparr>) = applied db"
    by (simp add: applied_def split: option.split)
  show ?thesis
  proof (cases "\<exists>script. sql = Some script \<and> \<not> (mi_begin i \<or> mi_lock i \<or> mi_create i \<or> mi_query i)")
    case False
    with assms have "db' = db \<and> res \<noteq> Inr ()"
      by (cases sql) (auto simp: Apply_def Let_def split: if_splits)
    then show ?thesis using same by simp
  next
    case True
    then obtain script where sql: "sql = Some script" and go: "\<not> (mi_begin i \<or> mi_lock i \<or> mi_create i \<or> mi_query i)"
      by blast
    let ?vs = "case sm_versions db of None \<Rightarrow> [] | Some vs \<Rightarrow> vs"
    have app: "map_of ?vs Version = applied db" by (simp add: applied_def split: option.split)
    show ?thesis
    proof (cases "applied db")
      case (Some old)
      with assms same sql go app keep show ?thesis
        by (auto simp: Apply_def Let_def commit_schema_def split: if_splits option.splits)
    next
      case None
      then have "map_of (?vs @ [(Version, sha script)]) Version = Some (sha script)"
        using applied_append app by metis
      then have new: "applied (db\<lparr>sm_versions := Some (?vs @ [(Version, sha script)]), sm_scripts := x\<rparr>)
          = Some (sha script)" for x by (simp add: applied_def)
      show ?thesis
      proof (cases "db' = db \<and> res \<noteq> Inr ()")
        case True
        then show ?thesis using same by simp
      next
        case False
        with assms None sql go app have "db' = db\<lparr>sm_versions := Some (?vs @ [(Version, sha script)]),
            sm_scripts := sm_scripts db @ [script]\<rparr>"
          by (auto simp: Apply_def Let_def commit_schema_def split: if_splits option.splits)
        then show ?thesis using ran [OF sql None] new by simp
      qed
    qed
  qed
qed

lemma Apply_ok:
  assumes "schema_ok sha db" and "Apply sha sql i db = (res, db')"
  shows "schema_ok sha db'"
  by (rule Apply_cases [OF assms(2)]) (use assms(1) in \<open>auto simp: schema_ok_def\<close>)

lemma apply_all_ok: "schema_ok sha db \<Longrightarrow> schema_ok sha (apply_all sha runs db)"
  unfolding apply_all_def
proof (induction runs arbitrary: db)
  case (Cons x runs)
  then show ?case using Apply_ok [OF Cons.prems surjective_pairing] by (cases x) auto
qed simp

text \<open>
  C33: the migration takes effect at most once. After any number of runs on an empty database,
  of any versions of the script and with failures and uncertain commits at any point, at most
  one script has been run and the version table holds its checksum; a run that reports success
  leaves exactly its own script applied; and a run with a different script is refused and
  changes nothing.
\<close>

theorem migration_once:
  assumes "apply_all sha runs \<lparr>sm_versions = None, sm_scripts = []\<rparr> = db" and "Apply sha sql i db = (res, db')"
    and "inj sha"
  shows "length (sm_scripts db') \<le> 1
    \<and> (res = Inr () \<longrightarrow> (\<exists>script. sql = Some script \<and> sm_scripts db' = [script]))
    \<and> (\<forall>script old. sm_scripts db = [old] \<longrightarrow> sql = Some script \<longrightarrow> script \<noteq> old \<longrightarrow> res \<noteq> Inr () \<and> db' = db)"
proof -
  have ok: "schema_ok sha db"
    using apply_all_ok [of sha "\<lparr>sm_versions = None, sm_scripts = []\<rparr>" runs] assms(1)
    by (simp add: schema_ok_def applied_def)
  have "res \<noteq> Inr () \<and> db' = db" if "sm_scripts db = [old]" "sql = Some script" "script \<noteq> old" for script old
  proof -
    have "applied db = Some (sha old)" using ok that(1) by (auto simp: schema_ok_def)
    moreover have "sha old \<noteq> sha script" using assms(3) that(3) by (auto dest: injD)
    moreover have "map_of (case sm_versions db of None \<Rightarrow> [] | Some vs \<Rightarrow> vs) Version = applied db"
      by (simp add: applied_def split: option.split)
    ultimately show ?thesis using assms(2) that(2) by (auto simp: Apply_def Let_def split: if_splits)
  qed
  moreover have "schema_ok sha db'" by (rule Apply_ok [OF ok assms(2)])
  moreover have "\<exists>script. sql = Some script \<and> sm_scripts db' = [script]" if "res = Inr ()"
  proof (rule Apply_cases [OF assms(2)])
    assume same: "applied db' = applied db" "sm_scripts db' = sm_scripts db"
      "res = Inr () \<longrightarrow> (\<exists>script. sql = Some script \<and> applied db = Some (sha script))"
    then obtain script where "sql = Some script" "applied db = Some (sha script)" using \<open>res = Inr ()\<close> by blast
    with ok same(2) assms(3) show ?thesis by (auto simp: schema_ok_def dest: injD)
  next
    fix script
    assume "sql = Some script" "applied db = None" "sm_scripts db' = sm_scripts db @ [script]"
    with ok show ?thesis by (auto simp: schema_ok_def)
  qed
  ultimately show ?thesis by (auto simp: schema_ok_def)
qed

definition demo_migration :: migration_in where
  "demo_migration = \<lparr>mi_begin = False, mi_lock = False, mi_create = False, mi_query = False, mi_script = False,
     mi_insert = False, mi_commit = None\<rparr>"

theorem migration_once_witness:
  "\<exists>db'. Apply (\<lambda>s. s) (Some ''b'') demo_migration
     (apply_all (\<lambda>s. s) [(Some ''a'', demo_migration)] \<lparr>sm_versions = None, sm_scripts = []\<rparr>)
     = (Inl Checksum_mismatch, db') \<and> length (sm_scripts db') \<le> 1"
proof -
  let ?db = "apply_all (\<lambda>s. s) [(Some ''a'', demo_migration)] \<lparr>sm_versions = None, sm_scripts = []\<rparr>"
  have "Apply (\<lambda>s. s) (Some ''b'') demo_migration ?db = (Inl Checksum_mismatch, ?db)" by code_simp
  with migration_once [OF refl this] show ?thesis by (auto simp: inj_on_def)
qed

end
