(* ===== verification/Pool.thy ===== *)
theory Pool
  imports Storage Migrations
begin

text \<open>
  internal/storage/postgres: the pool of connections, and the check that the schema is the one the
  code was built with. Parsing of connection texts and the pool itself belong to the driver.
\<close>

section \<open>Opening\<close>

text \<open>A parsed configuration: the settings the code makes, and the rest of it as the driver has it.\<close>

record 'r pool_config =
  pc_MaxConns :: int
  pc_MinConns :: int
  pc_MinIdleConns :: int
  pc_ConnectTimeout :: int
  pc_RuntimeParams :: "string \<rightharpoonup> string"
  pc_rest :: 'r

datatype open_error = Pool_size | Pool_config | Pool_init

definition session_config :: "int \<Rightarrow> bool \<Rightarrow> 'r pool_config \<Rightarrow> 'r pool_config" where
  "session_config maximum readOnly cfg =
     (let params = (if readOnly then (pc_RuntimeParams cfg)(''default_transaction_read_only'' \<mapsto> ''on'')
                    else pc_RuntimeParams cfg) in
      cfg\<lparr>pc_MaxConns := maximum, pc_MinConns := 0, pc_MinIdleConns := 0,
        pc_ConnectTimeout := 3 * 1000000000,
        pc_RuntimeParams := params(''timezone'' \<mapsto> ''UTC'', ''application_name'' \<mapsto> ''gpu-telemetry'',
          ''statement_timeout'' \<mapsto> ''10000'', ''idle_in_transaction_session_timeout'' \<mapsto> ''15000'')\<rparr>)"

text \<open>\<open>parse\<close> is \<^verbatim>\<open>pgxpool.ParseConfig\<close>, \<open>start\<close> whether \<^verbatim>\<open>pgxpool.NewWithConfig\<close> succeeds.\<close>

definition open_pool :: "(string \<Rightarrow> 'r pool_config option) \<Rightarrow> ('r pool_config \<Rightarrow> bool) \<Rightarrow> string \<Rightarrow> int \<Rightarrow> bool \<Rightarrow>
    open_error + 'r pool_config" where
  "open_pool parse start url maximum readOnly =
     (if maximum < 1 \<or> maximum > 10 then Inl Pool_size
      else case parse url of
          None \<Rightarrow> Inl Pool_config
        | Some cfg \<Rightarrow>
            let cfg' = session_config maximum readOnly cfg in
            if start cfg' then Inr cfg' else Inl Pool_init)"

definition Pool_Open :: "(string \<Rightarrow> 'r pool_config option) \<Rightarrow> ('r pool_config \<Rightarrow> bool) \<Rightarrow> string \<Rightarrow> int \<Rightarrow>
    open_error + 'r pool_config" where
  "Pool_Open parse start url maximum = open_pool parse start url maximum False"

definition Pool_OpenReadOnly :: "(string \<Rightarrow> 'r pool_config option) \<Rightarrow> ('r pool_config \<Rightarrow> bool) \<Rightarrow> string \<Rightarrow> int \<Rightarrow>
    open_error + 'r pool_config" where
  "Pool_OpenReadOnly parse start url maximum = open_pool parse start url maximum True"

text \<open>The conversion \<^verbatim>\<open>int32\<close> of the configured size.\<close>

definition int32 :: "int \<Rightarrow> int" where
  "int32 n = sint (word_of_int n :: 32 word)"

lemma int32_id: "- (2 ^ 31) \<le> n \<Longrightarrow> n < 2 ^ 31 \<Longrightarrow> int32 n = n"
  by (simp add: int32_def sint_sbintrunc' signed_take_bit_int_eq_self)

text \<open>Every connection of a pool has the session settings; those of a reader refuse to write.\<close>

lemma open_pool_settings:
  assumes "open_pool parse start url n readOnly = Inr cfg"
  shows "1 \<le> pc_MaxConns cfg \<and> pc_MaxConns cfg \<le> 10 \<and> pc_MinConns cfg = 0
    \<and> pc_RuntimeParams cfg ''timezone'' = Some ''UTC''
    \<and> pc_RuntimeParams cfg ''statement_timeout'' = Some ''10000''
    \<and> (readOnly \<longrightarrow> pc_RuntimeParams cfg ''default_transaction_read_only'' = Some ''on'')"
  using assms by (auto simp: open_pool_def session_config_def Let_def split: if_splits option.splits)

section \<open>Readiness\<close>

datatype ready_error = Ready_failed | No_version

text \<open>
  \<^verbatim>\<open>Ready\<close> looks for the row of the migration; \<open>failed\<close>: the query fails. Without the table of
  versions it always fails.
\<close>

definition Ready :: "bool \<Rightarrow> schema \<Rightarrow> ready_error + unit" where
  "Ready failed db = (if failed then Inl Ready_failed
     else case sm_versions db of
         None \<Rightarrow> Inl Ready_failed
       | Some versions \<Rightarrow> if list_ex (\<lambda>(v, sum). v = Version) versions then Inr () else Inl No_version)"

lemma list_ex_map_of: "list_ex (\<lambda>(v, sum). v = k) xs \<longleftrightarrow> map_of xs k \<noteq> None"
  by (induction xs) auto

lemma Ready_applied: "Ready failed db = Inr () \<longleftrightarrow> \<not> failed \<and> applied db \<noteq> None"
  by (auto simp: Ready_def applied_def list_ex_map_of split: option.splits)

lemma Apply_applied:
  assumes "Apply sha sql i db = (res, db')"
  shows "(applied db \<noteq> None \<longrightarrow> applied db' \<noteq> None) \<and> (res = Inr () \<longrightarrow> applied db' \<noteq> None)"
  using assms by (cases rule: Apply_cases) auto

lemma apply_all_applied: "applied db \<noteq> None \<Longrightarrow> applied (apply_all sha runs db) \<noteq> None"
proof (induction runs arbitrary: db)
  case (Cons r runs)
  obtain sql i where r: "r = (sql, i)" by fastforce
  have "applied (snd (Apply sha sql i db)) \<noteq> None"
    using Apply_applied [OF surjective_pairing] Cons.prems by blast
  with Cons.IH r show ?case by (simp add: apply_all_def)
qed (simp add: apply_all_def)

end
