(* ===== verification/Csv.thy ===== *)
theory Csv
  imports Telemetry
begin

text \<open>
  internal/streamer/csv.go: the replaying CSV source. What \<^verbatim>\<open>encoding/csv\<close> reads from the file is
  a list of \<open>raw\<close> items, given at each rewind; parsing of times and numbers and the JSON encoding
  are arguments. The loop of \<^verbatim>\<open>Next\<close> is proved to end.
\<close>

section \<open>Data\<close>

definition headers :: "string list" where
  "headers = [''timestamp'', ''metric_name'', ''gpu_id'', ''device'', ''uuid'', ''modelName'', ''Hostname'',
     ''container'', ''pod'', ''namespace'', ''value'', ''labels_raw'']"

record row =
  rw_Measurement :: measurement
  rw_ReplayIndex :: u64
  rw_RowIndex :: u64

datatype row_reason = Bad_csv | Bad_timestamp | Bad_number | Bad_measurement validation_error | Row_too_large

text \<open>\<open>Source_done\<close> is the error of the context, \<open>Source_io\<close> any error of the file or of the header.\<close>

datatype source_error =
  InvalidRow u64 u64 row_reason
| ErrNoValidRecords
| Source_done
| Source_io

text \<open>One read of the file: the fields of a record, a syntax error, or a failing read.\<close>

datatype raw = Fields "string list" | Malformed | Read_failure

record csv_syntax =
  cx_time :: "string \<Rightarrow> gotime option"
  cx_float :: "string \<Rightarrow> f64 option"
  cx_json :: "measurement \<Rightarrow> bytes option"

record csv =
  cv_rest :: "raw list"
  cv_fields :: nat
  cv_columns :: "(string \<times> nat) list"
  cv_replay :: u64
  cv_row :: u64
  cv_valid :: u64

section \<open>Reading\<close>

datatype read_result = Got "string list" | Syntax_error | Other_error | Eof

text \<open>
  \<^verbatim>\<open>csv.Reader.Read\<close> with \<^verbatim>\<open>FieldsPerRecord\<close> 0: the first record fixes the number of fields, a
  record of another length is a \<^verbatim>\<open>ParseError\<close>.
\<close>

definition csv_read :: "csv \<Rightarrow> read_result \<times> csv" where
  "csv_read s = (case cv_rest s of
     [] \<Rightarrow> (Eof, s)
   | Malformed # rs \<Rightarrow> (Syntax_error, s\<lparr>cv_rest := rs\<rparr>)
   | Read_failure # rs \<Rightarrow> (Other_error, s\<lparr>cv_rest := rs\<rparr>)
   | Fields xs # rs \<Rightarrow>
       if cv_fields s = 0 then (Got xs, s\<lparr>cv_rest := rs, cv_fields := length xs\<rparr>)
       else if length xs \<noteq> cv_fields s then (Syntax_error, s\<lparr>cv_rest := rs\<rparr>)
       else (Got xs, s\<lparr>cv_rest := rs\<rparr>))"

text \<open>The columns of a header; at a repeated name those before it are left.\<close>

fun add_columns :: "nat \<Rightarrow> string list \<Rightarrow> (string \<times> nat) list \<Rightarrow>
    (string \<times> nat) list + (string \<times> nat) list" where
  "add_columns i [] cols = Inr cols"
| "add_columns i (name # names) cols =
     (if map_of cols name \<noteq> None then Inl cols else add_columns (i + 1) names ((name, i) # cols))"

text \<open>
  \<^verbatim>\<open>reset\<close>: \<open>file\<close> is what the file reads as from its start, \<open>None\<close> when \<^verbatim>\<open>Seek\<close> fails. The
  fields set before an error stay set.
\<close>

definition csv_reset :: "raw list option \<Rightarrow> csv \<Rightarrow> (source_error + unit) \<times> csv" where
  "csv_reset file s = (case file of
     None \<Rightarrow> (Inl Source_io, s)
   | Some items \<Rightarrow>
       (case csv_read (s\<lparr>cv_rest := items, cv_fields := 0\<rparr>) of
          (Got h, s1) \<Rightarrow>
            (case add_columns 0 h [] of
               Inl cols \<Rightarrow> (Inl Source_io, s1\<lparr>cv_columns := cols\<rparr>)
             | Inr cols \<Rightarrow>
                 (if list_ex (\<lambda>name. map_of cols name = None) headers then Inl Source_io else Inr (),
                  s1\<lparr>cv_columns := cols\<rparr>))
        | (_, s1) \<Rightarrow> (Inl Source_io, s1)))"

definition field :: "csv \<Rightarrow> string list \<Rightarrow> string \<Rightarrow> string" where
  "field s record name = record ! (the (map_of (cv_columns s) name))"

definition measurement_of :: "csv \<Rightarrow> string list \<Rightarrow> gotime \<Rightarrow> f64 \<Rightarrow> measurement" where
  "measurement_of s r ts v =
     \<lparr>m_SourceTimestamp = utc ts, m_GPUUUID = field s r ''uuid'', m_MetricName = field s r ''metric_name'',
      m_Value = v, m_LocalGPUID = field s r ''gpu_id'', m_Device = field s r ''device'',
      m_ModelName = field s r ''modelName'', m_Hostname = field s r ''Hostname'',
      m_Container = field s r ''container'', m_Pod = field s r ''pod'',
      m_Namespace = field s r ''namespace'', m_LabelsRaw = field s r ''labels_raw''\<rparr>"

text \<open>What a record becomes: a measurement within 60 KiB of JSON, or the reason it is refused.\<close>

definition parse_record :: "csv_syntax \<Rightarrow> csv \<Rightarrow> string list \<Rightarrow> row_reason + measurement" where
  "parse_record X s r =
     (case cx_time X (field s r ''timestamp'') of
        None \<Rightarrow> Inl Bad_timestamp
      | Some ts \<Rightarrow>
          (case cx_float X (field s r ''value'') of
             None \<Rightarrow> Inl Bad_number
           | Some v \<Rightarrow>
               (let m = measurement_of s r ts v in
                case Measurement_Validate m of
                  Inl e \<Rightarrow> Inl (Bad_measurement e)
                | Inr _ \<Rightarrow>
                    (case cx_json X m of
                       None \<Rightarrow> Inl Row_too_large
                     | Some b \<Rightarrow> if length b > 60 * 1024 then Inl Row_too_large else Inr m))))"

text \<open>The body of the loop of \<^verbatim>\<open>Next\<close> after a read that was not the end of the file.\<close>

definition next_record :: "csv_syntax \<Rightarrow> read_result \<Rightarrow> csv \<Rightarrow> (source_error + row) \<times> csv" where
  "next_record X r s0 =
     (let s = s0\<lparr>cv_row := cv_row s0 + 1\<rparr> in
      case r of
        Got xs \<Rightarrow>
          (case parse_record X s xs of
             Inl why \<Rightarrow> (Inl (InvalidRow (cv_replay s) (cv_row s) why), s)
           | Inr m \<Rightarrow> (Inr \<lparr>rw_Measurement = m, rw_ReplayIndex = cv_replay s, rw_RowIndex = cv_row s\<rparr>,
                       s\<lparr>cv_valid := cv_valid s + 1\<rparr>))
      | Syntax_error \<Rightarrow> (Inl (InvalidRow (cv_replay s) (cv_row s) Bad_csv), s)
      | _ \<Rightarrow> (Inl Source_io, s))"

lemma csv_read_valid: "csv_read s = (r, s1) \<Longrightarrow> cv_valid s1 = cv_valid s"
  by (auto simp: csv_read_def split: list.splits raw.splits if_splits)

lemma csv_reset_valid: "csv_reset file s = (r, s') \<Longrightarrow> cv_valid s' = cv_valid s"
  unfolding csv_reset_def
  by (auto split: option.splits prod.splits sum.splits read_result.splits dest!: csv_read_valid)

text \<open>
  The \<open>k\<close>-th iteration of one call meets the context and the file as \<open>ctx k\<close> and \<open>file k\<close> give them.
  A call rewinds the file at most once: the count of valid rows is zero after a rewind.
\<close>

function Next_loop :: "csv_syntax \<Rightarrow> (nat \<Rightarrow> bool) \<Rightarrow> (nat \<Rightarrow> raw list option) \<Rightarrow> nat \<Rightarrow> csv \<Rightarrow>
    (source_error + row) \<times> csv" where
  "Next_loop X ctx file k s =
     (if ctx k then (Inl Source_done, s)
      else case csv_read s of
          (Eof, s1) \<Rightarrow>
            if cv_valid s1 = 0 then (Inl ErrNoValidRecords, s1)
            else (case csv_reset (file k) (s1\<lparr>cv_replay := cv_replay s1 + 1, cv_row := 0, cv_valid := 0\<rparr>) of
                    (Inl e, s2) \<Rightarrow> (Inl e, s2)
                  | (Inr _, s2) \<Rightarrow> Next_loop X ctx file (k + 1) s2)
        | (r, s1) \<Rightarrow> next_record X r s1)"
  by pat_completeness auto

termination
  by (relation "measure (\<lambda>(X, ctx, file, k, s). if cv_valid s = 0 then 0 else 1)")
     (auto dest!: csv_read_valid [OF sym] csv_reset_valid [OF sym])

declare Next_loop.simps [simp del]

definition Next :: "csv_syntax \<Rightarrow> (nat \<Rightarrow> bool) \<Rightarrow> (nat \<Rightarrow> raw list option) \<Rightarrow> csv \<Rightarrow>
    (source_error + row) \<times> csv" where
  "Next X ctx file s = Next_loop X ctx file 0 s"

text \<open>
  \<^verbatim>\<open>OpenCSV\<close>: \<open>opened\<close> tells whether \<^verbatim>\<open>os.Open\<close> and \<^verbatim>\<open>Stat\<close> succeeded and, then, whether the file is
  regular, its size and what it reads as.
\<close>

definition OpenCSV :: "(bool \<times> int \<times> raw list option) option \<Rightarrow> source_error + csv" where
  "OpenCSV opened = (case opened of
     None \<Rightarrow> Inl Source_io
   | Some (regular, bytes, file) \<Rightarrow>
       if \<not> regular \<or> bytes > 64 * 2 ^ 20 then Inl Source_io
       else (case csv_reset file \<lparr>cv_rest = [], cv_fields = 0, cv_columns = [], cv_replay = 0,
                                  cv_row = 0, cv_valid = 0\<rparr> of
               (Inl e, _) \<Rightarrow> Inl e
             | (Inr _, s) \<Rightarrow> Inr s))"

section \<open>Facts\<close>

text \<open>Every column is within the records: indexing never leaves the record.\<close>

definition csv_wf :: "csv \<Rightarrow> bool" where
  "csv_wf s \<longleftrightarrow> (\<forall>name \<in> set headers. \<exists>i. map_of (cv_columns s) name = Some i)
     \<and> (\<forall>(name, i) \<in> set (cv_columns s). i < cv_fields s)"

lemma add_columns_bound:
  assumes "add_columns i names cols = Inr cols'" and "\<forall>(name, j) \<in> set cols. j < i"
  shows "\<forall>(name, j) \<in> set cols'. j < i + length names"
  using assms
proof (induction i names cols rule: add_columns.induct)
  case (2 i name names cols)
  from 2(2) have "add_columns (i + 1) names ((name, i) # cols) = Inr cols'" and "map_of cols name = None"
    by (auto split: if_splits)
  with 2(1,3) show ?case by fastforce
qed auto

lemma csv_reset_wf:
  assumes "csv_reset file s = (Inr u, s')"
  shows "csv_wf s'" and "cv_replay s' = cv_replay s" and "cv_row s' = cv_row s" and "cv_valid s' = cv_valid s"
    and "\<exists>items. file = Some items \<and> length (cv_rest s') < length items"
proof -
  obtain h rs cols where items: "file = Some (Fields h # rs)" and cols: "add_columns 0 h [] = Inr cols"
    and heads: "\<not> list_ex (\<lambda>name. map_of cols name = None) headers"
    and s': "s' = s\<lparr>cv_rest := rs, cv_fields := length h, cv_columns := cols\<rparr>"
    using assms unfolding csv_reset_def csv_read_def
    by (auto split: option.splits sum.splits list.splits raw.splits if_splits)
  show "csv_wf s'" using add_columns_bound [OF cols] heads by (auto simp: csv_wf_def s' list_ex_iff)
  show "cv_replay s' = cv_replay s" "cv_row s' = cv_row s" "cv_valid s' = cv_valid s" by (simp_all add: s')
  show "\<exists>items. file = Some items \<and> length (cv_rest s') < length items" by (simp add: s' items)
qed

lemma csv_read_cases:
  assumes "csv_read s = (r, s')"
  obtains (eof) "r = Eof" and "s' = s" and "cv_rest s = []"
  | (first) xs rs where "r = Got xs" and "cv_rest s = Fields xs # rs" and "cv_fields s = 0"
      and "s' = s\<lparr>cv_rest := rs, cv_fields := length xs\<rparr>"
  | (item) x rs where "r \<noteq> Eof" and "cv_rest s = x # rs" and "s' = s\<lparr>cv_rest := rs\<rparr>"
      and "\<And>xs. r = Got xs \<Longrightarrow> length xs = cv_fields s"
proof (cases "cv_rest s")
  case Nil
  with assms eof show ?thesis by (simp add: csv_read_def)
next
  case (Cons x rs)
  with assms first item show ?thesis by (cases x) (auto simp: csv_read_def split: if_splits)
qed

lemma csv_read_keeps:
  assumes "csv_read s = (r, s')"
  shows "cv_columns s' = cv_columns s" and "cv_replay s' = cv_replay s" and "cv_row s' = cv_row s"
    and "cv_valid s' = cv_valid s"
    and "r \<noteq> Eof \<Longrightarrow> length (cv_rest s) = Suc (length (cv_rest s'))"
    and "r = Eof \<Longrightarrow> s' = s"
    and "cv_fields s \<noteq> 0 \<Longrightarrow> cv_fields s' = cv_fields s"
  by (rule csv_read_cases [OF assms], simp_all)+

lemma csv_wf_fields: "csv_wf s \<Longrightarrow> cv_fields s \<noteq> 0"
  by (fastforce simp: csv_wf_def headers_def dest: map_of_SomeD)

lemma csv_wf_read: "csv_wf s \<Longrightarrow> csv_read s = (r, s') \<Longrightarrow> csv_wf s'"
  using csv_read_keeps(1,7) [of s r s'] csv_wf_fields [of s] by (simp add: csv_wf_def)

text \<open>The position of the source: replay and row, and the room left before a counter wraps.\<close>

definition csv_pos :: "csv \<Rightarrow> nat \<times> nat" where
  "csv_pos s = (unat (cv_replay s), unat (cv_row s))"

definition csv_room :: "(nat \<Rightarrow> raw list option) \<Rightarrow> csv \<Rightarrow> bool" where
  "csv_room file s \<longleftrightarrow> unat (cv_row s) + length (cv_rest s) < 2 ^ 64 \<and> unat (cv_replay s) + 1 < 2 ^ 64
     \<and> (\<forall>k items. file k = Some items \<longrightarrow> length items < 2 ^ 64)"

lemma unat_Suc_64:
  fixes w :: u64
  assumes "unat w + 1 < 2 ^ 64"
  shows "unat (w + 1) = unat w + 1"
  using assms by (simp add: unat_word_ariths)

definition later :: "nat \<times> nat \<Rightarrow> nat \<times> nat \<Rightarrow> bool" where
  "later p q \<longleftrightarrow> fst q < fst p \<or> fst q = fst p \<and> snd q < snd p"

text \<open>What \<open>Next\<close> promises about what it returns.\<close>

definition next_ok :: "csv_syntax \<Rightarrow> csv \<Rightarrow> source_error + row \<Rightarrow> csv \<Rightarrow> bool" where
  "next_ok X s r s' \<longleftrightarrow> (case r of
     Inr rw \<Rightarrow> (unat (rw_ReplayIndex rw), unat (rw_RowIndex rw)) = csv_pos s' \<and> later (csv_pos s') (csv_pos s)
       \<and> rw_RowIndex rw \<noteq> 0 \<and> Measurement_Validate (rw_Measurement rw) = Inr ()
       \<and> (\<exists>b. cx_json X (rw_Measurement rw) = Some b \<and> length b \<le> 60 * 1024) \<and> csv_wf s'
   | Inl (InvalidRow i j why) \<Rightarrow> (unat i, unat j) = csv_pos s' \<and> later (csv_pos s') (csv_pos s) \<and> csv_wf s'
   | Inl _ \<Rightarrow> True)"

lemma parse_record_ok:
  "parse_record X s r = Inr m \<Longrightarrow>
     Measurement_Validate m = Inr () \<and> (\<exists>b. cx_json X m = Some b \<and> length b \<le> 60 * 1024)"
  by (auto simp: parse_record_def Let_def split: option.splits sum.splits if_splits)

lemma next_record_ok:
  assumes wf: "csv_wf s" and room: "unat (cv_row s) + 1 < 2 ^ 64" and run: "next_record X r s = (res, s')"
  shows "next_ok X s res s'"
proof -
  have row: "unat (cv_row s + 1) = unat (cv_row s) + 1" by (rule unat_Suc_64 [OF room])
  then have "cv_row s + 1 \<noteq> 0" by (metis add_is_0 one_neq_zero unat_0)
  moreover have "csv_wf (s\<lparr>cv_row := n, cv_valid := v\<rparr>)" "csv_wf (s\<lparr>cv_row := n\<rparr>)" for n v
    using wf by (simp_all add: csv_wf_def)
  ultimately show ?thesis
    using run row parse_record_ok
    by (fastforce simp: next_record_def next_ok_def csv_pos_def later_def Let_def
        split: read_result.splits sum.splits)
qed

lemma Next_loop_done: "ctx k \<Longrightarrow> Next_loop X ctx file k s = (Inl Source_done, s)"
  by (subst Next_loop.simps) simp

lemma Next_loop_empty:
  "\<not> ctx k \<Longrightarrow> csv_read s = (Eof, s) \<Longrightarrow> cv_valid s = 0 \<Longrightarrow>
     Next_loop X ctx file k s = (Inl ErrNoValidRecords, s)"
  by (subst Next_loop.simps) simp

lemma Next_loop_rewind:
  "\<not> ctx k \<Longrightarrow> csv_read s = (Eof, s) \<Longrightarrow> cv_valid s \<noteq> 0 \<Longrightarrow>
     Next_loop X ctx file k s =
       (case csv_reset (file k) (s\<lparr>cv_replay := cv_replay s + 1, cv_row := 0, cv_valid := 0\<rparr>) of
          (Inl e, s2) \<Rightarrow> (Inl e, s2)
        | (Inr _, s2) \<Rightarrow> Next_loop X ctx file (k + 1) s2)"
  by (subst Next_loop.simps) simp

lemma Next_loop_got:
  "\<not> ctx k \<Longrightarrow> csv_read s = (r, s1) \<Longrightarrow> r \<noteq> Eof \<Longrightarrow> Next_loop X ctx file k s = next_record X r s1"
  by (subst Next_loop.simps) (simp split: read_result.split)

text \<open>One iteration that does not rewind.\<close>

lemma Next_loop_item:
  assumes wf: "csv_wf s" and room: "unat (cv_row s) + length (cv_rest s) < 2 ^ 64"
    and stay: "ctx k \<or> cv_rest s \<noteq> [] \<or> cv_valid s = 0"
    and run: "Next_loop X ctx file k s = (res, s')"
  shows "next_ok X s res s' \<and> (cv_rest s = [] \<longrightarrow> isl res)"
proof -
  obtain r s1 where read: "csv_read s = (r, s1)" by fastforce
  show ?thesis
  proof (cases "ctx k")
    case True
    with run show ?thesis by (auto simp: next_ok_def Next_loop_done)
  next
    case False
    show ?thesis
    proof (cases "r = Eof")
      case True
      then have "cv_rest s = []" and "s1 = s" by - (rule csv_read_cases [OF read], auto)+
      with run stay False read True show ?thesis by (auto simp: next_ok_def Next_loop_empty)
    next
      case got: False
      have rest: "length (cv_rest s) = Suc (length (cv_rest s1))" by (rule csv_read_keeps(5) [OF read got])
      have "next_record X r s1 = (res, s')"
        using run Next_loop_got [where ctx = ctx and k = k, OF False read got] by simp
      moreover have "unat (cv_row s1) + 1 < 2 ^ 64"
        using room rest csv_read_keeps(3) [OF read] by simp
      ultimately have "next_ok X s1 res s'" by (intro next_record_ok [OF csv_wf_read [OF wf read]])
      with rest show ?thesis
        using csv_read_keeps(2,3) [OF read]
        by (auto simp: next_ok_def csv_pos_def split: sum.splits source_error.splits)
    qed
  qed
qed

lemma later_rewound: "fst q < fst p \<Longrightarrow> later r p \<Longrightarrow> later r q"
  by (auto simp: later_def)

lemma Next_ok:
  assumes wf: "csv_wf s" and room: "csv_room file s" and run: "Next X ctx file s = (res, s')"
  shows "next_ok X s res s'"
proof (cases "ctx 0 \<or> cv_rest s \<noteq> [] \<or> cv_valid s = 0")
  case True
  with Next_loop_item [where ctx = ctx and k = 0, OF wf _ True] run room show ?thesis by (simp add: Next_def csv_room_def)
next
  case False
  let ?s1 = "s\<lparr>cv_replay := cv_replay s + 1, cv_row := 0, cv_valid := 0\<rparr>"
  have read: "csv_read s = (Eof, s)" using False by (simp add: csv_read_def)
  obtain r s2 where reset: "csv_reset (file 0) ?s1 = (r, s2)" by fastforce
  show ?thesis
  proof (cases r)
    case (Inl e)
    then have "e = Source_io" using reset by (auto simp: csv_reset_def split: option.splits prod.splits
        sum.splits read_result.splits if_splits)
    with run False reset Inl show ?thesis
      by (auto simp: Next_def Next_loop_rewind [OF _ read] next_ok_def)
  next
    case (Inr u)
    note keep = csv_reset_wf [OF reset [unfolded Inr]]
    have "Next_loop X ctx file 1 s2 = (res, s')"
      using run False reset Inr by (simp add: Next_def Next_loop_rewind [OF _ read])
    moreover have "unat (cv_row s2) + length (cv_rest s2) < 2 ^ 64"
      using keep(3,5) room by (fastforce simp: csv_room_def)
    ultimately have ok: "next_ok X s2 res s'" using Next_loop_item [where ctx = ctx and k = 1 and s = s2, OF keep(1)] keep(4) by simp
    have "unat (cv_replay s + 1) = unat (cv_replay s) + 1"
      using room by (intro unat_Suc_64) (simp add: csv_room_def)
    then have "fst (csv_pos s) < fst (csv_pos s2)" using keep(2) by (simp add: csv_pos_def)
    with ok show ?thesis
      by (auto simp: next_ok_def later_rewound split: sum.splits source_error.splits)
  qed
qed

text \<open>The room left after a call that reports a row.\<close>

definition row_reported :: "source_error + row \<Rightarrow> bool" where
  "row_reported r \<longleftrightarrow> \<not> isl r \<or> (\<exists>i j why. r = Inl (InvalidRow i j why))"

lemma next_record_counts:
  "next_record X r s = (res, s') \<Longrightarrow>
     cv_replay s' = cv_replay s \<and> cv_row s' = cv_row s + 1 \<and> cv_rest s' = cv_rest s"
  by (auto simp: next_record_def Let_def split: read_result.splits sum.splits)

lemma Next_loop_counts:
  assumes room: "unat (cv_row s) + length (cv_rest s) < 2 ^ 64"
    and stay: "ctx k \<or> cv_rest s \<noteq> [] \<or> cv_valid s = 0"
    and run: "Next_loop X ctx file k s = (res, s')" and rep: "row_reported res"
  shows "cv_replay s' = cv_replay s \<and> unat (cv_row s') + length (cv_rest s') < 2 ^ 64"
proof -
  obtain r s1 where read: "csv_read s = (r, s1)" by fastforce
  have go: "\<not> ctx k" using run rep by (auto simp: Next_loop_done row_reported_def)
  have got: "r \<noteq> Eof"
  proof
    assume "r = Eof"
    then have "cv_rest s = []" and "s1 = s" by - (rule csv_read_cases [OF read], auto)+
    with run stay go read \<open>r = Eof\<close> rep show False by (auto simp: Next_loop_empty row_reported_def)
  qed
  have "length (cv_rest s) = Suc (length (cv_rest s1))" by (rule csv_read_keeps(5) [OF read got])
  moreover have "next_record X r s1 = (res, s')"
    using run Next_loop_got [where ctx = ctx and k = k, OF go read got] by simp
  moreover have "unat (cv_row s + 1) = unat (cv_row s) + 1"
    using room calculation(1) by (intro unat_Suc_64) simp
  ultimately show ?thesis
    using next_record_counts [of X r s1 res s'] csv_read_keeps(2,3) [OF read] room by simp
qed

lemma Next_counts:
  assumes room: "csv_room file s" and run: "Next X ctx file s = (res, s')" and rep: "row_reported res"
  shows "unat (cv_replay s') \<le> unat (cv_replay s) + 1 \<and> unat (cv_row s') + length (cv_rest s') < 2 ^ 64"
proof (cases "ctx 0 \<or> cv_rest s \<noteq> [] \<or> cv_valid s = 0")
  case True
  with Next_loop_counts [where ctx = ctx and k = 0, OF _ True _ rep] run room show ?thesis
    by (simp add: Next_def csv_room_def)
next
  case False
  let ?s1 = "s\<lparr>cv_replay := cv_replay s + 1, cv_row := 0, cv_valid := 0\<rparr>"
  have read: "csv_read s = (Eof, s)" using False by (simp add: csv_read_def)
  obtain r s2 where reset: "csv_reset (file 0) ?s1 = (r, s2)" by fastforce
  show ?thesis
  proof (cases r)
    case (Inl e)
    then have "e = Source_io" using reset by (auto simp: csv_reset_def split: option.splits prod.splits
        sum.splits read_result.splits if_splits)
    with run False reset Inl rep show ?thesis
      by (auto simp: Next_def Next_loop_rewind [OF _ read] row_reported_def)
  next
    case (Inr u)
    note keep = csv_reset_wf [OF reset [unfolded Inr]]
    have "Next_loop X ctx file 1 s2 = (res, s')"
      using run False reset Inr by (simp add: Next_def Next_loop_rewind [OF _ read])
    moreover have "unat (cv_row s2) + length (cv_rest s2) < 2 ^ 64"
      using keep(3,5) room by (fastforce simp: csv_room_def)
    ultimately have "cv_replay s' = cv_replay s2 \<and> unat (cv_row s') + length (cv_rest s') < 2 ^ 64"
      using Next_loop_counts [where ctx = ctx and k = 1 and s = s2] keep(4) rep by simp
    moreover have "unat (cv_replay s + 1) = unat (cv_replay s) + 1"
      using room by (intro unat_Suc_64) (simp add: csv_room_def)
    ultimately show ?thesis using keep(2) by simp
  qed
qed

lemma OpenCSV_wf:
  assumes "OpenCSV opened = Inr s"
  shows "csv_wf s" and "csv_pos s = (0, 0)" and "cv_replay s = 0" and "cv_row s = 0"
    and "\<exists>regular bytes items. opened = Some (regular, bytes, Some items) \<and> length (cv_rest s) < length items"
  using assms unfolding OpenCSV_def csv_pos_def
  by (auto split: option.splits if_splits prod.splits sum.splits dest: csv_reset_wf)

end
