(* ===== verification/Streamer.thy ===== *)
theory Streamer
  imports Csv Text Config
begin

text \<open>
  internal/streamer/run.go: the publisher of the pipeline. One call of \<open>Run\<close> reads rows, stamps
  them as events and publishes each until it is confirmed, refused or given up. The two Go
  interfaces it uses are the record \<open>ports\<close>, on an arbitrary state of the outside world.
\<close>

section \<open>Data\<close>

record 'w ports =
  po_Next :: "'w \<Rightarrow> (source_error + row) \<times> 'w"
  po_Publish :: "event \<Rightarrow> 'w \<Rightarrow> (client_error + unit) \<times> 'w"

record run_stats =
  st_Accepted :: u64
  st_InvalidRows :: u64
  st_Retries :: u64
  st_Unconfirmed :: u64

record run_options =
  ro_Rate :: f64
  ro_Count :: u64
  ro_ShutdownTimeout :: int
  ro_RetryMin :: int
  ro_RetryMax :: int
  ro_ProducerID :: string

datatype run_error =
  Bad_run_options
| Id_error
| Row_error source_error
| Event_error validation_error
| Publish_error client_error
| Wait_error queue_error
| Close_error

text \<open>
  What one attempt meets: whether the publish context is canceled, the jitter applied to the
  backoff and what waiting for a duration returns.
\<close>

record try_in =
  ti_canceled :: bool
  ti_jitter :: "int \<Rightarrow> int"
  ti_wait :: "int \<Rightarrow> queue_error option"

text \<open>
  What one row meets, in the order of the code: the stop context, the clock, the pacing wait
  (\<open>True\<close> when stopped), the stop context again after a failing and after a successful read,
  the clock for the timestamp and after it, and the attempts.
\<close>

record gen_in =
  gi_stop :: bool
  gi_now :: gotime
  gi_wait :: "int \<Rightarrow> bool"
  gi_stop_failed :: bool
  gi_stop_row :: bool
  gi_stamp :: gotime
  gi_after :: gotime
  gi_tries :: "try_in list"

section \<open>Pacing\<close>

definition f64_le :: "f64 \<Rightarrow> f64 \<Rightarrow> bool" where
  "f64_le a b \<longleftrightarrow> \<not> is_nan a \<and> \<not> is_nan b \<and> \<not> f64_less b a"

definition bad_run_options :: "run_options \<Rightarrow> bool" where
  "bad_run_options p \<longleftrightarrow> f64_le (ro_Rate p) (Finite 0) \<or> f64_less (Finite 1000000) (ro_Rate p)
     \<or> is_nan (ro_Rate p) \<or> is_inf (ro_Rate p) \<or> f64_less (ro_Rate p) (Finite rate_floor)
     \<or> ro_ShutdownTimeout p \<le> 0 \<or> ro_RetryMin p \<le> 0 \<or> ro_RetryMax p < ro_RetryMin p
     \<or> ro_RetryMax p > Minute"

text \<open>
  \<^verbatim>\<open>time.Duration(float64(time.Second) / o.Rate)\<close>: the quotient rounded to the 53 bits of a
  float64 (ties to even), then truncated. It is used on rates that passed the check, where the
  quotient is between \<open>10 ^ 3\<close> and \<open>10 ^ 12\<close>.
\<close>

fun bit_count :: "nat \<Rightarrow> nat" where
  "bit_count n = (if n = 0 then 0 else Suc (bit_count (n div 2)))"

declare bit_count.simps [simp del]

definition round_even :: "rat \<Rightarrow> int" where
  "round_even x = (let f = \<lfloor>x\<rfloor>; d = x - of_int f in
     if d < 1 / 2 then f else if d > 1 / 2 then f + 1 else if even f then f else f + 1)"

definition float_trunc :: "rat \<Rightarrow> int" where
  "float_trunc q = (let p = 53 - bit_count (nat \<lfloor>q\<rfloor>) in round_even (q * 2 ^ p) div 2 ^ p)"

definition interval :: "f64 \<Rightarrow> int" where
  "interval rate = (case rate of Finite q \<Rightarrow> float_trunc (1000000000 / q) | _ \<Rightarrow> 0)"

section \<open>The loop\<close>

definition event_id :: "string \<Rightarrow> u64 \<Rightarrow> u64 \<Rightarrow> string" where
  "event_id producer replay row =
     producer @ CHR '':'' # decimal (unat replay) @ CHR '':'' # decimal (unat row)"

definition make_event :: "string \<Rightarrow> row \<Rightarrow> gotime \<Rightarrow> event" where
  "make_event producer rw now =
     \<lparr>e_SchemaVersion = SchemaVersion, e_EventID = event_id producer (rw_ReplayIndex rw) (rw_RowIndex rw),
      e_ProducerInstanceID = producer, e_ReplayIndex = rw_ReplayIndex rw, e_RowIndex = rw_RowIndex rw,
      e_ProcessedAt = truncate_us (utc now), e_Measurement = rw_Measurement rw\<rparr>"

text \<open>The durations are below two minutes here, so that the doubling does not overflow.\<close>

definition next_backoff :: "run_options \<Rightarrow> int \<Rightarrow> int" where
  "next_backoff p b = (if b < ro_RetryMax p then min (b * 2) (ro_RetryMax p) else b)"

text \<open>\<open>None\<close> is a loop whose inputs are used up: it is still running.\<close>

fun publish_loop :: "'w ports \<Rightarrow> run_options \<Rightarrow> event \<Rightarrow> int \<Rightarrow> try_in list \<Rightarrow> run_stats \<Rightarrow> 'w \<Rightarrow>
    (run_stats \<times> run_error list) option \<times> 'w" where
  "publish_loop P p e b [] st w = (None, w)"
| "publish_loop P p e b (x # xs) st w =
     (case po_Publish P e w of
        (Inr _, w') \<Rightarrow> (Some (st\<lparr>st_Accepted := st_Accepted st + 1\<rparr>, []), w')
      | (Inl err, w') \<Rightarrow>
          if \<not> Retryable err \<or> ti_canceled x
          then (Some (st\<lparr>st_Unconfirmed := 1\<rparr>, [Publish_error err]), w')
          else let st' = st\<lparr>st_Retries := st_Retries st + 1\<rparr> in
            (case ti_wait x (ti_jitter x b) of
               Some werr \<Rightarrow> (Some (st'\<lparr>st_Unconfirmed := 1\<rparr>, [Wait_error werr]), w')
             | None \<Rightarrow> publish_loop P p e (next_backoff p b) xs st' w'))"

fun generate :: "'w ports \<Rightarrow> run_options \<Rightarrow> gen_in list \<Rightarrow> gotime \<Rightarrow> run_stats \<Rightarrow> 'w \<Rightarrow>
    (run_stats \<times> run_error list) option \<times> 'w" where
  "generate P p [] due st w =
     (if ro_Count p = 0 \<or> st_Accepted st < ro_Count p then None else Some (st, []), w)"
| "generate P p (x # xs) due st w =
     (if \<not> (ro_Count p = 0 \<or> st_Accepted st < ro_Count p) then (Some (st, []), w)
      else if gi_stop x then (Some (st, []), w)
      else if t_ns due - t_ns (gi_now x) > 0 \<and> gi_wait x (t_ns due - t_ns (gi_now x)) then (Some (st, []), w)
      else case po_Next P w of
          (Inl err, w1) \<Rightarrow>
            if gi_stop_failed x then (Some (st, []), w1)
            else (case err of
                InvalidRow _ _ _ \<Rightarrow> generate P p xs due (st\<lparr>st_InvalidRows := st_InvalidRows st + 1\<rparr>) w1
              | _ \<Rightarrow> (Some (st, [Row_error err]), w1))
        | (Inr rw, w1) \<Rightarrow>
            if gi_stop_row x then (Some (st, []), w1)
            else let e = make_event (ro_ProducerID p) rw (gi_stamp x) in
              (case Event_Validate e of
                 Inl err \<Rightarrow> (Some (st, [Event_error err]), w1)
               | Inr _ \<Rightarrow>
                   (case publish_loop P p e (ro_RetryMin p) (gi_tries x) st w1 of
                      (Some (st', []), w2) \<Rightarrow>
                        generate P p xs (unix_time (t_ns (gi_after x) + interval (ro_Rate p))) st' w2
                    | (res, w2) \<Rightarrow> (res, w2))))"

definition zero_run_stats :: run_stats where
  "zero_run_stats = \<lparr>st_Accepted = 0, st_InvalidRows = 0, st_Retries = 0, st_Unconfirmed = 0\<rparr>"

text \<open>\<open>rnd\<close> is the outcome of \<^verbatim>\<open>rand.Read\<close>, \<open>closing\<close> tells whether closing the source fails.\<close>

definition Streamer_Run :: "'w ports \<Rightarrow> run_options \<Rightarrow> bytes option \<Rightarrow> bool \<Rightarrow> gen_in list \<Rightarrow> 'w \<Rightarrow>
    (run_stats \<times> run_error list) option \<times> 'w" where
  "Streamer_Run P p rnd closing xs w =
     (let finish = map_option (\<lambda>(st, errs). (st, if closing then errs @ [Close_error] else errs)) in
      if bad_run_options p then (finish (Some (zero_run_stats, [Bad_run_options])), w)
      else case (if ro_ProducerID p = [] then NewID rnd else Some (ro_ProducerID p)) of
          None \<Rightarrow> (finish (Some (zero_run_stats, [Id_error])), w)
        | Some producer \<Rightarrow>
            (case generate P (p\<lparr>ro_ProducerID := producer\<rparr>) xs zero_time zero_run_stats w of
               (res, w') \<Rightarrow> (finish res, w')))"

text \<open>The options \<^verbatim>\<open>cmd/streamer\<close> takes from its configuration.\<close>

definition run_options_of :: "streamer_config \<Rightarrow> run_options" where
  "run_options_of c = \<lparr>ro_Rate = sc_Rate c, ro_Count = sc_Count c,
     ro_ShutdownTimeout = cm_ShutdownTimeout (sc_Common c), ro_RetryMin = sc_RetryMin c,
     ro_RetryMax = sc_RetryMax c, ro_ProducerID = []\<rparr>"

section \<open>Pacing and backoff\<close>

lemma bit_count_bound: "n < 2 ^ bit_count n"
proof (induction n rule: bit_count.induct)
  case (1 n)
  then show ?case by (cases "n = 0") (simp_all add: bit_count.simps [of n])
qed

lemma round_even_bounds: "\<lfloor>x\<rfloor> \<le> round_even x" "round_even x \<le> \<lfloor>x\<rfloor> + 1"
  by (simp_all add: round_even_def Let_def)

lemma float_trunc_bounds:
  assumes "of_int a \<le> q" and "q \<le> of_int b"
  shows "a \<le> float_trunc q" and "float_trunc q \<le> b + 1"
proof -
  define p where "p = 53 - bit_count (nat \<lfloor>q\<rfloor>)"
  have pos: "(0 :: int) < 2 ^ p" by simp
  have "of_int (a * 2 ^ p) \<le> q * 2 ^ p" using assms(1) by simp
  then have "a * 2 ^ p \<le> \<lfloor>q * 2 ^ p\<rfloor>" by (simp add: le_floor_iff)
  then have low: "a * 2 ^ p \<le> round_even (q * 2 ^ p)" using round_even_bounds(1) order_trans by blast
  have "q * 2 ^ p \<le> of_int (b * 2 ^ p)" using assms(2) by simp
  then have "\<lfloor>q * 2 ^ p\<rfloor> \<le> b * 2 ^ p" by (metis floor_mono floor_of_int)
  then have high: "round_even (q * 2 ^ p) \<le> b * 2 ^ p + 1"
    using round_even_bounds(2) [of "q * 2 ^ p"] by linarith
  have "a = a * 2 ^ p div 2 ^ p" using pos by simp
  also have "\<dots> \<le> round_even (q * 2 ^ p) div 2 ^ p" by (rule zdiv_mono1 [OF low pos])
  finally show "a \<le> float_trunc q" by (simp add: float_trunc_def p_def [symmetric] Let_def)
  have "b * 2 ^ p + 1 \<le> (b + 1) * 2 ^ p" using pos by (simp add: algebra_simps)
  then have "round_even (q * 2 ^ p) \<le> (b + 1) * 2 ^ p" using high by linarith
  then have "round_even (q * 2 ^ p) div 2 ^ p \<le> (b + 1) * 2 ^ p div 2 ^ p" by (rule zdiv_mono1 [OF _ pos])
  then show "float_trunc q \<le> b + 1"
    using pos by (simp add: float_trunc_def p_def [symmetric] Let_def)
qed

lemma good_rate:
  assumes "\<not> bad_run_options p"
  obtains q where "ro_Rate p = Finite q" and "rate_floor \<le> q" and "q \<le> 1000000"
  using assms by (cases "ro_Rate p") (auto simp: bad_run_options_def is_nan_def is_inf_def not_less)

lemma interval_bounds:
  assumes "\<not> bad_run_options p"
  shows "1000 \<le> interval (ro_Rate p) \<and> interval (ro_Rate p) \<le> 1000000000001"
proof -
  obtain q where q: "ro_Rate p = Finite q" "rate_floor \<le> q" "q \<le> 1000000" by (rule good_rate [OF assms])
  have fl: "1 / 1000 \<le> rate_floor" "0 < rate_floor" by (simp_all add: rate_floor_def Fract_of_int_quotient)
  with q(2) have q0: "0 < q" "1 / 1000 \<le> q" by simp_all
  have "of_int 1000 \<le> 1000000000 / q" using q0(1) q(3) by (simp add: pos_le_divide_eq)
  moreover have "1000000000 / q \<le> of_int 1000000000000" using q0 by (simp add: pos_divide_le_eq)
  ultimately show ?thesis
    using float_trunc_bounds [of 1000 "1000000000 / q" 1000000000000] by (simp add: interval_def q(1))
qed

lemma next_backoff_bounds:
  "0 < b \<Longrightarrow> b \<le> ro_RetryMax p \<Longrightarrow> b \<le> next_backoff p b \<and> next_backoff p b \<le> ro_RetryMax p"
  by (auto simp: next_backoff_def)

section \<open>Identities\<close>

definition event_pos :: "event \<Rightarrow> nat \<times> nat" where
  "event_pos e = (unat (e_ReplayIndex e), unat (e_RowIndex e))"

lemma event_id_inj: "event_id producer i j = event_id producer k l \<longleftrightarrow> i = k \<and> j = l"
proof
  assume "event_id producer i j = event_id producer k l"
  then have "decimal (unat i) @ CHR '':'' # decimal (unat j) = decimal (unat k) @ CHR '':'' # decimal (unat l)"
    by (simp add: event_id_def)
  from colon_split [OF decimal_no_colon decimal_no_colon this] show "i = k \<and> j = l"
    by (simp add: word_unat_eq_iff)
qed simp

lemma event_id_length: "length (event_id producer i j) \<le> length producer + 42"
  using decimal_u64 [of i] decimal_u64 [of j] by (simp add: event_id_def)

section \<open>The calls made\<close>

text \<open>
  The same ports with a log of the publish calls and whether they were confirmed. The
  outside world is arbitrary, so what holds of the log holds of every run.
\<close>

type_synonym publish_log = "(event \<times> bool) list"

definition logged :: "'w ports \<Rightarrow> ('w \<times> publish_log) ports" where
  "logged P = \<lparr>po_Next = (\<lambda>(w, l). case po_Next P w of (r, w') \<Rightarrow> (r, w', l)),
     po_Publish = (\<lambda>e (w, l). case po_Publish P e w of (r, w') \<Rightarrow> (r, w', l @ [(e, \<not> isl r)]))\<rparr>"

lemma logged_simps:
  "po_Next (logged P) (w, l) = (case po_Next P w of (r, w') \<Rightarrow> (r, w', l))"
  "po_Publish (logged P) e (w, l) = (case po_Publish P e w of (r, w') \<Rightarrow> (r, w', l @ [(e, \<not> isl r)]))"
  by (simp_all add: logged_def)

text \<open>
  An entry of the log and a later one: the later one is a row further on, or the same event
  again after an attempt that was not confirmed.
\<close>

definition log_step :: "event \<times> bool \<Rightarrow> event \<times> bool \<Rightarrow> bool" where
  "log_step x y \<longleftrightarrow> later (event_pos (fst y)) (event_pos (fst x)) \<or> fst y = fst x \<and> \<not> snd x"

definition accepted :: "publish_log \<Rightarrow> event list" where
  "accepted l = map fst (filter snd l)"

lemma accepted_simps [simp]: "accepted (l @ m) = accepted l @ accepted m" "accepted [] = []"
  "accepted [(e, b)] = (if b then [e] else [])"
  by (simp_all add: accepted_def)

text \<open>What one event contributes: attempts that failed, and the confirmation if it came.\<close>

lemma publish_loop_log:
  assumes "publish_loop (logged P) p e b xs st (w, l) = (res, w', l')"
  shows "\<exists>k. (res = None \<and> l' = l @ replicate k (e, False))
    \<or> (\<exists>st'. res = Some (st', []) \<and> st_Accepted st' = st_Accepted st + 1
        \<and> st_Unconfirmed st' = st_Unconfirmed st \<and> l' = l @ replicate k (e, False) @ [(e, True)])
    \<or> (\<exists>st' err. res = Some (st', [err]) \<and> st_Accepted st' = st_Accepted st
        \<and> st_Unconfirmed st' = 1 \<and> l' = l @ replicate (Suc k) (e, False))"
  using assms
proof (induction xs arbitrary: b st w l)
  case Nil
  then show ?case by (intro exI [of _ 0]) simp
next
  case (Cons x xs)
  obtain r w1 where pub: "po_Publish P e w = (r, w1)" by fastforce
  show ?case
  proof (cases r)
    case (Inr u)
    with Cons.prems pub show ?thesis by (intro exI [of _ 0]) (auto simp: logged_simps)
  next
    case (Inl err)
    let ?st = "st\<lparr>st_Retries := st_Retries st + 1\<rparr>"
    show ?thesis
    proof (cases "\<not> Retryable err \<or> ti_canceled x \<or> ti_wait x (ti_jitter x b) \<noteq> None")
      case True
      with Cons.prems pub Inl
      have "\<exists>st' err. res = Some (st', [err]) \<and> st_Accepted st' = st_Accepted st
          \<and> st_Unconfirmed st' = 1 \<and> l' = l @ replicate (Suc 0) (e, False)"
        by (auto simp: logged_simps Let_def split: if_splits option.splits)
      then show ?thesis by blast
    next
      case False
      with Cons.prems pub Inl
      have "publish_loop (logged P) p e (next_backoff p b) xs ?st (w1, l @ [(e, False)]) = (res, w', l')"
        by (simp add: logged_simps Let_def)
      note Cons.IH [OF this]
      moreover have "(l @ [(e, False)]) @ replicate k (e, False) @ m = l @ replicate (Suc k) (e, False) @ m"
        "(l @ [(e, False)]) @ replicate k (e, False) = l @ replicate (Suc k) (e, False)" for k m
        by simp_all
      ultimately show ?thesis by (simp only: run_stats.select_convs run_stats.update_convs) fastforce
    qed
  qed
qed

section \<open>The interface of the source\<close>

text \<open>
  The Go interface \<^verbatim>\<open>Source\<close> as \<open>Run\<close> relies on it: every row, valid or not, lies further on than
  the position before the call, and a row carries its own position. \<open>inv n\<close> allows \<open>n\<close> more calls
  before a counter of the source wraps. Publishing does not move the source.
\<close>

locale row_source =
  fixes P :: "'w ports" and pos :: "'w \<Rightarrow> nat \<times> nat" and inv :: "nat \<Rightarrow> 'w \<Rightarrow> bool"
  assumes next_row: "inv (Suc n) w \<Longrightarrow> po_Next P w = (Inr rw, w') \<Longrightarrow>
      inv n w' \<and> (unat (rw_ReplayIndex rw), unat (rw_RowIndex rw)) = pos w' \<and> later (pos w') (pos w)"
    and next_invalid: "inv (Suc n) w \<Longrightarrow> po_Next P w = (Inl (InvalidRow i j why), w') \<Longrightarrow>
      inv n w' \<and> later (pos w') (pos w)"
    and publish_keeps: "po_Publish P e w = (r, w') \<Longrightarrow> pos w' = pos w \<and> (inv n w \<longrightarrow> inv n w')"
begin

definition log_fine :: "string \<Rightarrow> publish_log \<Rightarrow> bool" where
  "log_fine producer l \<longleftrightarrow> sorted_wrt log_step l \<and> (\<forall>e \<in> fst ` set l. Event_Validate e = Inr ()
     \<and> e_EventID e = event_id producer (e_ReplayIndex e) (e_RowIndex e))"

definition log_ok :: "string \<Rightarrow> 'w \<Rightarrow> publish_log \<Rightarrow> bool" where
  "log_ok producer w l \<longleftrightarrow> log_fine producer l
     \<and> (\<forall>e \<in> fst ` set l. event_pos e = pos w \<or> later (pos w) (event_pos e))"

lemma later_trans: "later r q \<Longrightarrow> later q p \<Longrightarrow> later r p"
  by (auto simp: later_def)

lemma log_ok_moved: "log_ok producer w l \<Longrightarrow> pos w' = pos w \<or> later (pos w') (pos w) \<Longrightarrow> log_ok producer w' l"
  by (auto simp: log_ok_def intro: later_trans)

lemma sorted_block: "sorted_wrt log_step (replicate k (e, False) @ (if b then [(e, True)] else []))"
  by (induction k) (auto simp: log_step_def)

lemma log_ok_block:
  assumes ok: "log_ok producer w l" and fresh: "later (event_pos e) (pos w)"
    and new: "Event_Validate e = Inr ()" "e_EventID e = event_id producer (e_ReplayIndex e) (e_RowIndex e)"
      "event_pos e = pos w'"
  shows "log_ok producer w' (l @ replicate k (e, False) @ (if b then [(e, True)] else []))"
proof -
  let ?m = "replicate k (e, False) @ (if b then [(e, True)] else [])"
  have same: "fst y = e" if "y \<in> set ?m" for y using that by (auto split: if_splits)
  have "log_step x y" if x: "x \<in> set l" and y: "y \<in> set ?m" for x y
  proof -
    have "event_pos (fst x) = pos w \<or> later (pos w) (event_pos (fst x))"
      using ok x by (simp add: log_ok_def)
    then have "later (event_pos e) (event_pos (fst x))" using fresh later_trans by metis
    with same [OF y] show ?thesis by (simp add: log_step_def)
  qed
  then have "sorted_wrt log_step (l @ ?m)"
    using ok sorted_block [of k e b] by (simp add: log_ok_def log_fine_def sorted_wrt_append)
  moreover have "log_ok producer w' l"
    using ok fresh new(3) by (intro log_ok_moved [OF ok]) simp
  moreover have "fst ` set ?m \<subseteq> {e}" using same by blast
  ultimately show ?thesis using new unfolding log_ok_def log_fine_def set_append image_Un by blast
qed

lemma publish_loop_world:
  assumes "publish_loop (logged P) p e b xs st (w, l) = (res, w', l')"
  shows "pos w' = pos w \<and> (inv n w \<longrightarrow> inv n w')"
  using assms
proof (induction xs arbitrary: b st w l)
  case (Cons x xs)
  obtain r w1 where pub: "po_Publish P e w = (r, w1)" by fastforce
  note keeps = publish_keeps [OF pub, of n]
  show ?case
  proof (cases "\<exists>err. r = Inl err \<and> \<not> (\<not> Retryable err \<or> ti_canceled x \<or> ti_wait x (ti_jitter x b) \<noteq> None)")
    case True
    then obtain err where "r = Inl err" and "Retryable err" and "\<not> ti_canceled x"
      and "ti_wait x (ti_jitter x b) = None" by blast
    with Cons.prems pub
    have "publish_loop (logged P) p e (next_backoff p b) xs (st\<lparr>st_Retries := st_Retries st + 1\<rparr>)
        (w1, l @ [(e, False)]) = (res, w', l')"
      by (simp add: logged_simps Let_def)
    from Cons.IH [OF this] keeps show ?thesis by simp
  next
    case False
    with Cons.prems pub keeps show ?thesis
      by (auto simp: logged_simps Let_def split: sum.splits if_splits option.splits)
  qed
qed simp

text \<open>What holds before an iteration, and what holds at the end.\<close>

definition running :: "run_options \<Rightarrow> nat \<Rightarrow> run_stats \<Rightarrow> 'w \<Rightarrow> publish_log \<Rightarrow> bool" where
  "running p n st w l \<longleftrightarrow> inv n w \<and> log_ok (ro_ProducerID p) w l \<and> st_Unconfirmed st = 0
     \<and> st_Accepted st = of_nat (length (accepted l)) \<and> fst ` set l = set (accepted l)
     \<and> length (accepted l) + n < 2 ^ 64 \<and> (ro_Count p \<noteq> 0 \<longrightarrow> length (accepted l) \<le> unat (ro_Count p))"

definition finished :: "run_options \<Rightarrow> (run_stats \<times> run_error list) option \<Rightarrow> publish_log \<Rightarrow> bool" where
  "finished p res l \<longleftrightarrow> log_fine (ro_ProducerID p) l
     \<and> (\<forall>e \<in> fst ` set l. e \<in> set (accepted l) \<or> e = fst (last l))
     \<and> (ro_Count p \<noteq> 0 \<longrightarrow> length (accepted l) \<le> unat (ro_Count p))
     \<and> (\<forall>st errs. res = Some (st, errs) \<longrightarrow> st_Accepted st = of_nat (length (accepted l))
          \<and> (st_Unconfirmed st = 0 \<longrightarrow> fst ` set l = set (accepted l))
          \<and> (st_Unconfirmed st = 0 \<or> st_Unconfirmed st = 1 \<and> errs \<noteq> []))"

lemma running_finished:
  assumes "running p n st w l" and "res = None \<or> (\<exists>errs. res = Some (st, errs))"
  shows "finished p res l"
  using assms by (auto simp: running_def finished_def log_ok_def)

lemma running_more: "running p (Suc n) st w l \<Longrightarrow> inv n w' \<Longrightarrow> later (pos w') (pos w) \<Longrightarrow>
    running p n (st\<lparr>st_InvalidRows := k\<rparr>) w' l"
  by (auto simp: running_def intro: log_ok_moved)

text \<open>One event, from a state in which the loop runs on.\<close>

lemma running_event:
  assumes run: "running p (Suc n) st w l" and "inv n w1" and fresh: "later (pos w1) (pos w)"
    and more: "ro_Count p = 0 \<or> st_Accepted st < ro_Count p"
    and e: "Event_Validate e = Inr ()" "e_EventID e = event_id (ro_ProducerID p) (e_ReplayIndex e) (e_RowIndex e)"
      "event_pos e = pos w1"
    and pub: "publish_loop (logged P) p e b xs st (w1, l) = (res, w2, l2)"
  shows "(\<exists>st'. res = Some (st', []) \<and> running p n st' w2 l2)
    \<or> (\<forall>st'. res \<noteq> Some (st', [])) \<and> finished p res l2"
proof -
  note world = publish_loop_world [OF pub, of n]
  have pos2: "event_pos e = pos w2" using e(3) world by simp
  have fresh': "later (event_pos e) (pos w)" using fresh e(3) by simp
  have ok: "log_ok (ro_ProducerID p) w l" and lt: "length (accepted l) + Suc n < 2 ^ 64"
    and acc: "st_Accepted st = of_nat (length (accepted l))" using run by (simp_all add: running_def)
  note block = log_ok_block [OF ok fresh' e(1,2) pos2]
  have room: "ro_Count p \<noteq> 0 \<Longrightarrow> Suc (length (accepted l)) \<le> unat (ro_Count p)"
  proof -
    assume "ro_Count p \<noteq> 0"
    with more acc have "(of_nat (length (accepted l)) :: u64) < ro_Count p" by simp
    then show ?thesis using lt by (simp add: word_less_nat_alt unat_of_nat)
  qed
  from publish_loop_log [OF pub] obtain k where k:
    "(res = None \<and> l2 = l @ replicate k (e, False))
    \<or> (\<exists>st'. res = Some (st', []) \<and> st_Accepted st' = st_Accepted st + 1
        \<and> st_Unconfirmed st' = st_Unconfirmed st \<and> l2 = l @ replicate k (e, False) @ [(e, True)])
    \<or> (\<exists>st' err. res = Some (st', [err]) \<and> st_Accepted st' = st_Accepted st
        \<and> st_Unconfirmed st' = 1 \<and> l2 = l @ replicate (Suc k) (e, False))"
    by blast
  have none: "accepted (replicate j (e, False)) = []" for j by (simp add: accepted_def)
  from k show ?thesis
  proof (elim disjE exE conjE)
    assume "res = None" and l2: "l2 = l @ replicate k (e, False)"
    have "log_ok (ro_ProducerID p) w2 l2" using block [of k False] l2 by simp
    then have "finished p res l2"
      using run \<open>res = None\<close> none [of k] by (cases k) (auto simp: finished_def running_def l2 log_ok_def)
    then show ?thesis using \<open>res = None\<close> by simp
  next
    fix st'
    assume res: "res = Some (st', [])" and st': "st_Accepted st' = st_Accepted st + 1"
      "st_Unconfirmed st' = st_Unconfirmed st" and l2: "l2 = l @ replicate k (e, False) @ [(e, True)]"
    have "log_ok (ro_ProducerID p) w2 l2" using block [of k True] l2 by simp
    moreover have "fst ` set l2 = set (accepted l2)"
      using run by (auto simp: l2 running_def none)
    ultimately have "running p n st' w2 l2"
      using run st' room lt world \<open>inv n w1\<close> by (auto simp: running_def l2 none)
    then show ?thesis using res by blast
  next
    fix st' err
    assume res: "res = Some (st', [err])" and st': "st_Accepted st' = st_Accepted st"
      "st_Unconfirmed st' = 1" and l2: "l2 = l @ replicate (Suc k) (e, False)"
    have "log_ok (ro_ProducerID p) w2 l2" using block [of "Suc k" False] l2 by simp
    moreover have "last l2 = (e, False)" by (simp add: l2 last_append)
    ultimately have "finished p res l2"
      using run st' res none [of "Suc k"] by (auto simp: finished_def running_def l2 log_ok_def)
    then show ?thesis using res by simp
  qed
qed

lemma make_event_pos:
  "event_pos (make_event producer rw now) = (unat (rw_ReplayIndex rw), unat (rw_RowIndex rw))"
  "e_EventID (make_event producer rw now)
     = event_id producer (e_ReplayIndex (make_event producer rw now)) (e_RowIndex (make_event producer rw now))"
  by (simp_all add: make_event_def event_pos_def)

lemma generate_stops:
  "\<not> (ro_Count p = 0 \<or> st_Accepted st < ro_Count p) \<or> gi_stop x
     \<or> t_ns due - t_ns (gi_now x) > 0 \<and> gi_wait x (t_ns due - t_ns (gi_now x)) \<Longrightarrow>
   generate Q p (x # xs) due st v = (Some (st, []), v)"
  by auto

text \<open>The step of the loop that goes on to read a row.\<close>

lemma generate_reads:
  assumes "\<not> (\<not> (ro_Count p = 0 \<or> st_Accepted st < ro_Count p) \<or> gi_stop x
     \<or> t_ns due - t_ns (gi_now x) > 0 \<and> gi_wait x (t_ns due - t_ns (gi_now x)))"
    and "po_Next Q v = (r, v1)"
  shows "generate Q p (x # xs) due st v = (case r of
      Inl err \<Rightarrow>
        (if gi_stop_failed x then (Some (st, []), v1)
         else case err of
             InvalidRow _ _ _ \<Rightarrow> generate Q p xs due (st\<lparr>st_InvalidRows := st_InvalidRows st + 1\<rparr>) v1
           | _ \<Rightarrow> (Some (st, [Row_error err]), v1))
    | Inr rw \<Rightarrow>
        (if gi_stop_row x then (Some (st, []), v1)
         else case Event_Validate (make_event (ro_ProducerID p) rw (gi_stamp x)) of
             Inl err \<Rightarrow> (Some (st, [Event_error err]), v1)
           | Inr _ \<Rightarrow>
               (case publish_loop Q p (make_event (ro_ProducerID p) rw (gi_stamp x)) (ro_RetryMin p)
                       (gi_tries x) st v1 of
                  (Some (st', []), v2) \<Rightarrow>
                    generate Q p xs (unix_time (t_ns (gi_after x) + interval (ro_Rate p))) st' v2
                | (res, v2) \<Rightarrow> (res, v2))))"
proof -
  have go: "(\<not> (ro_Count p = 0 \<or> st_Accepted st < ro_Count p)) = False" "gi_stop x = False"
    "(t_ns due - t_ns (gi_now x) > 0 \<and> gi_wait x (t_ns due - t_ns (gi_now x))) = False"
    using assms(1) by blast+
  show ?thesis
    unfolding generate.simps go if_False assms(2) by (cases r) (simp_all only: Let_def prod.case sum.case)
qed

lemma generate_finished:
  assumes "running p (length xs) st w l" and "generate (logged P) p xs due st (w, l) = (res, w', l')"
  shows "finished p res l'"
  using assms
proof (induction xs arbitrary: due st w l)
  case Nil
  then show ?case using running_finished [OF Nil(1), of res] by (auto split: if_splits)
next
  case (Cons x xs)
  note run = Cons.prems(1)
  let ?stop = "\<not> (ro_Count p = 0 \<or> st_Accepted st < ro_Count p) \<or> gi_stop x
      \<or> t_ns due - t_ns (gi_now x) > 0 \<and> gi_wait x (t_ns due - t_ns (gi_now x))"
  obtain r w1 where nxt: "po_Next P w = (r, w1)" by fastforce
  have nxt': "po_Next (logged P) (w, l) = (r, w1, l)" by (simp add: logged_simps nxt)
  have n: "inv (Suc (length xs)) w" using run by (simp add: running_def)
  consider (stop) ?stop | (failed) err where "\<not> ?stop" and "r = Inl err"
    | (row) rw where "\<not> ?stop" and "r = Inr rw" by (cases r) blast+
  then show ?case
  proof cases
    case stop
    have "res = Some (st, [])" and "l' = l"
      using Cons.prems(2) unfolding generate_stops [OF stop] by simp_all
    then show ?thesis using running_finished [OF run, of res] by simp
  next
    case failed
    have g: "(if gi_stop_failed x then (Some (st, []), (w1, l)) else (case err of
        InvalidRow _ _ _ \<Rightarrow> generate (logged P) p xs due (st\<lparr>st_InvalidRows := st_InvalidRows st + 1\<rparr>) (w1, l)
      | _ \<Rightarrow> (Some (st, [Row_error err]), (w1, l)))) = (res, (w', l'))"
      using Cons.prems(2) failed nxt' by (simp add: generate_reads del: generate.simps)
    show ?thesis
    proof (cases "\<not> gi_stop_failed x \<and> (\<exists>i j why. err = InvalidRow i j why)")
      case True
      then obtain i j why where err: "err = InvalidRow i j why" by blast
      with next_invalid [OF n] nxt failed have "inv (length xs) w1" "later (pos w1) (pos w)" by blast+
      with run have "running p (length xs) (st\<lparr>st_InvalidRows := st_InvalidRows st + 1\<rparr>) w1 l"
        by (simp add: running_more)
      from Cons.IH [OF this] g True err show ?thesis by simp
    next
      case False
      with g have "l' = l \<and> (\<exists>errs. res = Some (st, errs))"
        by (auto split: if_splits source_error.splits)
      then show ?thesis using running_finished [OF run] by blast
    qed
  next
    case row
    let ?e = "make_event (ro_ProducerID p) rw (gi_stamp x)"
    have g: "(if gi_stop_row x then (Some (st, []), (w1, l)) else (case Event_Validate ?e of
        Inl err \<Rightarrow> (Some (st, [Event_error err]), (w1, l))
      | Inr _ \<Rightarrow> (case publish_loop (logged P) p ?e (ro_RetryMin p) (gi_tries x) st (w1, l) of
          (Some (st', []), w2) \<Rightarrow>
            generate (logged P) p xs (unix_time (t_ns (gi_after x) + interval (ro_Rate p))) st' w2
        | (res, w2) \<Rightarrow> (res, w2)))) = (res, (w', l'))"
      using Cons.prems(2) row nxt' by (simp add: generate_reads del: generate.simps)
    show ?thesis
    proof (cases "gi_stop_row x \<or> Event_Validate ?e \<noteq> Inr ()")
      case True
      with g have "l' = l \<and> (\<exists>errs. res = Some (st, errs))" by (auto split: if_splits sum.splits)
      then show ?thesis using running_finished [OF run] by blast
    next
      case False
      obtain res2 w2 l2 where pub:
        "publish_loop (logged P) p ?e (ro_RetryMin p) (gi_tries x) st (w1, l) = (res2, w2, l2)"
        by (metis surj_pair)
      have inv1: "inv (length xs) w1" and fresh: "later (pos w1) (pos w)"
        and at: "event_pos ?e = pos w1"
        using next_row [OF n, of rw w1] nxt row by (simp_all add: make_event_pos)
      have more: "ro_Count p = 0 \<or> st_Accepted st < ro_Count p" and valid: "Event_Validate ?e = Inr ()"
        and run': "running p (Suc (length xs)) st w l"
        using row(1) False run by (blast, blast, simp)
      note running_event [OF run' inv1 fresh more valid make_event_pos(2) at pub]
      then show ?thesis
      proof
        assume "\<exists>st'. res2 = Some (st', []) \<and> running p (length xs) st' w2 l2"
        then obtain st' where st': "res2 = Some (st', [])" "running p (length xs) st' w2 l2" by blast
        from Cons.IH [OF st'(2)] g False pub st'(1) show ?thesis by simp
      next
        assume no: "(\<forall>st'. res2 \<noteq> Some (st', [])) \<and> finished p res2 l2"
        with g False pub have "res = res2 \<and> l' = l2"
          by (auto split: option.splits list.splits)
        with no show ?thesis by simp
      qed
    qed
  qed
qed

end

section \<open>The CSV file as the source\<close>

text \<open>
  The ports of a run that reads a CSV file: \<open>ctx\<close>, \<open>file\<close> and \<open>tick\<close> are what the outside world
  contributes to a call of \<open>Next\<close>, \<open>publish\<close> is an arbitrary publisher.
\<close>

definition csv_ports :: "csv_syntax \<Rightarrow> ('w \<Rightarrow> nat \<Rightarrow> bool) \<Rightarrow> ('w \<Rightarrow> nat \<Rightarrow> raw list option) \<Rightarrow> ('w \<Rightarrow> 'w) \<Rightarrow>
    (event \<Rightarrow> 'w \<Rightarrow> (client_error + unit) \<times> 'w) \<Rightarrow> (csv \<times> 'w) ports" where
  "csv_ports X ctx file tick publish =
     \<lparr>po_Next = (\<lambda>(s, w). case Next X (ctx w) (file w) s of (r, s') \<Rightarrow> (r, s', tick w)),
      po_Publish = (\<lambda>e (s, w). case publish e w of (r, w') \<Rightarrow> (r, s, w'))\<rparr>"

definition files_fit :: "('w \<Rightarrow> nat \<Rightarrow> raw list option) \<Rightarrow> bool" where
  "files_fit file \<longleftrightarrow> (\<forall>w k items. file w k = Some items \<longrightarrow> length items < 2 ^ 64)"

definition csv_inv :: "('w \<Rightarrow> nat \<Rightarrow> raw list option) \<Rightarrow> nat \<Rightarrow> csv \<times> 'w \<Rightarrow> bool" where
  "csv_inv file n v \<longleftrightarrow> csv_wf (fst v) \<and> unat (cv_replay (fst v)) + n < 2 ^ 64
     \<and> unat (cv_row (fst v)) + length (cv_rest (fst v)) < 2 ^ 64 \<and> files_fit file"

lemma csv_inv_next:
  assumes inv: "csv_inv file (Suc n) (s, w)" and run: "Next X ctx (file v) s = (r, s')" and rep: "row_reported r"
  shows "next_ok X s r s'" and "csv_inv file n (s', w')"
proof -
  have room: "csv_room (file v) s" and wf: "csv_wf s"
    using inv by (auto simp: csv_inv_def csv_room_def files_fit_def)
  show ok: "next_ok X s r s'" by (rule Next_ok [OF wf room run])
  then have "csv_wf s'" using rep by (auto simp: next_ok_def row_reported_def split: sum.splits)
  then show "csv_inv file n (s', w')"
    using Next_counts [OF room run rep] inv by (simp add: csv_inv_def)
qed

interpretation csv_source: row_source "csv_ports X ctx file tick publish" "\<lambda>v. csv_pos (fst v)" "csv_inv file"
proof (unfold_locales, goal_cases)
  case (1 n v rw v')
  obtain s w where v: "v = (s, w)" by fastforce
  obtain s' where run: "Next X (ctx w) (file w) s = (Inr rw, s')" and v': "v' = (s', tick w)"
    using 1(2) by (auto simp: csv_ports_def v split: prod.splits)
  have "row_reported (Inr rw)" by (simp add: row_reported_def)
  from csv_inv_next [OF 1(1) [unfolded v] run this] show ?case by (simp add: next_ok_def v v')
next
  case (2 n v i j why v')
  obtain s w where v: "v = (s, w)" by fastforce
  obtain s' where run: "Next X (ctx w) (file w) s = (Inl (InvalidRow i j why), s')" and v': "v' = (s', tick w)"
    using 2(2) by (auto simp: csv_ports_def v split: prod.splits)
  have "row_reported (Inl (InvalidRow i j why))" by (simp add: row_reported_def)
  from csv_inv_next [OF 2(1) [unfolded v] run this] show ?case by (simp add: next_ok_def v v')
next
  case (3 e v r v' n)
  then show ?case by (auto simp: csv_ports_def csv_inv_def split: prod.splits)
qed

section \<open>Properties\<close>

definition closing_error :: "bool \<Rightarrow> run_stats \<times> run_error list \<Rightarrow> run_stats \<times> run_error list" where
  "closing_error closing x = (fst x, if closing then snd x @ [Close_error] else snd x)"

lemma Streamer_Run_cases:
  assumes "Streamer_Run P p rnd closing xs w = (res, w')"
  obtains (early) errs where "res = Some (zero_run_stats, errs)" and "errs \<noteq> []" and "w' = w"
  | (ran) producer res' where "res = map_option (closing_error closing) res'"
      and "generate P (p\<lparr>ro_ProducerID := producer\<rparr>) xs zero_time zero_run_stats w = (res', w')"
proof -
  have fin: "(\<lambda>(st, errs). (st, if closing then errs @ [Close_error] else errs)) = closing_error closing"
    by (auto simp: closing_error_def fun_eq_iff)
  define chosen where "chosen = (if ro_ProducerID p = [] then NewID rnd else Some (ro_ProducerID p))"
  note run = assms [unfolded Streamer_Run_def Let_def fin, folded chosen_def]
  show ?thesis
  proof (cases "bad_run_options p \<or> chosen = None")
    case True
    with run early show ?thesis by (auto simp: closing_error_def split: if_splits)
  next
    case False
    then obtain producer where "chosen = Some producer" by auto
    with run False ran [of _ producer] show ?thesis by (auto split: prod.splits)
  qed
qed

lemma log_step_accepted:
  assumes "sorted_wrt log_step l" and "\<forall>e \<in> fst ` set l. e_EventID e = event_id producer (e_ReplayIndex e) (e_RowIndex e)"
  shows "distinct (map e_EventID (accepted l))"
  using assms
proof (induction l)
  case (Cons x l)
  have "e_EventID (fst x) \<noteq> e_EventID (fst y)" if "snd x" and y: "y \<in> set l" for y
  proof -
    have "later (event_pos (fst y)) (event_pos (fst x))"
      using Cons.prems(1) that by (auto simp: log_step_def)
    then have "event_pos (fst y) \<noteq> event_pos (fst x)" by (auto simp: later_def)
    then show ?thesis using Cons.prems(2) y by (auto simp: event_id_inj event_pos_def)
  qed
  moreover have "distinct (map e_EventID (accepted l))" using Cons by simp
  ultimately show ?case by (auto simp: accepted_def)
qed simp

text \<open>
  C25: the streamer publishes each row once. In a run over a CSV file, whatever the network, the
  clock and the signals do: every event it sends is valid; whatever it sends after an event is
  either the same event again, unchanged, after an attempt that was not confirmed, or comes
  from a later row; the identities of the confirmed events are distinct; no event but the last
  one sent is left unconfirmed; a confirmed event counts as accepted, and never more events
  than \<open>Count\<close> are.
\<close>

theorem streamer_publishes_once:
  assumes "OpenCSV opened = Inr s" and "files_fit file" and "length xs < 2 ^ 64"
    and "\<forall>r b items. opened = Some (r, b, Some items) \<longrightarrow> length items < 2 ^ 64"
    and "Streamer_Run (logged (csv_ports X ctx file tick publish)) p rnd closing xs ((s, w), []) = (res, v, l)"
  shows "sorted_wrt log_step l \<and> (\<forall>e \<in> fst ` set l. Event_Validate e = Inr ())
    \<and> distinct (map e_EventID (accepted l))
    \<and> (\<forall>e \<in> fst ` set l. e \<in> set (accepted l) \<or> e = fst (last l))
    \<and> (ro_Count p \<noteq> 0 \<longrightarrow> length (accepted l) \<le> unat (ro_Count p))
    \<and> (\<forall>st errs. res = Some (st, errs) \<longrightarrow> st_Accepted st = of_nat (length (accepted l))
         \<and> (errs = [] \<longrightarrow> fst ` set l = set (accepted l)))"
proof (rule Streamer_Run_cases [OF assms(5)])
  fix errs
  assume "res = Some (zero_run_stats, errs)" and "errs \<noteq> []" and "(v, l) = ((s, w), [])"
  then show ?thesis by (simp add: zero_run_stats_def accepted_def)
next
  fix producer res'
  let ?p = "p\<lparr>ro_ProducerID := producer\<rparr>"
  assume res: "res = map_option (closing_error closing) res'"
    and gen: "generate (logged (csv_ports X ctx file tick publish)) ?p xs zero_time zero_run_stats
        ((s, w), []) = (res', (v, l))"
  have "csv_source.running file ?p (length xs) zero_run_stats (s, w) []"
    using OpenCSV_wf [OF assms(1)] assms(2-4)
    by (fastforce simp: csv_source.running_def csv_inv_def csv_source.log_ok_def csv_source.log_fine_def
        zero_run_stats_def)
  from csv_source.generate_finished [OF this gen]
  have fin: "csv_source.finished ?p res' l" .
  then have fine: "sorted_wrt log_step l" and ev: "\<forall>e \<in> fst ` set l. Event_Validate e = Inr ()
      \<and> e_EventID e = event_id producer (e_ReplayIndex e) (e_RowIndex e)"
    by (simp_all add: csv_source.finished_def csv_source.log_fine_def)
  have "distinct (map e_EventID (accepted l))" using log_step_accepted [OF fine] ev by blast
  moreover have "st_Accepted st = of_nat (length (accepted l)) \<and> (errs = [] \<longrightarrow> fst ` set l = set (accepted l))"
    if "res = Some (st, errs)" for st errs
  proof -
    from that res obtain errs' where "res' = Some (st, errs')" and "errs = [] \<longrightarrow> errs' = []"
      by (auto simp: closing_error_def split: if_splits)
    with fin show ?thesis by (auto simp: csv_source.finished_def)
  qed
  ultimately show ?thesis
    using fin fine ev by (simp add: csv_source.finished_def)
qed

text \<open>A file of one row, read by a run of one event whose first publish attempt times out.\<close>

definition demo_file :: "raw list" where
  "demo_file = [Fields headers, Fields [''t'', ''util'', ''0'', ''nvidia0'', ''g'', ''H100'', ''h'', [], [], [], ''v'', []]]"

definition demo_syntax :: csv_syntax where
  "demo_syntax = \<lparr>cx_time = (\<lambda>s. Some (unix_time 1000000)), cx_float = (\<lambda>s. Some (Finite 7)),
     cx_json = (\<lambda>m. Some ''{}'')\<rparr>"

definition demo_publish_attempt :: "event \<Rightarrow> nat \<Rightarrow> (client_error + unit) \<times> nat" where
  "demo_publish_attempt e n = (if n = 0 then Inl (Http_error 503 True) else Inr (), n + 1)"

definition demo_try :: try_in where
  "demo_try = \<lparr>ti_canceled = False, ti_jitter = (\<lambda>d. d), ti_wait = (\<lambda>d. None)\<rparr>"

definition demo_gen :: gen_in where
  "demo_gen = \<lparr>gi_stop = False, gi_now = unix_time 2000000, gi_wait = (\<lambda>d. False), gi_stop_failed = False,
     gi_stop_row = False, gi_stamp = unix_time 2000000, gi_after = unix_time 2000000,
     gi_tries = [demo_try, demo_try]\<rparr>"

definition demo_run_options :: run_options where
  "demo_run_options = \<lparr>ro_Rate = Finite 10, ro_Count = 1, ro_ShutdownTimeout = 1, ro_RetryMin = 100,
     ro_RetryMax = 2000, ro_ProducerID = ''p''\<rparr>"

definition demo_csv :: csv where
  "demo_csv = projr (OpenCSV (Some (True, 100, Some demo_file)))"

definition demo_run :: "(run_stats \<times> run_error list) option \<times> (csv \<times> nat) \<times> publish_log" where
  "demo_run = Streamer_Run (logged (csv_ports demo_syntax (\<lambda>w k. False) (\<lambda>w k. Some demo_file) (\<lambda>w. w)
     demo_publish_attempt)) demo_run_options None False [demo_gen] ((demo_csv, 0), [])"

lemma demo_run_log:
  "map (\<lambda>x. (e_EventID (fst x), snd x)) (snd (snd demo_run)) = [(''p:0:1'', False), (''p:0:1'', True)]"
  by code_simp

theorem streamer_publishes_once_witness:
  "distinct (map e_EventID (accepted (snd (snd demo_run)))) \<and> accepted (snd (snd demo_run)) \<noteq> []"
proof -
  have opened: "OpenCSV (Some (True, 100, Some demo_file)) = Inr demo_csv"
    unfolding demo_csv_def by code_simp
  have fit: "files_fit (\<lambda>(w :: nat) (k :: nat). Some demo_file)" by (simp add: files_fit_def demo_file_def)
  have run: "Streamer_Run (logged (csv_ports demo_syntax (\<lambda>w k. False) (\<lambda>w k. Some demo_file) (\<lambda>w. w)
     demo_publish_attempt)) demo_run_options None False [demo_gen] ((demo_csv, 0), [])
      = (fst demo_run, fst (snd demo_run), snd (snd demo_run))"
    by (simp add: demo_run_def)
  have "distinct (map e_EventID (accepted (snd (snd demo_run))))"
    using streamer_publishes_once [OF opened fit _ _ run] by (simp add: demo_file_def)
  moreover obtain x y where "snd (snd demo_run) = [x, y]" and "snd y"
    using demo_run_log by (auto simp: map_eq_Cons_conv)
  ultimately show ?thesis by (simp add: accepted_def)
qed

end
