(* ===== verification/Testconsumer.thy ===== *)
theory Testconsumer
  imports Config
begin

text \<open>
  internal/testconsumer/run.go: a consumer that writes the events it receives and acknowledges
  or rejects them. Its client and its output are the record \<open>consumer_ports\<close>.
\<close>

record 'w consumer_ports =
  cp_Receive :: "'w \<Rightarrow> (client_error + event option) \<times> 'w"
  cp_Lease :: "int \<Rightarrow> 'w \<Rightarrow> (client_error + delivery option) \<times> 'w"
  cp_Ack :: "ack_request \<Rightarrow> 'w \<Rightarrow> (client_error + unit) \<times> 'w"
  cp_Nack :: "nack_request \<Rightarrow> 'w \<Rightarrow> (client_error + unit) \<times> 'w"
  cp_Encode :: "event \<Rightarrow> 'w \<Rightarrow> bool \<times> 'w"

datatype consumer_error = Consumer_context queue_error | Consumer_client client_error | Output_error

text \<open>
  One iteration: the context at the head, the outcomes of the idle wait and of the processing
  delay, and of the waits between the attempts at the receipt.
\<close>

record consume_in =
  cn_ctx :: "queue_error option"
  cn_idle :: "queue_error option"
  cn_delay :: "int \<Rightarrow> queue_error option"
  cn_receipts :: "queue_error option list"

definition consumer_nack :: "consumer_config \<Rightarrow> string \<Rightarrow> string \<Rightarrow> nack_request" where
  "consumer_nack c eid token =
     \<lparr>n_EventID = eid, n_Token = token, n_Permanent = (tc_Action c = ''quarantine''),
      n_DelayMillis = (if tc_Action c = ''retry'' then tc_RetryDelay c div Millisecond else 0),
      n_Reason = tc_Reason c\<rparr>"

fun receipt_loop :: "('w \<Rightarrow> (client_error + unit) \<times> 'w) \<Rightarrow> queue_error option list \<Rightarrow> 'w \<Rightarrow>
    (consumer_error + unit) option \<times> 'w" where
  "receipt_loop send [] w = (None, w)"
| "receipt_loop send (x # xs) w =
     (case send w of
        (Inr _, w') \<Rightarrow> (Some (Inr ()), w')
      | (Inl err, w') \<Rightarrow>
          if \<not> Retryable err then (Some (Inl (Consumer_client err)), w')
          else (case x of
              Some e \<Rightarrow> (Some (Inl (Consumer_context e)), w')
            | None \<Rightarrow> receipt_loop send xs w'))"

text \<open>What is received: the event and, in durable mode, the token of its lease.\<close>

definition receive_one :: "consumer_config \<Rightarrow> 'w consumer_ports \<Rightarrow> 'w \<Rightarrow>
    (client_error + (event \<times> string) option) \<times> 'w" where
  "receive_one c P w =
     (if tc_Mode c = ''memory''
      then (case cp_Receive P w of (r, w') \<Rightarrow> (sbind r (\<lambda>x. Inr (map_option (\<lambda>e. (e, [])) x)), w'))
      else (case cp_Lease P (tc_LeaseWait c) w of
          (r, w') \<Rightarrow> (sbind r (\<lambda>x. Inr (map_option (\<lambda>d. (d_Event d, d_Token d)) x)), w')))"

text \<open>\<open>None\<close> is a run whose inputs are used up; \<open>n\<close> counts the events received.\<close>

fun Consume :: "consumer_config \<Rightarrow> 'w consumer_ports \<Rightarrow> consume_in list \<Rightarrow> u64 \<Rightarrow> 'w \<Rightarrow>
    (u64 \<times> consumer_error option) option \<times> 'w" where
  "Consume c P [] n w = (if n < tc_Count c then None else Some (n, None), w)"
| "Consume c P (x # xs) n w =
     (if \<not> n < tc_Count c then (Some (n, None), w)
      else case cn_ctx x of
          Some e \<Rightarrow> (Some (n, Some (Consumer_context e)), w)
        | None \<Rightarrow>
            (case receive_one c P w of
               (Inl err, w1) \<Rightarrow>
                 if \<not> Retryable err then (Some (n, Some (Consumer_client err)), w1)
                 else (case cn_idle x of
                     Some e \<Rightarrow> (Some (n, Some (Consumer_context e)), w1)
                   | None \<Rightarrow> Consume c P xs n w1)
             | (Inr None, w1) \<Rightarrow>
                 (case cn_idle x of
                     Some e \<Rightarrow> (Some (n, Some (Consumer_context e)), w1)
                   | None \<Rightarrow> Consume c P xs n w1)
             | (Inr (Some (e, token)), w1) \<Rightarrow>
                 (case (if tc_ProcessingDelay c > 0 then cn_delay x (tc_ProcessingDelay c) else None) of
                    Some err \<Rightarrow> (Some (n, Some (Consumer_context err)), w1)
                  | None \<Rightarrow>
                      (case cp_Encode P e w1 of
                         (False, w2) \<Rightarrow> (Some (n, Some Output_error), w2)
                       | (True, w2) \<Rightarrow>
                           if tc_Mode c = ''memory'' then Consume c P xs (n + 1) w2
                           else if tc_Action c = ''noack'' then (Some (n + 1, None), w2)
                           else (case receipt_loop
                                   (if tc_Action c = ''ack''
                                    then cp_Ack P \<lparr>a_EventID = e_EventID e, a_Token = token\<rparr>
                                    else cp_Nack P (consumer_nack c (e_EventID e) token))
                                   (cn_receipts x) w2 of
                               (None, w3) \<Rightarrow> (None, w3)
                             | (Some (Inl err), w3) \<Rightarrow> (Some (n, Some err), w3)
                             | (Some (Inr _), w3) \<Rightarrow> Consume c P xs (n + 1) w3)))))"

definition Consumer_Run :: "consumer_config \<Rightarrow> 'w consumer_ports \<Rightarrow> consume_in list \<Rightarrow> 'w \<Rightarrow>
    (u64 \<times> consumer_error option) option \<times> 'w" where
  "Consumer_Run c P xs w = Consume c P xs 0 w"

text \<open>An accepted configuration never makes a NACK the broker refuses as malformed.\<close>

lemma consumer_nack_ok: "\<not> bad_consumer c \<Longrightarrow> \<not> bad_nack (consumer_nack c eid token)"
  by (auto simp: bad_consumer_def bad_nack_def consumer_nack_def unit_defs)

text \<open>The count never exceeds its target, and a run without error reached it.\<close>

lemma Consume_count:
  assumes "Consume c P xs n w = (Some (m, err), w')" and "n \<le> tc_Count c"
  shows "m \<le> tc_Count c \<and> (err = None \<longrightarrow> tc_Action c \<noteq> ''noack'' \<or> tc_Mode c = ''memory'' \<longrightarrow> m = tc_Count c)"
  using assms
proof (induction xs arbitrary: n w)
  case (Cons x xs)
  show ?case
  proof (cases "n < tc_Count c")
    case True
    then have "n + 1 \<le> tc_Count c" by (rule inc_le)
    with True Cons.prems show ?thesis
      by (auto split: if_splits option.splits prod.splits sum.splits bool.splits dest!: Cons.IH)
  qed (use Cons.prems in \<open>simp add: not_less\<close>)
qed (auto split: if_splits)

end
