(* ===== verification/Services.thy ===== *)
theory Services
  imports Runner Logging Pool Durable_Broker Memory Collector Streamer Testconsumer Api
begin

text \<open>
  cmd: the programs themselves, from the command line to the exit status. What each acquires and
  releases, prints and does to its server is the list of effects of its run; the functions of
  package internal it calls are those of the other theories. Operating system, HTTP server and
  signals are inputs.
\<close>

section \<open>Processes\<close>

text \<open>
  What a program acquires. A signal handler (\<open>Signals\<close>) and the contexts are released by a function
  that may be called again; \<open>repeatable\<close> says so. \<open>Cleanup_worker\<close> and \<open>Shutdown_watcher\<close> are
  goroutines that are waited for.
\<close>

datatype resource = Signals | Request_context | Timeout_context | Publish_context
  | Http_client | Db_pool | Broker_db | Cleanup_worker | Csv_file | Shutdown_watcher | Listener

definition repeatable :: "resource \<Rightarrow> bool" where
  "repeatable r \<longleftrightarrow> r \<in> {Signals, Request_context, Timeout_context, Publish_context}"

datatype effect =
  Opened resource
| Closed resource
| Listening
| Broker_stopped
| Ran
| Http_shutdown
| Http_closed
| Printed string

record 's process =
  ps_effects :: "effect list"
  ps_state :: 's

datatype service_error =
  Config_failed config_error
| Level_error
| Broker_failed queue_error
| Memory_refused
| Client_refused
| Pool_failed open_error
| Listen_error
| Serve_error
| Shutdown_error
| Collector_failed client_error
| Streamer_failed run_error
| Source_failed source_error
| Consumer_failed consumer_error
| No_database_url
| Migration_failed
| Unexpected_operands
| Generator_failed
| Spec_unreadable
| Spec_stale
| Spec_unwritable

text \<open>A run ends with the errors \<^verbatim>\<open>errors.Join\<close> collected, none when it succeeds.\<close>

type_synonym ('s, 'a) program = "('s process, service_error list, 'a) act"

definition emitA :: "effect \<Rightarrow> ('s, unit) program" where
  "emitA x w = (Inr (), w\<lparr>ps_effects := ps_effects w @ [x]\<rparr>)"

definition stateA :: "('s \<Rightarrow> 's) \<Rightarrow> ('s, unit) program" where
  "stateA f w = (Inr (), w\<lparr>ps_state := f (ps_state w)\<rparr>)"

definition failA :: "service_error list \<Rightarrow> ('s, unit) program" where
  "failA es = (if es = [] then ret () else throw es)"

definition step_error :: "('e \<Rightarrow> service_error) \<Rightarrow> 'e + 'a \<Rightarrow> ('s, 'a) program" where
  "step_error f r = checkA (case r of Inl e \<Rightarrow> Inl [f e] | Inr x \<Rightarrow> Inr x)"

definition step_none :: "service_error \<Rightarrow> 'a option \<Rightarrow> ('s, 'a) program" where
  "step_none e r = checkA (case r of None \<Rightarrow> Inl [e] | Some x \<Rightarrow> Inr x)"

text \<open>\<^verbatim>\<open>defer\<close>: the second part runs whatever the first returned; its errors are joined to those.\<close>

definition finallyA :: "('s, 'a) program \<Rightarrow> ('s, unit) program \<Rightarrow> ('s, 'a) program" where
  "finallyA m final w = (case m w of (r, w1) \<Rightarrow>
     (case final w1 of
        (Inr _, w2) \<Rightarrow> (r, w2)
      | (Inl es, w2) \<Rightarrow> (Inl ((case r of Inl es0 \<Rightarrow> es0 | Inr _ \<Rightarrow> []) @ es), w2)))"

definition usingA :: "resource \<Rightarrow> ('s, 'a) program \<Rightarrow> ('s, 'a) program" where
  "usingA r m = bindA (emitA (Opened r)) (\<lambda>_. finallyA m (emitA (Closed r)))"

text \<open>The exit status of \<^verbatim>\<open>main\<close>: asking for help is no failure.\<close>

definition exit_status :: "service_error list + 'a \<Rightarrow> int" where
  "exit_status r = (case r of
     Inr _ \<Rightarrow> 0
   | Inl es \<Rightarrow> if Config_failed (Flag_error Help_requested) \<in> set es then 0 else 1)"

text \<open>
  What a process meets: its arguments and environment, \<^verbatim>\<open>url.Parse\<close>, whether it gets its port, and
  its HTTP server: \<open>ht_ended\<close> is what ends the wait, \<open>None\<close> a signal, \<open>Some shut\<close> the server,
  \<open>shut\<close> when its error is \<^verbatim>\<open>ErrServerClosed\<close>; then whether \<^verbatim>\<open>Shutdown\<close> succeeds in time and
  whether \<^verbatim>\<open>Serve\<close> returned \<^verbatim>\<open>ErrServerClosed\<close>.
\<close>

record http_in =
  ht_ended :: "bool option"
  ht_shutdown :: bool
  ht_served :: bool

record proc_in =
  pi_args :: "string list"
  pi_env :: "string \<rightharpoonup> string"
  pi_values :: value_syntax
  pi_url :: "string \<Rightarrow> url option"
  pi_listen :: bool
  pi_http :: http_in

definition http_errors :: "http_in \<Rightarrow> service_error list" where
  "http_errors h = (if ht_shutdown h then [] else [Shutdown_error]) @ (if ht_served h then [] else [Serve_error])"

definition listenA :: "proc_in \<Rightarrow> ('s, unit) program" where
  "listenA i =
     bindA (checkA (if pi_listen i then Inr () else Inl [Listen_error])) (\<lambda>_. emitA (Opened Listener))"

text \<open>
  \<^verbatim>\<open>Serve\<close> closes its listener before it returns (documented in net/http); the programs wait for it
  to return. The end of a server that stopped by itself, and of one that was shut down.
\<close>

definition served :: "('s, unit) program" where
  "served = emitA (Closed Listener)"

definition server_ended :: "bool \<Rightarrow> ('s, unit) program" where
  "server_ended shut = bindA served (\<lambda>_. if shut then ret () else throw [Serve_error])"

section \<open>cmd/queue\<close>

datatype 'db queue_store = No_store | Durable_store "'db broker" | Memory_store memory

text \<open>
  The inputs of \<^verbatim>\<open>OpenDurable\<close>, what requests and the cleanup do to the queue up to the moment the
  process stops it (the operation that then holds the gate included), what requests still in
  progress do after that, and the error of closing the database.
\<close>

record 'db queue_in =
  qi_dir :: "queue_error option"
  qi_opened :: "queue_error + 'db"
  qi_fault :: "queue_error option"
  qi_serving :: "'db queue_store \<Rightarrow> 'db queue_store"
  qi_draining :: "'db queue_store \<Rightarrow> 'db queue_store"
  qi_close :: "queue_error option"

definition on_durable :: "('db broker \<Rightarrow> 'db broker) \<Rightarrow> 'db queue_store \<Rightarrow> 'db queue_store" where
  "on_durable f s = (case s of Durable_store d \<Rightarrow> Durable_store (f d) | _ \<Rightarrow> s)"

definition stop_broker :: "('db queue_store, unit) program" where
  "stop_broker w = (case ps_state w of
     Durable_store d \<Rightarrow> bindA (stateA (on_durable Stop)) (\<lambda>_. emitA Broker_stopped) w
   | _ \<Rightarrow> (Inr (), w))"

definition close_broker :: "queue_error option \<Rightarrow> ('db queue_store, unit) program" where
  "close_broker err =
     bindA (stateA (on_durable Close)) (\<lambda>_.
     bindA (emitA (Closed Cleanup_worker)) (\<lambda>_.
     bindA (emitA (Closed Broker_db)) (\<lambda>_.
     failA (case err of None \<Rightarrow> [] | Some e \<Rightarrow> [Broker_failed e]))))"

text \<open>
  \<^verbatim>\<open>OpenDurable\<close> with what it acquires: when the first transaction fails, the database it has just
  opened is closed again, otherwise the goroutine of the cleanup starts.
\<close>

definition OpenDurable_run :: "'db env \<Rightarrow> durable_options \<Rightarrow> queue_error option \<Rightarrow> queue_error + 'db \<Rightarrow>
    queue_error option \<Rightarrow> ('s, 'db broker) program" where
  "OpenDurable_run E p dir opened fault =
     bindA (step_error Broker_failed (Options_Validate p)) (\<lambda>_.
     bindA (case dir of None \<Rightarrow> ret () | Some e \<Rightarrow> throw [Broker_failed e]) (\<lambda>_.
     bindA (step_error Broker_failed opened) (\<lambda>db.
     bindA (emitA (Opened Broker_db)) (\<lambda>_.
     case sbind (open_tx E db) (\<lambda>db'. case fault of Some e \<Rightarrow> Inl e | None \<Rightarrow> Inr db') of
       Inl e \<Rightarrow> bindA (emitA (Closed Broker_db)) (\<lambda>_. throw [Broker_failed e])
     | Inr db' \<Rightarrow> bindA (emitA (Opened Cleanup_worker)) (\<lambda>_.
         ret \<lparr>b_db = db', b_opts = p, b_stopped = False, b_notify = False, b_closed = False,
              b_cleanupFailures = 0\<rparr>)))))"

lemma OpenDurable_run_result:
  "fst (OpenDurable_run E p dir opened fault w) =
     (case OpenDurable E p dir opened fault of Inl e \<Rightarrow> Inl [Broker_failed e] | Inr d \<Rightarrow> Inr d)"
  "OpenDurable E p dir opened fault = Inr d \<Longrightarrow> OpenDurable_run E p dir opened fault w =
     (Inr d, w\<lparr>ps_effects := ps_effects w @ [Opened Broker_db, Opened Cleanup_worker]\<rparr>)"
  by (auto simp: OpenDurable_run_def OpenDurable_def bindA_def step_error_def checkA_def ret_def throw_def
      emitA_def sbind_def split: sum.splits option.splits)

definition queue_serve :: "proc_in \<Rightarrow> 'db queue_in \<Rightarrow> ('db queue_store, unit) program" where
  "queue_serve i q =
     bindA (listenA i) (\<lambda>_.
     usingA Signals (
       bindA (emitA Listening) (\<lambda>_.
       bindA (stateA (qi_serving q)) (\<lambda>_.
       case ht_ended (pi_http i) of
         Some shut \<Rightarrow> server_ended shut
       | None \<Rightarrow>
           bindA stop_broker (\<lambda>_.
           usingA Timeout_context (
             bindA (emitA Http_shutdown) (\<lambda>_.
             bindA (stateA (qi_draining q)) (\<lambda>_.
             bindA (if ht_shutdown (pi_http i) then ret () else emitA Http_closed) (\<lambda>_.
             bindA served (\<lambda>_.
             failA (http_errors (pi_http i))))))))))))"

definition queue_run :: "'db env \<Rightarrow> proc_in \<Rightarrow> 'db queue_in \<Rightarrow> ('db queue_store, unit) program" where
  "queue_run E i q =
     bindA (step_error Config_failed (ParseQueue (pi_values i) (pi_args i))) (\<lambda>c.
     bindA (step_none Level_error (New_logger (cm_LogLevel (qc_Common c)))) (\<lambda>_.
     if qc_Mode c = ''durable'' then
       bindA (OpenDurable_run E (qc_Durable c) (qi_dir q) (qi_opened q) (qi_fault q)) (\<lambda>d.
       bindA (stateA (\<lambda>_. Durable_store d)) (\<lambda>_.
       finallyA (queue_serve i q) (close_broker (qi_close q))))
     else
       bindA (step_none Memory_refused (NewMemory (qc_Capacity c) (qc_DedupCapacity c) (qc_DedupTTL c))) (\<lambda>m.
       bindA (stateA (\<lambda>_. Memory_store m)) (\<lambda>_. queue_serve i q))))"

section \<open>cmd/collector\<close>

text \<open>
  \<open>ci_run\<close> is a run of the collector: the failures it returns and what it does outside. The goroutine
  that serves reports the end of the server and then calls \<^verbatim>\<open>stop\<close> itself: before the run ends when
  the server does (\<open>ht_ended\<close>), otherwise after the shutdown, if it comes to it before the exit
  (\<open>ci_stops\<close>).
\<close>

record ('r, 'w) collector_in =
  ci_parse :: "string \<Rightarrow> 'r pool_config option"
  ci_start :: "'r pool_config \<Rightarrow> bool"
  ci_run :: "collector_config \<Rightarrow> client \<Rightarrow> 'w \<Rightarrow> client_error list \<times> 'w"
  ci_stops :: bool

definition serve_ends :: "bool \<Rightarrow> ('s, unit) program" where
  "serve_ends stops = bindA served (\<lambda>_. if stops then emitA (Closed Signals) else ret ())"

definition collector_program :: "proc_in \<Rightarrow> ('r, 'w) collector_in \<Rightarrow> ('w, unit) program" where
  "collector_program i x =
     bindA (step_error Config_failed (ParseCollector (pi_values i) (pi_env i) (pi_args i))) (\<lambda>c.
     bindA (step_none Level_error (New_logger (cc_LogLevel c))) (\<lambda>_.
     usingA Signals (
       bindA (step_none Client_refused (New_client (cc_QueueURL c) (pi_url i (cc_QueueURL c)) (cc_HTTPTimeout c))) (\<lambda>cl.
       usingA Http_client (
         bindA (step_error Pool_failed (Pool_Open (ci_parse x) (ci_start x) (cc_DatabaseURL c) (int32 (cc_PoolMax c)))) (\<lambda>_.
         usingA Db_pool (
           bindA (listenA i) (\<lambda>_.
           bindA (emitA Listening) (\<lambda>_.
           bindA (if ht_ended (pi_http i) = None then ret () else serve_ends True) (\<lambda>_ w0.
             case ci_run x c cl (ps_state w0) of (failures, w) \<Rightarrow>
             bindA (stateA (\<lambda>_. w)) (\<lambda>_.
             bindA (emitA Ran) (\<lambda>_.
             bindA (emitA (Closed Signals)) (\<lambda>_.
             usingA Timeout_context (
               bindA (emitA Http_shutdown) (\<lambda>_.
               bindA (if ht_shutdown (pi_http i) then ret () else emitA Http_closed) (\<lambda>_.
               bindA (if ht_ended (pi_http i) = None then serve_ends (ci_stops x) else ret ()) (\<lambda>_.
               failA (map Collector_failed failures @ http_errors (pi_http i))))))))) w0))))))))))"

section \<open>cmd/api\<close>

record 'r api_in =
  ai_parse :: "string \<Rightarrow> 'r pool_config option"
  ai_start :: "'r pool_config \<Rightarrow> bool"

definition api_program :: "proc_in \<Rightarrow> 'r api_in \<Rightarrow> (unit, unit) program" where
  "api_program i x =
     bindA (step_error Config_failed (ParseAPI (pi_values i) (pi_env i) (pi_args i))) (\<lambda>c.
     bindA (step_none Level_error (New_logger (ac_LogLevel c))) (\<lambda>_.
     usingA Signals (
       bindA (step_error Pool_failed
         (Pool_OpenReadOnly (ai_parse x) (ai_start x) (ac_DatabaseURL c) (int32 (ac_PoolMax c)))) (\<lambda>_.
       usingA Db_pool (
         usingA Request_context (
           bindA (listenA i) (\<lambda>_.
           bindA (emitA Listening) (\<lambda>_.
           case ht_ended (pi_http i) of
             Some shut \<Rightarrow> server_ended shut
           | None \<Rightarrow>
               usingA Timeout_context (
                 bindA (emitA Http_shutdown) (\<lambda>_.
                 bindA (if ht_shutdown (pi_http i) then ret ()
                        else bindA (emitA (Closed Request_context)) (\<lambda>_. emitA Http_closed)) (\<lambda>_.
                 bindA served (\<lambda>_.
                 failA (http_errors (pi_http i))))))))))))))"

section \<open>cmd/testconsumer\<close>

text \<open>The run of the consumer with its count and error, and whether a signal arrived.\<close>

record 'w consumer_in =
  ti_run :: "consumer_config \<Rightarrow> client \<Rightarrow> 'w \<Rightarrow> (u64 \<times> consumer_error option) \<times> 'w"
  ti_signaled :: bool

definition consumer_canceled :: "consumer_error \<Rightarrow> bool" where
  "consumer_canceled err = (case err of
     Consumer_context Canceled \<Rightarrow> True
   | Consumer_client (Context_error Canceled) \<Rightarrow> True
   | _ \<Rightarrow> False)"

definition consumer_program :: "proc_in \<Rightarrow> 'w consumer_in \<Rightarrow> ('w, unit) program" where
  "consumer_program i x =
     bindA (step_error Config_failed (ParseConsumer (pi_values i) (pi_args i))) (\<lambda>c.
     bindA (step_none Level_error (New_logger (tc_LogLevel c))) (\<lambda>_.
     bindA (step_none Client_refused (New_client (tc_QueueURL c) (pi_url i (tc_QueueURL c)) (tc_HTTPTimeout c))) (\<lambda>cl.
     usingA Http_client (
       usingA Signals (
         usingA Timeout_context (\<lambda>w0.
           case ti_run x c cl (ps_state w0) of ((received, err), w) \<Rightarrow>
           bindA (stateA (\<lambda>_. w)) (\<lambda>_.
           bindA (emitA Ran) (\<lambda>_.
           failA (case err of
               None \<Rightarrow> []
             | Some e \<Rightarrow> if consumer_canceled e \<and> ti_signaled x then [] else [Consumer_failed e]))) w0))))))"

section \<open>cmd/streamer\<close>

text \<open>
  \<^verbatim>\<open>OpenCSV\<close> with the file it opens: \<open>found\<close> tells whether \<^verbatim>\<open>os.Open\<close> succeeds; whatever is wrong with
  the file then, it is closed again.
\<close>

definition OpenCSV_run :: "bool \<Rightarrow> (bool \<times> int \<times> raw list option) option \<Rightarrow> ('s, csv) program" where
  "OpenCSV_run found opened =
     bindA (checkA (if found then Inr () else Inl [Source_failed Source_io])) (\<lambda>_.
     bindA (emitA (Opened Csv_file)) (\<lambda>_.
     case OpenCSV opened of
       Inl e \<Rightarrow> bindA (emitA (Closed Csv_file)) (\<lambda>_. throw [Source_failed e])
     | Inr source \<Rightarrow> ret source))"

text \<open>
  \<^verbatim>\<open>Runner.Run\<close> with the resources it owns: whatever it returns, it has closed its source, then its
  client. \<open>loop\<close> is the loop over the rows, \<open>expired\<close> tells whether the watcher canceled the publish
  context before the loop ended; on the way out that context is canceled, again then, and the
  watcher is joined.
\<close>

definition Runner_Run :: "run_options \<Rightarrow> bytes option \<Rightarrow> bool \<Rightarrow> bool \<Rightarrow>
    (run_options \<Rightarrow> 'w \<Rightarrow> (run_stats \<times> run_error list) \<times> 'w) \<Rightarrow> ('w, run_stats) program" where
  "Runner_Run p rnd closing expired loop =
     finallyA (
       finallyA (
         if bad_run_options p then throw [Streamer_failed Bad_run_options]
         else bindA (step_none (Streamer_failed Id_error)
             (if ro_ProducerID p = [] then NewID rnd else Some (ro_ProducerID p))) (\<lambda>producer.
           bindA (emitA (Opened Publish_context)) (\<lambda>_.
           bindA (emitA (Opened Shutdown_watcher)) (\<lambda>_.
           finallyA (\<lambda>w0.
             case loop (p\<lparr>ro_ProducerID := producer\<rparr>) (ps_state w0) of ((stats, errs), w) \<Rightarrow>
             bindA (stateA (\<lambda>_. w)) (\<lambda>_.
             bindA (emitA Ran) (\<lambda>_.
             bindA (if expired then emitA (Closed Publish_context) else ret ()) (\<lambda>_.
             bindA (failA (map Streamer_failed errs)) (\<lambda>_. ret stats)))) w0)
           (bindA (emitA (Closed Publish_context)) (\<lambda>_. emitA (Closed Shutdown_watcher)))))))
       (bindA (emitA (Closed Csv_file)) (\<lambda>_. failA (if closing then [Streamer_failed Close_error] else []))))
     (emitA (Closed Http_client))"

text \<open>The loop of a run that ends, as \<open>generate\<close> has it: then it is the function \<open>Streamer_Run\<close>.\<close>

definition run_loop :: "'w ports \<Rightarrow> gen_in list \<Rightarrow> run_options \<Rightarrow> 'w \<Rightarrow> (run_stats \<times> run_error list) \<times> 'w" where
  "run_loop P xs p w = (case generate P p xs zero_time zero_run_stats w of
     (res, w') \<Rightarrow> (case res of Some x \<Rightarrow> x | None \<Rightarrow> (zero_run_stats, []), w'))"

lemma Runner_Run_result:
  assumes "Streamer_Run P p rnd closing xs (ps_state v) = (Some (st, errs), w)"
  shows "fst (Runner_Run p rnd closing expired (run_loop P xs) v) = (if errs = [] then Inr st else Inl (map Streamer_failed errs))
    \<and> ps_state (snd (Runner_Run p rnd closing expired (run_loop P xs) v)) = w"
  using assms
  by (auto simp: Streamer_Run_def Runner_Run_def run_loop_def Let_def finallyA_def bindA_def step_none_def checkA_def
      throw_def ret_def emitA_def stateA_def failA_def split: if_splits option.splits prod.splits)

text \<open>The file, as it is found, and the parts of the run.\<close>

record 'w streamer_in =
  xi_found :: "string \<Rightarrow> bool"
  xi_opened :: "string \<Rightarrow> (bool \<times> int \<times> raw list option) option"
  xi_random :: "bytes option"
  xi_closing :: bool
  xi_expired :: bool
  xi_loop :: "csv \<Rightarrow> client \<Rightarrow> run_options \<Rightarrow> 'w \<Rightarrow> (run_stats \<times> run_error list) \<times> 'w"

definition streamer_program :: "proc_in \<Rightarrow> 'w streamer_in \<Rightarrow> ('w, run_stats) program" where
  "streamer_program i x =
     bindA (step_error Config_failed (ParseStreamer (pi_values i) (pi_args i))) (\<lambda>c.
     bindA (step_none Level_error (New_logger (cm_LogLevel (sc_Common c)))) (\<lambda>_.
     bindA (OpenCSV_run (xi_found x (sc_CSV c)) (xi_opened x (sc_CSV c))) (\<lambda>source.
     case New_client (sc_QueueURL c) (pi_url i (sc_QueueURL c)) (sc_HTTPTimeout c) of
       None \<Rightarrow> bindA (emitA (Closed Csv_file)) (\<lambda>_. throw [Client_refused])
     | Some cl \<Rightarrow>
         bindA (emitA (Opened Http_client)) (\<lambda>_.
         usingA Signals
           (Runner_Run (run_options_of c) (xi_random x) (xi_closing x) (xi_expired x) (xi_loop x source cl))))))"

section \<open>cmd/migrate\<close>

record 'r migrate_in =
  gi_parse :: "string \<Rightarrow> 'r pool_config option"
  gi_start :: "'r pool_config \<Rightarrow> bool"
  gi_sha :: "bytes \<Rightarrow> string"
  gi_script :: "bytes option"
  gi_step :: migration_in

definition migrate_program :: "(string \<rightharpoonup> string) \<Rightarrow> 'r migrate_in \<Rightarrow> (schema, unit) program" where
  "migrate_program env x =
     (if Getenv env ''DATABASE_URL'' = [] then throw [No_database_url]
      else usingA Timeout_context (
        bindA (step_error Pool_failed (Pool_Open (gi_parse x) (gi_start x) (Getenv env ''DATABASE_URL'') 1)) (\<lambda>_.
        usingA Db_pool (\<lambda>w0.
          case Apply (gi_sha x) (gi_script x) (gi_step x) (ps_state w0) of (r, db) \<Rightarrow>
          bindA (stateA (\<lambda>_. db)) (\<lambda>_.
            if r = Inr () then emitA (Printed ''migration 001 applied or already current'')
            else throw [Migration_failed]) w0))))"

section \<open>cmd/openapi\<close>

text \<open>
  The files by name, \<open>None\<close> when there is none or it cannot be read. \<open>spec\<close> is the document
  generated from the routes, \<open>None\<close> when that fails; \<open>broken\<close> is what a failing write leaves of the
  file, \<open>None\<close> when it does not fail.
\<close>

record openapi_flags =
  of_check :: bool
  of_output :: string

definition openapi_program :: "openapi_flags \<Rightarrow> string list \<Rightarrow> bytes option \<Rightarrow> bytes option option \<Rightarrow>
    (string \<rightharpoonup> bytes, unit) program" where
  "openapi_program flags operands spec broken =
     (if operands \<noteq> [] then throw [Unexpected_operands]
      else bindA (step_none Generator_failed spec) (\<lambda>b.
        if of_check flags then (\<lambda>w.
          (case ps_state w (of_output flags) of
             None \<Rightarrow> throw [Spec_unreadable]
           | Some old \<Rightarrow> if old \<noteq> b then throw [Spec_stale] else emitA (Printed ''OpenAPI is current'')) w)
        else case broken of
            None \<Rightarrow> stateA (\<lambda>files. files(of_output flags \<mapsto> b))
          | Some left \<Rightarrow> bindA (stateA (\<lambda>files. files(of_output flags := left))) (\<lambda>_. throw [Spec_unwritable])))"

section \<open>The exit statuses\<close>

definition with_status :: "(service_error list + 'a \<Rightarrow> int) \<Rightarrow> ('s, 'a) program \<Rightarrow> 's process \<Rightarrow> int \<times> 's process" where
  "with_status status m w = (case m w of (r, w') \<Rightarrow> (status r, w'))"

text \<open>The programs whose flags are not parsed by package config have no help to exempt.\<close>

definition plain_status :: "service_error list + 'a \<Rightarrow> int" where
  "plain_status r = (case r of Inr _ \<Rightarrow> 0 | Inl _ \<Rightarrow> 1)"

definition queue_main :: "'db env \<Rightarrow> proc_in \<Rightarrow> 'db queue_in \<Rightarrow> 'db queue_store process \<Rightarrow> int \<times> 'db queue_store process" where
  "queue_main E i q = with_status exit_status (queue_run E i q)"

definition collector_main :: "proc_in \<Rightarrow> ('r, 'w) collector_in \<Rightarrow> 'w process \<Rightarrow> int \<times> 'w process" where
  "collector_main i x = with_status exit_status (collector_program i x)"

definition api_main :: "proc_in \<Rightarrow> 'r api_in \<Rightarrow> unit process \<Rightarrow> int \<times> unit process" where
  "api_main i x = with_status exit_status (api_program i x)"

definition consumer_main :: "proc_in \<Rightarrow> 'w consumer_in \<Rightarrow> 'w process \<Rightarrow> int \<times> 'w process" where
  "consumer_main i x = with_status exit_status (consumer_program i x)"

definition streamer_main :: "proc_in \<Rightarrow> 'w streamer_in \<Rightarrow> 'w process \<Rightarrow> int \<times> 'w process" where
  "streamer_main i x = with_status exit_status (streamer_program i x)"

definition migrate_main :: "(string \<rightharpoonup> string) \<Rightarrow> 'r migrate_in \<Rightarrow> schema process \<Rightarrow> int \<times> schema process" where
  "migrate_main env x = with_status plain_status (migrate_program env x)"

definition openapi_main :: "openapi_flags \<Rightarrow> string list \<Rightarrow> bytes option \<Rightarrow> bytes option option \<Rightarrow>
    (string \<rightharpoonup> bytes) process \<Rightarrow> int \<times> (string \<rightharpoonup> bytes) process" where
  "openapi_main flags operands spec broken = with_status plain_status (openapi_program flags operands spec broken)"

lemma with_status_zero:
  "with_status exit_status m w = (0, w') \<Longrightarrow>
     \<exists>r. m w = (r, w') \<and> (\<forall>es. r = Inl es \<longrightarrow> Config_failed (Flag_error Help_requested) \<in> set es)"
  by (auto simp: with_status_def exit_status_def split: prod.splits sum.splits if_splits)

lemma plain_status_zero: "with_status plain_status m w = (0, w') \<longleftrightarrow> (\<exists>x. m w = (Inr x, w'))"
  by (auto simp: with_status_def plain_status_def split: prod.splits sum.splits)

text \<open>
  The generator: a check never changes a file and succeeds only when the file is current; after a
  successful generation it succeeds.
\<close>

lemma openapi_check:
  assumes "of_check flags" and "openapi_main flags operands spec broken w = (n, w')"
  shows "ps_state w' = ps_state w \<and> (n = 0 \<longleftrightarrow> operands = [] \<and> spec \<noteq> None \<and> ps_state w (of_output flags) = spec)"
  using assms
  by (auto simp: openapi_main_def openapi_program_def with_status_def plain_status_def bindA_def step_none_def
      checkA_def throw_def emitA_def split: if_splits option.splits)

lemma openapi_generate:
  assumes "openapi_main (flags\<lparr>of_check := False\<rparr>) operands spec broken w = (0, w')"
  shows "fst (openapi_main (flags\<lparr>of_check := True\<rparr>) operands spec broken' w') = 0"
  using assms
  by (auto simp: openapi_main_def openapi_program_def with_status_def plain_status_def bindA_def step_none_def
      checkA_def throw_def emitA_def stateA_def split: if_splits option.splits)

end
