(* ===== verification/Services_Safety.thy ===== *)
theory Services_Safety
  imports Services Collector_Safety Durable_Spec "HOL-Library.Multiset"
begin

text \<open>
  What holds of every run of the programs: resources are released, a stopped queue keeps what it
  had confirmed, a migrated database makes the other programs ready.
\<close>

section \<open>Resources\<close>

text \<open>
  What is held after some effects, and what has been released before; \<open>None\<close> when something is
  released that is not held, except that a repeatable release may come again.
\<close>

type_synonym holdings = "resource multiset \<times> resource set"

fun held :: "effect list \<Rightarrow> holdings \<Rightarrow> holdings option" where
  "held [] h = Some h"
| "held (Opened r # xs) (now, past) = held xs (add_mset r now, past)"
| "held (Closed r # xs) (now, past) =
     (if r \<in># now then held xs (now - {#r#}, insert r past)
      else if repeatable r \<and> r \<in> past then held xs (now, past)
      else None)"
| "held (x # xs) h = held xs h"

definition all_released :: "effect list \<Rightarrow> bool" where
  "all_released xs \<longleftrightarrow> (case held xs ({#}, {}) of None \<Rightarrow> False | Some (now, past) \<Rightarrow> now = {#})"

lemma held_append: "held (xs @ ys) h = (case held xs h of None \<Rightarrow> None | Some h' \<Rightarrow> held ys h')"
  by (induction xs h rule: held.induct) auto

text \<open>What a repeatable release is not is released exactly as often as it is acquired.\<close>

lemma held_counts:
  assumes "held xs (now, past) = Some (now', past')" and "\<not> repeatable r"
  shows "count now r + count_list xs (Opened r) = count now' r + count_list xs (Closed r)"
  using assms(1)
proof (induction xs arbitrary: now past)
  case (Cons x xs)
  show ?case
  proof (cases x)
    case (Opened q)
    with Cons.prems have "held xs (add_mset q now, past) = Some (now', past')" by simp
    from Cons.IH [OF this] Opened show ?thesis by auto
  next
    case (Closed q)
    show ?thesis
    proof (cases "q \<in># now")
      case True
      with Cons.prems Closed have "held xs (now - {#q#}, insert q past) = Some (now', past')" by simp
      from Cons.IH [OF this] have "count (now - {#q#}) r + count_list xs (Opened r)
          = count now' r + count_list xs (Closed r)" .
      moreover have "count now q = Suc (count (now - {#q#}) q)" using True by simp
      ultimately show ?thesis using Closed by (cases "q = r") simp_all
    next
      case False
      with Cons.prems Closed have "repeatable q" and "held xs (now, past) = Some (now', past')"
        by (auto split: if_splits)
      with Cons.IH [OF this(2)] Closed assms(2) show ?thesis by auto
    qed
  qed (use Cons in auto)
qed simp

lemma released_once:
  "all_released xs \<Longrightarrow> \<not> repeatable r \<Longrightarrow> count_list xs (Closed r) = count_list xs (Opened r)"
  by (auto simp: all_released_def dest: held_counts split: option.splits)

text \<open>
  \<open>owns (a, K) h\<close>: of the resources that are released once exactly those in \<open>a\<close> are held; of the
  others each in \<open>K\<close> has been acquired and may have been released, and no other one is held.
\<close>

type_synonym owned = "resource multiset \<times> resource set"

definition owns :: "owned \<Rightarrow> holdings \<Rightarrow> bool" where
  "owns A h = (case (A, h) of ((a, K), (now, past)) \<Rightarrow>
     \<forall>r. if repeatable r
         then count now r \<le> (if r \<in> K then 1 else 0) \<and> (r \<in> K \<longrightarrow> r \<in># now \<or> r \<in> past)
         else count now r = count a r)"

lemma ownsI:
  assumes "\<And>r. \<not> repeatable r \<Longrightarrow> count now r = count a r"
    and "\<And>r. repeatable r \<Longrightarrow> r \<notin> K \<Longrightarrow> count now r = 0"
    and "\<And>r. repeatable r \<Longrightarrow> r \<in> K \<Longrightarrow> count now r \<le> 1 \<and> (r \<in># now \<or> r \<in> past)"
  shows "owns (a, K) (now, past)"
  using assms by (simp add: owns_def)

lemma ownsD:
  assumes "owns (a, K) (now, past)"
  shows "\<not> repeatable r \<Longrightarrow> count now r = count a r"
    and "repeatable r \<Longrightarrow> r \<notin> K \<Longrightarrow> count now r = 0"
    and "repeatable r \<Longrightarrow> r \<in> K \<Longrightarrow> count now r \<le> 1 \<and> (r \<in># now \<or> r \<in> past)"
proof -
  from assms have "\<forall>r. if repeatable r
         then count now r \<le> (if r \<in> K then 1 else 0) \<and> (r \<in> K \<longrightarrow> r \<in># now \<or> r \<in> past)
         else count now r = count a r" by (simp add: owns_def)
  note * = spec [OF this, of r]
  show "\<not> repeatable r \<Longrightarrow> count now r = count a r" using * by simp
  show "repeatable r \<Longrightarrow> r \<notin> K \<Longrightarrow> count now r = 0" using * by simp
  show "repeatable r \<Longrightarrow> r \<in> K \<Longrightarrow> count now r \<le> 1 \<and> (r \<in># now \<or> r \<in> past)" using * by simp
qed

text \<open>\<open>holds A m B C\<close>: started owning \<open>A\<close>, \<open>m\<close> ends owning \<open>B\<close>, or \<open>C\<close> when it fails.\<close>

definition holds :: "owned \<Rightarrow> ('s, 'a) program \<Rightarrow> owned \<Rightarrow> owned \<Rightarrow> bool" where
  "holds A m B C \<longleftrightarrow> (\<forall>w. \<exists>ys. ps_effects (snd (m w)) = ps_effects w @ ys
     \<and> (\<forall>h. owns A h \<longrightarrow> (\<exists>h'. held ys h = Some h' \<and> owns (if isl (fst (m w)) then C else B) h')))"

lemma holdsI:
  assumes "\<And>w. \<exists>ys. ps_effects (snd (m w)) = ps_effects w @ ys
     \<and> (\<forall>h. owns A h \<longrightarrow> (\<exists>h'. held ys h = Some h' \<and> owns (if isl (fst (m w)) then C else B) h'))"
  shows "holds A m B C"
  using assms by (simp add: holds_def)

lemma holdsE:
  assumes "holds A m B C" and "m w = (r, w')"
  obtains ys where "ps_effects w' = ps_effects w @ ys"
    and "\<And>h. owns A h \<Longrightarrow> \<exists>h'. held ys h = Some h' \<and> owns (if isl r then C else B) h'"
proof -
  from assms(1) obtain ys where "ps_effects (snd (m w)) = ps_effects w @ ys"
    and "\<forall>h. owns A h \<longrightarrow> (\<exists>h'. held ys h = Some h' \<and> owns (if isl (fst (m w)) then C else B) h')"
    unfolding holds_def by blast
  note ys = this [unfolded assms(2) fst_conv snd_conv]
  show ?thesis by (rule that [OF ys(1)]) (use ys(2) in blast)
qed

lemma holds_bind:
  assumes "holds A m B C" and "\<And>x. holds B (f x) D C"
  shows "holds A (bindA m f) D C"
proof (rule holdsI)
  fix w
  obtain r w1 where m: "m w = (r, w1)" by fastforce
  from holdsE [OF assms(1) m] obtain ys where ys: "ps_effects w1 = ps_effects w @ ys"
    "\<And>h. owns A h \<Longrightarrow> \<exists>h'. held ys h = Some h' \<and> owns (if isl r then C else B) h'" by blast
  show "\<exists>ys. ps_effects (snd (bindA m f w)) = ps_effects w @ ys
     \<and> (\<forall>h. owns A h \<longrightarrow> (\<exists>h'. held ys h = Some h' \<and> owns (if isl (fst (bindA m f w)) then C else D) h'))"
  proof (cases r)
    case (Inl e)
    with ys m show ?thesis by (auto simp: bindA_def)
  next
    case (Inr x)
    obtain r' w2 where f: "f x w1 = (r', w2)" by fastforce
    from holdsE [OF assms(2) f] obtain zs where zs: "ps_effects w2 = ps_effects w1 @ zs"
      "\<And>h. owns B h \<Longrightarrow> \<exists>h'. held zs h = Some h' \<and> owns (if isl r' then C else D) h'" by blast
    have run: "bindA m f w = (r', w2)" using m f Inr by (simp add: bindA_def)
    have "\<exists>h'. held (ys @ zs) h = Some h' \<and> owns (if isl r' then C else D) h'" if "owns A h" for h
      using ys(2) [OF that] zs(2) Inr by (auto simp: held_append)
    with ys(1) zs(1) run show ?thesis by (intro exI [of _ "ys @ zs"]) simp
  qed
qed

text \<open>After a deferred part it no longer matters how the rest ended.\<close>

lemma holds_finally:
  assumes "holds A m B B" and "holds B final C C"
  shows "holds A (finallyA m final) C C"
proof (rule holdsI)
  fix w
  obtain r w1 where m: "m w = (r, w1)" by fastforce
  obtain r' w2 where f: "final w1 = (r', w2)" by fastforce
  from holdsE [OF assms(1) m] obtain ys where ys: "ps_effects w1 = ps_effects w @ ys"
    "\<And>h. owns A h \<Longrightarrow> \<exists>h'. held ys h = Some h' \<and> owns B h'" by (metis (full_types))
  from holdsE [OF assms(2) f] obtain zs where zs: "ps_effects w2 = ps_effects w1 @ zs"
    "\<And>h. owns B h \<Longrightarrow> \<exists>h'. held zs h = Some h' \<and> owns C h'" by (metis (full_types))
  have "snd (finallyA m final w) = w2" using m f by (simp add: finallyA_def split: sum.split)
  moreover have "\<exists>h'. held (ys @ zs) h = Some h' \<and> owns C h'" if "owns A h" for h
    using ys(2) [OF that] zs(2) by (auto simp: held_append)
  ultimately show "\<exists>ys. ps_effects (snd (finallyA m final w)) = ps_effects w @ ys
     \<and> (\<forall>h. owns A h \<longrightarrow> (\<exists>h'. held ys h = Some h'
          \<and> owns (if isl (fst (finallyA m final w)) then C else C) h'))"
    using ys(1) zs(1) by (intro exI [of _ "ys @ zs"]) simp
qed

lemma holds_pure:
  "holds A (ret x) A C" "holds A (throw e) B A" "holds A (checkA y) A A" "holds A (stateA f) A C"
  "holds A (failA es) A A" "holds A (step_error g r) A A" "holds A (step_none e' o') A A"
  by (auto intro!: holdsI simp: ret_def throw_def checkA_def stateA_def failA_def step_error_def step_none_def)

lemma holds_emit: "(case x of Opened _ \<Rightarrow> False | Closed _ \<Rightarrow> False | _ \<Rightarrow> True) \<Longrightarrow> holds A (emitA x) A C"
  by (auto intro!: holdsI simp: emitA_def split: effect.splits)

lemma holds_effect:
  assumes "\<And>now past. owns (a, K) (now, past) \<Longrightarrow> \<exists>h'. held [x] (now, past) = Some h' \<and> owns B h'"
  shows "holds (a, K) (emitA x) B C"
proof (rule holdsI)
  fix w :: "'s process"
  show "\<exists>ys. ps_effects (snd (emitA x w)) = ps_effects w @ ys
     \<and> (\<forall>h. owns (a, K) h \<longrightarrow> (\<exists>h'. held ys h = Some h' \<and> owns (if isl (fst (emitA x w)) then C else B) h'))"
    using assms by (intro exI [of _ "[x]"]) (simp add: emitA_def del: held.simps)
qed

lemma holds_open:
  "\<not> repeatable r \<Longrightarrow> holds (a, K) (emitA (Opened r)) (add_mset r a, K) C"
  "repeatable r \<Longrightarrow> r \<notin> K \<Longrightarrow> holds (a, K) (emitA (Opened r)) (a, insert r K) C"
proof -
  show "holds (a, K) (emitA (Opened r)) (add_mset r a, K) C" if "\<not> repeatable r"
  proof (rule holds_effect)
    fix now past
    assume own: "owns (a, K) (now, past)"
    note d = ownsD [OF own]
    have "owns (add_mset r a, K) (add_mset r now, past)"
      using that d(1) d(2) d(3) by (intro ownsI) auto
    then show "\<exists>h'. held [Opened r] (now, past) = Some h' \<and> owns (add_mset r a, K) h'" by simp
  qed
  show "holds (a, K) (emitA (Opened r)) (a, insert r K) C" if "repeatable r" "r \<notin> K"
  proof (rule holds_effect)
    fix now past
    assume own: "owns (a, K) (now, past)"
    note d = ownsD [OF own]
    have "owns (a, insert r K) (add_mset r now, past)"
      using that d(1,2) d(3) by (intro ownsI) auto
    then show "\<exists>h'. held [Opened r] (now, past) = Some h' \<and> owns (a, insert r K) h'" by simp
  qed
qed

lemma holds_close:
  "\<not> repeatable r \<Longrightarrow> r \<in># a \<Longrightarrow> holds (a, K) (emitA (Closed r)) (a - {#r#}, K) C"
  "repeatable r \<Longrightarrow> r \<in> K \<Longrightarrow> holds (a, K) (emitA (Closed r)) (a, K) C"
  "repeatable r \<Longrightarrow> r \<notin> K \<Longrightarrow> holds (a, insert r K) (emitA (Closed r)) (a, K) C"
proof -
  have left: "q \<in># now - {#r#} \<longleftrightarrow> q \<in># now" if "q \<noteq> r" for q and now :: "resource multiset"
    using that by (simp add: in_diff_count)
  have again: "\<exists>h'. held [Closed r] (now, past) = Some h' \<and> owns (a, L) h'"
    if "repeatable r" "r \<in> M" and own: "owns (a, M) (now, past)" and L: "L = M \<or> L = M - {r}" for L M now past
  proof -
    note d = ownsD [OF own]
    have "owns (a, L) (now - {#r#}, insert r past)"
      using that(1,2) L d(1) d(2) d(3) by (intro ownsI) (auto simp: left diff_le_mono)
    moreover have "owns (a, L) (now, past)" if "r \<notin># now" and "r \<in> past"
      using that \<open>repeatable r\<close> L d(1) d(2) d(3) by (intro ownsI) (auto simp: not_in_iff)
    ultimately show ?thesis using d(3) [OF that(1,2)] that(1) by auto
  qed
  show "holds (a, K) (emitA (Closed r)) (a - {#r#}, K) C" if "\<not> repeatable r" and "r \<in># a"
  proof (rule holds_effect)
    fix now past
    assume own: "owns (a, K) (now, past)"
    note d = ownsD [OF own]
    have "0 < count now r" using that d(1) by simp
    moreover have "owns (a - {#r#}, K) (now - {#r#}, insert r past)"
      using that d(1) d(2) d(3) by (intro ownsI) (auto simp: left)
    ultimately show "\<exists>h'. held [Closed r] (now, past) = Some h' \<and> owns (a - {#r#}, K) h'" by simp
  qed
  show "holds (a, K) (emitA (Closed r)) (a, K) C" if "repeatable r" and "r \<in> K"
    by (rule holds_effect) (rule again [OF that], simp_all)
  show "holds (a, insert r K) (emitA (Closed r)) (a, K) C" if "repeatable r" and "r \<notin> K"
    by (rule holds_effect) (rule again [OF that(1)], use that(2) in auto)
qed

lemma holds_once:
  assumes "holds (add_mset r a, K) m (add_mset r b, L) (add_mset r b, L)" and "\<not> repeatable r"
  shows "holds (a, K) (usingA r m) (b, L) (b, L)"
  unfolding usingA_def
  by (rule holds_bind [OF holds_open(1) holds_finally [OF assms(1)]])
    (use assms(2) holds_close(1) [of r "add_mset r b" L] in simp_all)

lemma holds_again:
  assumes "holds (a, insert r K) m (b, insert r L) (b, insert r L)"
    and "repeatable r" and "r \<notin> K" and "r \<notin> L"
  shows "holds (a, K) (usingA r m) (b, L) (b, L)"
  unfolding usingA_def
  by (rule holds_bind [OF holds_open(2) holds_finally [OF assms(1)]]) (use assms(2-4) holds_close(3) in simp_all)

lemma holds_if: "(p \<Longrightarrow> holds A m B C) \<Longrightarrow> (\<not> p \<Longrightarrow> holds A m' B C) \<Longrightarrow> holds A (if p then m else m') B C"
  by simp

text \<open>A part that depends on the state it starts in.\<close>

lemma holds_at: "(\<And>w. \<exists>m. f w = m w \<and> holds A m B C) \<Longrightarrow> holds A f B C"
  unfolding holds_def by (metis (no_types, lifting))

lemma holds_run:
  assumes "\<And>x y. holds A (m x y) B C"
  shows "holds A (\<lambda>w. case g w of (x, y) \<Rightarrow> m x y w) B C"
  by (rule holds_at, rule exI [of _ "m (fst (g w)) (snd (g w))" for w]) (simp add: assms split_beta)

lemma holds_run3:
  assumes "\<And>x y z. holds A (m x y z) B C"
  shows "holds A (\<lambda>w. case g w of ((x, y), z) \<Rightarrow> m x y z w) B C"
  by (rule holds_at, rule exI [of _ "m (fst (fst (g w))) (snd (fst (g w))) (snd (g w))" for w])
    (simp add: assms split_beta)

lemma holds_released:
  assumes "holds ({#}, {}) m ({#}, {}) ({#}, {})"
  shows "all_released (ps_effects (snd (m \<lparr>ps_effects = [], ps_state = s\<rparr>)))"
proof -
  let ?w = "\<lparr>ps_effects = [], ps_state = s\<rparr>"
  from holdsE [OF assms surjective_pairing, of ?w] obtain ys
    where ys: "ps_effects (snd (m ?w)) = ps_effects ?w @ ys"
      and h: "\<And>h. owns ({#}, {}) h \<Longrightarrow> \<exists>h'. held ys h = Some h' \<and> owns ({#}, {}) h'" by (metis (full_types))
  have "owns ({#}, {}) ({#}, {})" by (simp add: owns_def)
  with h obtain now past where run: "held ys ({#}, {}) = Some (now, past)" and own: "owns ({#}, {}) (now, past)"
    by (metis surj_pair)
  have "count now r = 0" for r using ownsD(1,2) [OF own, of r] by (cases "repeatable r") simp_all
  then have "now = {#}" by (simp add: multiset_eq_iff)
  with ys run show ?thesis by (simp add: all_released_def)
qed

section \<open>The programs\<close>

lemma holds_listen: "holds (a, K) (listenA i) (add_mset Listener a, K) (a, K)"
  unfolding listenA_def by (rule holds_bind [OF holds_pure(3) holds_open(1)]) (simp add: repeatable_def)

lemma holds_served: "holds (add_mset Listener a, K) served (a, K) C"
  unfolding served_def using holds_close(1) [of Listener "add_mset Listener a" K] by (simp add: repeatable_def)

lemma holds_ended: "holds (add_mset Listener a, K) (server_ended shut) (a, K) (a, K)"
  unfolding server_ended_def by (rule holds_bind [OF holds_served]) (cases shut; simp add: holds_pure)

lemma holds_shut: "holds A (if x then ret () else emitA Http_closed) A C"
  by (simp add: holds_pure holds_emit)

lemma queue_serve_holds:
  assumes "K \<inter> {Signals, Timeout_context} = {}"
  shows "holds (a, K) (queue_serve i q) (a, K) (a, K)"
proof -
  have stop: "holds A stop_broker A C" for A C
    by (rule holdsI) (auto simp: stop_broker_def bindA_def stateA_def emitA_def split: queue_store.splits)
  have drain: "holds (add_mset Listener a, L) (bindA (emitA Http_shutdown) (\<lambda>_. bindA (stateA g) (\<lambda>_.
      bindA (if x then ret () else emitA Http_closed) (\<lambda>_. bindA served (\<lambda>_. failA es))))) (a, L) (a, L)"
    for L g x es
    by (rule holds_bind [OF holds_emit], simp, rule holds_bind [OF holds_pure(4)], rule holds_bind [OF holds_shut],
        rule holds_bind [OF holds_served], rule holds_pure(5))
  have signals: "Signals \<notin> K" "Timeout_context \<notin> insert Signals K" using assms by auto
  show ?thesis unfolding queue_serve_def
  proof (rule holds_bind [OF holds_listen], rule holds_again, goal_cases)
    case 1
    show ?case
    proof (rule holds_bind [OF holds_emit], simp, rule holds_bind [OF holds_pure(4)], cases "ht_ended (pi_http i)")
      case None
      show "holds (add_mset Listener a, insert Signals K) (case ht_ended (pi_http i) of
          None \<Rightarrow> bindA stop_broker (\<lambda>_. usingA Timeout_context (bindA (emitA Http_shutdown) (\<lambda>_.
            bindA (stateA (qi_draining q)) (\<lambda>_. bindA (if ht_shutdown (pi_http i) then ret () else emitA Http_closed) (\<lambda>_.
            bindA served (\<lambda>_. failA (http_errors (pi_http i))))))))
        | Some shut \<Rightarrow> server_ended shut) (a, insert Signals K) (a, insert Signals K)"
        unfolding None option.case
        by (rule holds_bind [OF stop], rule holds_again [OF drain _ signals(2) signals(2)])
          (simp add: repeatable_def)
    qed (simp add: holds_ended)
  qed (use signals in \<open>simp_all add: repeatable_def\<close>)
qed

lemma OpenDurable_holds:
  "holds ({#}, {}) (OpenDurable_run E p dir opened fault) ({#Cleanup_worker, Broker_db#}, {}) ({#}, {})"
proof -
  have closed: "holds ({#Broker_db#}, {}) (bindA (emitA (Closed Broker_db)) (\<lambda>_. throw e)) B ({#}, {})" for e B
    by (rule holds_bind [where B = "({#}, {})"])
      (use holds_close(1) [of Broker_db "{#Broker_db#}" "{}"] in \<open>simp_all add: repeatable_def holds_pure\<close>)
  have worker: "holds ({#Broker_db#}, {}) (bindA (emitA (Opened Cleanup_worker)) (\<lambda>_. ret d))
      ({#Cleanup_worker, Broker_db#}, {}) C" for d C
    by (rule holds_bind [OF holds_open(1)]) (simp_all add: repeatable_def holds_pure)
  show ?thesis unfolding OpenDurable_run_def
    by (intro holds_bind [OF holds_pure(6)] holds_bind [OF holds_open(1)] holds_bind [where B = "({#}, {})"])
      (auto simp: repeatable_def holds_pure closed worker split: option.split sum.split)
qed

lemma queue_run_holds: "holds ({#}, {}) (queue_run E i q) ({#}, {}) ({#}, {})"
proof -
  have close: "holds ({#Cleanup_worker, Broker_db#}, {}) (close_broker e) ({#}, {}) ({#}, {})" for e
    unfolding close_broker_def
    by (rule holds_bind [OF holds_pure(4)], rule holds_bind [OF holds_close(1)], simp_all add: repeatable_def,
        rule holds_bind [OF holds_close(1)], simp_all add: repeatable_def holds_pure)
  show ?thesis unfolding queue_run_def
    by (intro holds_bind [OF holds_pure(6)] holds_bind [OF holds_pure(7)] holds_if holds_bind [OF OpenDurable_holds]
        holds_bind [OF holds_pure(4)] holds_finally [OF queue_serve_holds close] queue_serve_holds) simp_all
qed

lemma collector_program_holds: "holds ({#}, {}) (collector_program i x) ({#}, {}) ({#}, {})"
proof -
  let ?a = "{#Db_pool, Http_client#}"
  have ends: "holds (add_mset Listener a, K) (serve_ends stops) (a, K) C" if "Signals \<in> K" for a K C stops
    unfolding serve_ends_def
    by (rule holds_bind [OF holds_served], rule holds_if, rule holds_close(2)) (simp_all add: that repeatable_def holds_pure)
  have tail: "holds (b, {Signals}) (\<lambda>w0. case g w0 of (failures, w) \<Rightarrow>
      bindA (stateA (\<lambda>_. w)) (\<lambda>_. bindA (emitA Ran) (\<lambda>_. bindA (emitA (Closed Signals)) (\<lambda>_.
      usingA Timeout_context (bindA (emitA Http_shutdown) (\<lambda>_. bindA (if y then ret () else emitA Http_closed) (\<lambda>_.
      bindA m (\<lambda>_. failA (es failures)))))))) w0) (?a, {Signals}) (?a, {Signals})"
    if m: "holds (b, {Timeout_context, Signals}) m (?a, {Timeout_context, Signals}) (?a, {Timeout_context, Signals})"
    for b y and m :: "('a, unit) program" and g :: "'a process \<Rightarrow> client_error list \<times> 'a" and es
    by (rule holds_run, rule holds_bind [OF holds_pure(4)], rule holds_bind [OF holds_emit], simp,
        rule holds_bind [OF holds_close(2)], simp add: repeatable_def, simp, rule holds_again,
        rule holds_bind [OF holds_emit], simp, rule holds_bind [OF holds_shut], rule holds_bind [OF m],
        rule holds_pure(5), simp_all add: repeatable_def)
  have body: "holds (add_mset Listener ?a, {Signals})
      (bindA (if ht_ended (pi_http i) = None then ret () else serve_ends True) (\<lambda>_ w0. case g w0 of (failures, w) \<Rightarrow>
      bindA (stateA (\<lambda>_. w)) (\<lambda>_. bindA (emitA Ran) (\<lambda>_. bindA (emitA (Closed Signals)) (\<lambda>_.
      usingA Timeout_context (bindA (emitA Http_shutdown) (\<lambda>_. bindA (if y then ret () else emitA Http_closed) (\<lambda>_.
      bindA (if ht_ended (pi_http i) = None then serve_ends stops else ret ()) (\<lambda>_. failA (es failures)))))))) w0))
      (?a, {Signals}) (?a, {Signals})"
    for y stops and g :: "'a process \<Rightarrow> client_error list \<times> 'a" and es
  proof (cases "ht_ended (pi_http i) = None")
    case True
    show ?thesis unfolding if_P [OF True] by (rule holds_bind [OF holds_pure(1)], rule tail, rule ends) simp
  next
    case False
    show ?thesis unfolding if_not_P [OF False] by (rule holds_bind [OF ends], simp, rule tail, rule holds_pure(1))
  qed
  show ?thesis unfolding collector_program_def
    by (rule holds_bind [OF holds_pure(6)], rule holds_bind [OF holds_pure(7)], rule holds_again,
        rule holds_bind [OF holds_pure(7)], rule holds_once, rule holds_bind [OF holds_pure(6)], rule holds_once,
        rule holds_bind [OF holds_listen], rule holds_bind [OF holds_emit], simp, rule body, simp_all add: repeatable_def)
qed

lemma api_program_holds: "holds ({#}, {}) (api_program i x) ({#}, {}) ({#}, {})"
proof -
  let ?K = "{Request_context, Signals}"
  have cancel: "holds (a, insert Timeout_context ?K) (if y then ret () else
      bindA (emitA (Closed Request_context)) (\<lambda>_. emitA Http_closed)) (a, insert Timeout_context ?K) C" for a y C
    by (rule holds_if, rule holds_pure(1), rule holds_bind [OF holds_close(2)], simp_all add: repeatable_def holds_emit)
  have body: "holds (add_mset Listener a, ?K) (case ht_ended (pi_http i) of
      None \<Rightarrow> usingA Timeout_context (bindA (emitA Http_shutdown) (\<lambda>_.
        bindA (if y then ret () else bindA (emitA (Closed Request_context)) (\<lambda>_. emitA Http_closed)) (\<lambda>_.
        bindA served (\<lambda>_. failA es))))
    | Some shut \<Rightarrow> server_ended shut) (a, ?K) (a, ?K)" for a y es
  proof (cases "ht_ended (pi_http i)")
    case None
    show ?thesis unfolding None option.case
      by (rule holds_again, rule holds_bind [OF holds_emit], simp, rule holds_bind [OF cancel],
        rule holds_bind [OF holds_served], rule holds_pure(5), simp_all add: repeatable_def)
  qed (simp add: holds_ended)
  show ?thesis unfolding api_program_def
    by (rule holds_bind [OF holds_pure(6)], rule holds_bind [OF holds_pure(7)], rule holds_again,
        rule holds_bind [OF holds_pure(6)], rule holds_once, rule holds_again, rule holds_bind [OF holds_listen],
        rule holds_bind [OF holds_emit], simp, rule body, simp_all add: repeatable_def)
qed

lemma consumer_program_holds: "holds ({#}, {}) (consumer_program i x) ({#}, {}) ({#}, {})"
  unfolding consumer_program_def
  by (rule holds_bind [OF holds_pure(6)], rule holds_bind [OF holds_pure(7)], rule holds_bind [OF holds_pure(7)],
      rule holds_once, rule holds_again, rule holds_again, rule holds_run3, rule holds_bind [OF holds_pure(4)],
      rule holds_bind [OF holds_emit], simp, rule holds_pure(5), simp_all add: repeatable_def)

lemma migrate_program_holds: "holds ({#}, {}) (migrate_program env x) ({#}, {}) ({#}, {})"
  unfolding migrate_program_def
  by (rule holds_if, rule holds_pure(2), rule holds_again, rule holds_bind [OF holds_pure(6)], rule holds_once,
      rule holds_run, rule holds_bind [OF holds_pure(4)], rule holds_if, rule holds_emit, simp, rule holds_pure(2),
      simp_all add: repeatable_def)

text \<open>The streamer: the file and the client are closed by the part that owns them at that moment.\<close>

lemma holds_close_file: "holds (add_mset Csv_file a, K) (emitA (Closed Csv_file)) (a, K) C"
  using holds_close(1) [of Csv_file "add_mset Csv_file a" K] by (simp add: repeatable_def)

lemma OpenCSV_holds: "holds ({#}, {}) (OpenCSV_run found opened) ({#Csv_file#}, {}) ({#}, {})"
  unfolding OpenCSV_run_def
  by (rule holds_bind [OF holds_pure(3)], rule holds_bind [OF holds_open(1)], simp add: repeatable_def)
    (auto intro!: holds_bind [OF holds_close_file] holds_pure split: sum.split)

lemma Runner_holds:
  assumes "Publish_context \<notin> K"
  shows "holds ({#Csv_file, Http_client#}, K) (Runner_Run p rnd closing expired loop) ({#}, K) ({#}, K)"
proof -
  let ?a = "{#Csv_file, Http_client#}" and ?P = "insert Publish_context K"
  have leave: "holds (add_mset Shutdown_watcher ?a, ?P)
      (bindA (emitA (Closed Publish_context)) (\<lambda>_. emitA (Closed Shutdown_watcher))) (?a, K) (?a, K)"
    using assms holds_close(1) [of Shutdown_watcher "add_mset Shutdown_watcher ?a" K]
    by (intro holds_bind [OF holds_close(3)]) (simp_all add: repeatable_def)
  have cancel: "holds (a, ?P) (if expired then emitA (Closed Publish_context) else ret ()) (a, ?P) C" for a C
    by (simp add: holds_pure holds_close(2) repeatable_def)
  have run: "holds (add_mset Shutdown_watcher ?a, ?P) (\<lambda>w0. case g w0 of ((stats, errs), w) \<Rightarrow>
      bindA (stateA (\<lambda>_. w)) (\<lambda>_. bindA (emitA Ran) (\<lambda>_.
      bindA (if expired then emitA (Closed Publish_context) else ret ()) (\<lambda>_.
      bindA (failA (map Streamer_failed errs)) (\<lambda>_. ret stats)))) w0)
      (add_mset Shutdown_watcher ?a, ?P) (add_mset Shutdown_watcher ?a, ?P)"
    for g :: "'a process \<Rightarrow> (run_stats \<times> run_error list) \<times> 'a"
    by (rule holds_run3, rule holds_bind [OF holds_pure(4)], rule holds_bind [OF holds_emit], simp,
        rule holds_bind [OF cancel], rule holds_bind [OF holds_pure(5)], rule holds_pure(1))
  have close: "holds (?a, K) (bindA (emitA (Closed Csv_file)) (\<lambda>_. failA es)) ({#Http_client#}, K) ({#Http_client#}, K)"
    for es by (rule holds_bind [OF holds_close_file holds_pure(5)])
  have closed: "holds ({#Http_client#}, K) (emitA (Closed Http_client)) ({#}, K) ({#}, K)"
    using holds_close(1) [of Http_client "{#Http_client#}" K] by (simp add: repeatable_def)
  show ?thesis unfolding Runner_Run_def
    by (rule holds_finally [OF holds_finally [OF _ close] closed], rule holds_if, rule holds_pure(2),
        rule holds_bind [OF holds_pure(7)], rule holds_bind [OF holds_open(2)], simp add: repeatable_def, rule assms,
        rule holds_bind [OF holds_open(1)], simp add: repeatable_def, rule holds_finally [OF run leave])
qed

lemma streamer_program_holds: "holds ({#}, {}) (streamer_program i x) ({#}, {}) ({#}, {})"
proof -
  have refused: "holds ({#Csv_file#}, {}) (bindA (emitA (Closed Csv_file)) (\<lambda>_. throw [Client_refused])) ({#}, {}) ({#}, {})"
    by (rule holds_bind [OF holds_close_file holds_pure(2)])
  have run: "holds ({#Csv_file#}, {}) (bindA (emitA (Opened Http_client)) (\<lambda>_. usingA Signals (Runner_Run p rnd closing expired loop)))
      ({#}, {}) ({#}, {})" for p rnd closing expired and loop :: "run_options \<Rightarrow> 'a \<Rightarrow> (run_stats \<times> run_error list) \<times> 'a"
  proof -
    have two: "add_mset Http_client {#Csv_file#} = {#Csv_file, Http_client#}" by (rule add_mset_commute)
    show ?thesis
      by (rule holds_bind [OF holds_open(1)], simp add: repeatable_def, unfold two, rule holds_again, rule Runner_holds)
        (simp_all add: repeatable_def)
  qed
  have client: "holds ({#Csv_file#}, {}) (case New_client u v t of
      None \<Rightarrow> bindA (emitA (Closed Csv_file)) (\<lambda>_. throw [Client_refused])
    | Some cl \<Rightarrow> bindA (emitA (Opened Http_client)) (\<lambda>_. usingA Signals (Runner_Run p rnd closing expired (loop cl))))
      ({#}, {}) ({#}, {})"
    for u v t p rnd closing expired and loop :: "client \<Rightarrow> run_options \<Rightarrow> 'a \<Rightarrow> (run_stats \<times> run_error list) \<times> 'a"
    by (cases "New_client u v t") (simp_all add: refused run)
  show ?thesis unfolding streamer_program_def
    by (rule holds_bind [OF holds_pure(6)], rule holds_bind [OF holds_pure(7)], rule holds_bind [OF OpenCSV_holds], rule client)
qed

text \<open>
  C36: every program releases what it acquires, on every path: whatever is wrong with the arguments,
  the log level, the file, the addresses, the database or the port, whatever its work returns
  and however its server, its watcher and its shutdown end. At the exit nothing is held; nothing
  was released before it was acquired; each file, database, connection pool, client, listener
  and awaited goroutine was released exactly as often as it was acquired, and only the release
  of a signal handler or a context may have been repeated.
\<close>

theorem services_release:
  "all_released (ps_effects (snd (queue_run E i q \<lparr>ps_effects = [], ps_state = s1\<rparr>)))
   \<and> all_released (ps_effects (snd (collector_program i c \<lparr>ps_effects = [], ps_state = s2\<rparr>)))
   \<and> all_released (ps_effects (snd (api_program i a \<lparr>ps_effects = [], ps_state = ()\<rparr>)))
   \<and> all_released (ps_effects (snd (consumer_program i t \<lparr>ps_effects = [], ps_state = s3\<rparr>)))
   \<and> all_released (ps_effects (snd (streamer_program i x \<lparr>ps_effects = [], ps_state = s4\<rparr>)))
   \<and> all_released (ps_effects (snd (migrate_program env g \<lparr>ps_effects = [], ps_state = s5\<rparr>)))"
  by (intro conjI holds_released queue_run_holds collector_program_holds api_program_holds consumer_program_holds
    streamer_program_holds migrate_program_holds)

section \<open>A stopped queue\<close>

text \<open>Requests and the cleanup, while the process has the database.\<close>

definition request_step :: "'db env \<Rightarrow> durable_options \<Rightarrow> 'db broker \<Rightarrow> 'db broker \<Rightarrow> bool" where
  "request_step E p d d' \<longleftrightarrow> (\<exists>l. broker_step E p d l d' \<and> l \<noteq> LRestart \<and> l \<noteq> LStop)"

abbreviation request_steps :: "'db env \<Rightarrow> durable_options \<Rightarrow> 'db broker \<Rightarrow> 'db broker \<Rightarrow> bool" where
  "request_steps E p \<equiv> (request_step E p)\<^sup>*\<^sup>*"

definition serves :: "'db env \<Rightarrow> durable_options \<Rightarrow> ('db queue_store \<Rightarrow> 'db queue_store) \<Rightarrow> bool" where
  "serves E p f \<longleftrightarrow> (\<forall>d. \<exists>d'. f (Durable_store d) = Durable_store d' \<and> request_steps E p d d')"

lemma servesE:
  assumes "serves E p f"
  obtains d' where "f (Durable_store d) = Durable_store d'" and "request_steps E p d d'"
  using assms unfolding serves_def by blast

text \<open>After \<open>Stop\<close> no operation gets through \<open>enter\<close>.\<close>

lemma enter_stopped: "b_stopped d \<Longrightarrow> \<exists>e. enter d i = Inl e"
  by (auto simp: enter_def split: option.split)

lemma update_stopped: "b_stopped d \<Longrightarrow> snd (update E d i f) = d"
  using enter_stopped [of d i] by (auto simp: update_def)

lemma lease_result_state:
  "snd (case u of (Inl ErrNoReady, v) \<Rightarrow> (Inr None, v) | (Inl err, v) \<Rightarrow> (Inl err, v)
      | (Inr x, v) \<Rightarrow> (Inr (Some x), v)) = snd u" for u :: "(queue_error + delivery) \<times> 'db broker"
  by (cases u) (simp split: sum.split queue_error.split)

lemma operations_stopped:
  assumes "b_stopped d"
  shows "snd (PublishContext E d i e) = d" and "snd (tryLease E d i) = d" and "snd (Ack E d i a) = d"
    and "snd (Nack E d i n) = d" and "snd (Cleanup E d i j) = d"
proof -
  show "snd (tryLease E d i) = d" unfolding tryLease_def lease_result_state by (rule update_stopped [OF assms])
qed (simp_all add: PublishContext_def Ack_def Nack_def Cleanup_def update_stopped [OF assms]
  split: sum.split option.split bool.split)

lemma request_stopped:
  assumes "request_step E p d d'" and stopped: "b_stopped d"
  shows "b_db d' = b_db d \<and> b_stopped d' \<and> b_closed d' = b_closed d"
proof -
  from assms(1) obtain l where step: "broker_step E p d l d'" and l: "l \<noteq> LRestart" "l \<noteq> LStop"
    unfolding request_step_def by blast
  have "d' = d \<or> d' = d\<lparr>b_notify := False\<rparr>"
    using step
  proof cases
    case (publish i e res)
    with operations_stopped(1) [OF stopped, of E i e] show ?thesis by simp
  next
    case (lease i res)
    with operations_stopped(2) [OF stopped, of E i] show ?thesis by simp
  next
    case (ack i a res)
    with operations_stopped(3) [OF stopped, of E i a] show ?thesis by simp
  next
    case (nack i n res)
    with operations_stopped(4) [OF stopped, of E i n] show ?thesis by simp
  next
    case (cleanup j i res)
    with operations_stopped(5) [OF stopped, of E i j] show ?thesis by simp
  qed (use l in simp_all)
  with stopped show ?thesis by auto
qed

lemma requests_stopped:
  assumes "request_steps E p d d'" and "b_stopped d"
  shows "b_db d' = b_db d \<and> b_stopped d' \<and> b_closed d' = b_closed d"
  using assms(1) by (induction rule: rtranclp_induct) (use assms(2) request_stopped in fastforce)+

text \<open>Only the process itself closes the database.\<close>

lemma operations_open:
  "b_closed (snd (update E d i f)) = b_closed d" "b_closed (snd (PublishContext E d i e)) = b_closed d"
  "b_closed (snd (tryLease E d i)) = b_closed d" "b_closed (snd (Ack E d i a)) = b_closed d"
  "b_closed (snd (Nack E d i n)) = b_closed d" "b_closed (snd (Cleanup E d i j)) = b_closed d"
proof -
  show "b_closed (snd (update E d i f)) = b_closed d" for i and f :: "'a tx \<Rightarrow> int \<Rightarrow> queue_error + 'b \<times> 'a tx"
    by (simp add: update_def signal_def split: sum.split option.split prod.split)
  show "b_closed (snd (tryLease E d i)) = b_closed d" unfolding tryLease_def lease_result_state
    by (simp add: update_def signal_def split: sum.split option.split prod.split)
qed (simp_all add: PublishContext_def Ack_def Nack_def Cleanup_def update_def signal_def
  split: sum.split option.split bool.split prod.split)

lemma request_open:
  assumes "request_step E p d d'"
  shows "b_closed d' = b_closed d"
proof -
  from assms obtain l where step: "broker_step E p d l d'" and l: "l \<noteq> LRestart" "l \<noteq> LStop"
    unfolding request_step_def by blast
  from step show ?thesis
  proof cases
    case (publish i e res)
    with operations_open(2) [of E d i e] show ?thesis by simp
  next
    case (lease i res)
    with operations_open(3) [of E d i] show ?thesis by simp
  next
    case (ack i a res)
    with operations_open(4) [of E d i a] show ?thesis by simp
  next
    case (nack i n res)
    with operations_open(5) [of E d i n] show ?thesis by simp
  next
    case (cleanup j i res)
    with operations_open(6) [of E d i j] show ?thesis by simp
  qed (use l in simp_all)
qed

lemma requests_open: "request_steps E p d d' \<Longrightarrow> b_closed d' = b_closed d"
  by (induction rule: rtranclp_induct) (simp_all add: request_open)

lemma requests_reachable:
  assumes "request_steps E p d d'" and "reachable E p d"
  shows "reachable E p d'"
  using assms(1)
proof (induction rule: rtranclp_induct)
  case (step d1 d2)
  then show ?case using reachable.stepped by (auto simp: request_step_def)
qed (rule assms(2))

lemmas program_defs = bindA_def usingA_def finallyA_def emitA_def stateA_def failA_def ret_def throw_def
  checkA_def listenA_def served_def server_ended_def step_error_def step_none_def

text \<open>Serving over: the outcome, and the broker the handlers leave.\<close>

definition served_ok :: "proc_in \<Rightarrow> bool" where
  "served_ok i \<longleftrightarrow> pi_listen i \<and> (case ht_ended (pi_http i) of
     Some shut \<Rightarrow> shut
   | None \<Rightarrow> ht_shutdown (pi_http i) \<and> ht_served (pi_http i))"

lemma queue_serve_run:
  assumes "queue_serve i q w = (r, w')" and "ps_state w = Durable_store d0"
    and "serves E p (qi_serving q)" and "serves E p (qi_draining q)"
  obtains d1 d2 where "request_steps E p d0 d1" and "ps_state w' = Durable_store d2" and "b_db d2 = b_db d1 \<and> b_closed d2 = b_closed d0"
    and "pi_listen i \<longrightarrow> qi_serving q (Durable_store d0) = Durable_store d1"
    and "r = Inr () \<longleftrightarrow> served_ok i" and "\<forall>es. r = Inl es \<longrightarrow> set es \<subseteq> {Listen_error, Serve_error, Shutdown_error}"
proof -
  from assms(3) obtain d1 where d1: "qi_serving q (Durable_store d0) = Durable_store d1" "request_steps E p d0 d1"
    by (rule servesE)
  from assms(4) obtain d2 where d2: "qi_draining q (Durable_store (Stop d1)) = Durable_store d2"
    "request_steps E p (Stop d1) d2" by (rule servesE)
  have same: "b_db d2 = b_db d1 \<and> b_closed d2 = b_closed d0" and kept: "b_closed d1 = b_closed d0"
    using requests_stopped [OF d2(2)] requests_open [OF d1(2)] by (simp_all add: Stop_def)
  note defs = queue_serve_def program_defs served_ok_def
  consider (busy) "\<not> pi_listen i" | (ended) shut where "pi_listen i" and "ht_ended (pi_http i) = Some shut"
    | (signaled) "pi_listen i" and "ht_ended (pi_http i) = None"
    by (cases "ht_ended (pi_http i)") auto
  then show ?thesis
  proof cases
    case busy
    with assms(1,2) that [of d0 d0] show ?thesis by (auto simp: defs)
  next
    case ended
    with assms(1,2) that [OF d1(2), of d1] d1(1) kept show ?thesis by (cases shut) (auto simp: defs)
  next
    case signaled
    with assms(1,2) that [OF d1(2), of d2] d1(1) d2(1) same show ?thesis
      by (cases "ht_shutdown (pi_http i)"; cases "ht_served (pi_http i)")
        (auto simp: defs stop_broker_def on_durable_def http_errors_def)
  qed
qed

text \<open>
  C34: a queue process keeps what it confirmed, however it ends. It opens the database of an earlier
  process with the records that process left. Whatever requests do then, and whatever ends it, a
  lost port, a failing server or a signal, the broker is stopped and closed at the exit; what it
  leaves is the database at the moment it was stopped, and requests still in progress during
  the shutdown no longer change it; the next process finds exactly these records. The exit
  status is 0 only if the server and the shutdown ended in order and the database closed.
\<close>

theorem queue_process:
  assumes "bolt_db E" and "reachable E p d"
    and "ParseQueue (pi_values i) (pi_args i) = Inr c" and "qc_Mode c = ''durable''" and "qc_Durable c = p"
    and "New_logger (cm_LogLevel (qc_Common c)) \<noteq> None"
    and "qi_dir q = None" and "qi_opened q = Inr (b_db d)" and "qi_fault q = None"
    and "OpenDurable E p None (Inr (b_db d)) None = Inr d0"
    and "serves E p (qi_serving q)" and "serves E p (qi_draining q)"
    and "queue_run E i q \<lparr>ps_effects = [], ps_state = s\<rparr> = (r, w)"
  shows "\<exists>d1 d'. recs E (b_db d0) = recs E (b_db d) \<and> request_steps E p d0 d1
    \<and> (pi_listen i \<longrightarrow> qi_serving q (Durable_store d0) = Durable_store d1)
    \<and> ps_state w = Durable_store d' \<and> b_stopped d' \<and> b_closed d' \<and> b_db d' = b_db d1
    \<and> (\<forall>d2. OpenDurable E p None (Inr (b_db d')) None = Inr d2 \<longrightarrow>
         recs E (b_db d2) = recs E (b_db d1) \<and> reachable E p d2)
    \<and> (exit_status r = 0 \<longleftrightarrow> served_ok i \<and> qi_close q = None)"
proof -
  let ?w0 = "\<lparr>ps_effects = [Opened Broker_db, Opened Cleanup_worker], ps_state = Durable_store d0\<rparr>"
  obtain r1 w1 where serve: "queue_serve i q ?w0 = (r1, w1)" by fastforce
  have "ps_state ?w0 = Durable_store d0" by simp
  from queue_serve_run [OF serve this assms(11,12)] obtain d1 d2
    where 1: "request_steps E p d0 d1" "ps_state w1 = Durable_store d2" "b_db d2 = b_db d1 \<and> b_closed d2 = b_closed d0"
    "pi_listen i \<longrightarrow> qi_serving q (Durable_store d0) = Durable_store d1" "r1 = Inr () \<longleftrightarrow> served_ok i"
    "\<forall>es. r1 = Inl es \<longrightarrow> set es \<subseteq> {Listen_error, Serve_error, Shutdown_error}" .
  have run: "queue_run E i q \<lparr>ps_effects = [], ps_state = s\<rparr> = finallyA (queue_serve i q) (close_broker (qi_close q)) ?w0"
    using assms(3-9) OpenDurable_run_result(2) [OF assms(10), of "\<lparr>ps_effects = [], ps_state = s\<rparr>"]
    by (auto simp: queue_run_def program_defs)
  have state: "ps_state w = Durable_store (Close d2)"
    and exit: "exit_status r = 0 \<longleftrightarrow> served_ok i \<and> qi_close q = None"
    using assms(13) 1(2,5,6) unfolding run
    by (auto simp: finallyA_def serve close_broker_def program_defs on_durable_def exit_status_def
        split: sum.splits option.splits if_splits)
  have reach0: "reachable E p d0" by (rule reachable.stepped [OF assms(2) broker_step.restart [OF assms(10)]])
  have reach1: "reachable E p d1" by (rule requests_reachable [OF 1(1) reach0])
  have opened: "\<not> b_closed d0" using assms(10) by (auto simp: OpenDurable_def sbind_def split: sum.splits option.splits)
  have same: "b_db (Close d2) = b_db d1" and closed: "b_stopped (Close d2)" "b_closed (Close d2)"
    using 1(3) opened by (auto simp: Close_def Stop_def)
  have again: "recs E (b_db d3) = recs E (b_db d1) \<and> reachable E p d3"
    if "OpenDurable E p None (Inr (b_db (Close d2))) None = Inr d3" for d3
    using that bolt_db.OpenDurable_okE [OF assms(1), of p None "b_db d1" None d3]
      reachable.stepped [OF reach1 broker_step.restart, of d3] by (auto simp: same)
  have "recs E (b_db d0) = recs E (b_db d)" by (rule bolt_db.OpenDurable_okE [OF assms(1,10)])
  with 1(1,4) state closed same again exit show ?thesis by blast
qed

text \<open>A process that opens the demonstration database and serves one ACK until a signal arrives.\<close>

definition demo_proc :: "string list \<Rightarrow> proc_in" where
  "demo_proc args = \<lparr>pi_args = args, pi_env = [''DATABASE_URL'' \<mapsto> ''db''],
     pi_values = \<lparr>vs_int = (\<lambda>v. None), vs_uint = (\<lambda>v. None), vs_float = (\<lambda>v. None), vs_duration = (\<lambda>v. None)\<rparr>,
     pi_url = (\<lambda>u. None), pi_listen = True,
     pi_http = \<lparr>ht_ended = None, ht_shutdown = True, ht_served = True\<rparr>\<rparr>"

definition ack_served :: "mem_db queue_store \<Rightarrow> mem_db queue_store" where
  "ack_served = on_durable (\<lambda>d. snd (Ack demo_env d (demo_in 3) demo_ack))"

definition demo_queue_in :: "mem_db queue_in" where
  "demo_queue_in = \<lparr>qi_dir = None, qi_opened = Inr (b_db demo_leased), qi_fault = None,
     qi_serving = ack_served, qi_draining = ack_served, qi_close = None\<rparr>"

lemma ack_serves: "serves demo_env p ack_served"
proof -
  have "request_step demo_env p d (snd (Ack demo_env d (demo_in 3) demo_ack))" for d
    unfolding request_step_def
    using broker_step.ack [where i = "demo_in 3" and E = demo_env and d = d and a = demo_ack and p = p,
      OF demo_clock surjective_pairing] by auto
  then have "request_steps demo_env p d (snd (Ack demo_env d (demo_in 3) demo_ack))" for d by blast
  then show ?thesis by (simp add: serves_def ack_served_def on_durable_def)
qed

lemma demo_queue_config:
  "\<exists>c. ParseQueue (pi_values (demo_proc [])) [''-db=q.db''] = Inr c
     \<and> qc_Mode c = ''durable'' \<and> qc_Durable c = demo_options \<and> cm_LogLevel (qc_Common c) = ''info''"
proof -
  let ?r = "ParseQueue (pi_values (demo_proc [])) [''-db=q.db'']"
  have "(case ?r of Inr c \<Rightarrow> qc_Mode c = ''durable'' \<and> qc_Durable c = demo_options
      \<and> cm_LogLevel (qc_Common c) = ''info'' | Inl _ \<Rightarrow> False)" by code_simp
  then show ?thesis by (cases ?r) auto
qed

theorem queue_process_witness:
  "\<exists>r w d'. queue_run demo_env (demo_proc [''-db=q.db'']) demo_queue_in \<lparr>ps_effects = [], ps_state = No_store\<rparr> = (r, w)
     \<and> ps_state w = Durable_store d' \<and> b_closed d' \<and> exit_status r = 0"
proof -
  obtain r w where run: "queue_run demo_env (demo_proc [''-db=q.db'']) demo_queue_in
      \<lparr>ps_effects = [], ps_state = No_store\<rparr> = (r, w)" by fastforce
  from demo_queue_config obtain c where c: "ParseQueue (pi_values (demo_proc [''-db=q.db'']))
      (pi_args (demo_proc [''-db=q.db''])) = Inr c" "qc_Mode c = ''durable''" "qc_Durable c = demo_options"
      "cm_LogLevel (qc_Common c) = ''info''" by (auto simp: demo_proc_def)
  have level: "New_logger (cm_LogLevel (qc_Common c)) \<noteq> None" by (simp add: c(4) default_level)
  note q = demo_queue_in_def
  from queue_process [OF demo_bolt_db demo_reachable(3) c(1,2,3) level _ _ _ demo_reopen _ _ run] ack_serves
  have "(\<exists>d'. ps_state w = Durable_store d' \<and> b_closed d')
      \<and> (exit_status r = 0 \<longleftrightarrow> served_ok (demo_proc [''-db=q.db'']) \<and> qi_close demo_queue_in = None)"
    by (simp add: q) blast
  moreover have "served_ok (demo_proc [''-db=q.db''])" by (simp add: served_ok_def demo_proc_def)
  ultimately show ?thesis using run by (auto simp: q)
qed

section \<open>A migrated database\<close>

text \<open>
  C35: what the migration program reports makes the other programs ready. When it exits with status
  0, the readiness checks of the collector and of the API succeed from then on, after any further
  migration runs, successful or not, whenever the process is not stopping and the database
  answers; as long as no migration took effect both refuse with status 503.
\<close>

theorem migrated_ready:
  assumes "migrate_main env g \<lparr>ps_effects = [], ps_state = db\<rparr> = (0, w)"
  shows "(let later = apply_all sha runs (ps_state w); ready = (Ready failed later = Inr ()) in
      fst (HealthHandler stopping ready Get_readyz) = (if stopping \<or> failed then 503 else 200)
      \<and> api_ready stopping ready = (if stopping \<or> failed then 503 else 200))
    \<and> (applied db = None \<longrightarrow> fst (HealthHandler stopping (Ready failed db = Inr ()) Get_readyz) = 503
        \<and> api_ready stopping (Ready failed db = Inr ()) = 503)"
proof -
  obtain r db' where step: "Apply (gi_sha g) (gi_script g) (gi_step g) db = (r, db')" by fastforce
  from assms have "migrate_program env g \<lparr>ps_effects = [], ps_state = db\<rparr> = (Inr (), w)"
    by (simp add: migrate_main_def plain_status_zero)
  with step have "r = Inr ()" and "ps_state w = db'"
    by (auto simp: migrate_program_def program_defs split: if_splits sum.splits prod.splits)
  with Apply_applied [OF step] have "applied (ps_state w) \<noteq> None" by simp
  then have "applied (apply_all sha runs (ps_state w)) \<noteq> None" by (rule apply_all_applied)
  then show ?thesis by (auto simp: Let_def Ready_applied HealthHandler_def api_ready_def)
qed

definition demo_migrate_in :: "unit migrate_in" where
  "demo_migrate_in = \<lparr>gi_parse = (\<lambda>u. Some \<lparr>pc_MaxConns = 4, pc_MinConns = 0, pc_MinIdleConns = 0,
       pc_ConnectTimeout = 0, pc_RuntimeParams = Map.empty, pc_rest = ()\<rparr>),
     gi_start = (\<lambda>cfg. True), gi_sha = (\<lambda>b. ''sum''), gi_script = Some ''create'',
     gi_step = \<lparr>mi_begin = False, mi_lock = False, mi_create = False, mi_query = False, mi_script = False,
       mi_insert = False, mi_commit = None\<rparr>\<rparr>"

theorem migrated_ready_witness:
  "\<exists>w. migrate_main [''DATABASE_URL'' \<mapsto> ''db''] demo_migrate_in
       \<lparr>ps_effects = [], ps_state = \<lparr>sm_versions = None, sm_scripts = []\<rparr>\<rparr> = (0, w)
     \<and> api_ready False (Ready False (ps_state w) = Inr ()) = 200"
proof -
  let ?w = "\<lparr>ps_effects = [Opened Timeout_context, Opened Db_pool,
      Printed ''migration 001 applied or already current'', Closed Db_pool, Closed Timeout_context],
    ps_state = \<lparr>sm_versions = Some [(Version, ''sum'')], sm_scripts = [''create'']\<rparr>\<rparr>"
  have run: "migrate_main [''DATABASE_URL'' \<mapsto> ''db''] demo_migrate_in
      \<lparr>ps_effects = [], ps_state = \<lparr>sm_versions = None, sm_scripts = []\<rparr>\<rparr> = (0, ?w)"
    by (simp add: migrate_main_def plain_status_zero migrate_program_def demo_migrate_in_def program_defs Getenv_def Pool_Open_def open_pool_def
        Apply_def Let_def commit_schema_def)
  from migrated_ready [OF run, of "\<lambda>b. ''sum''" "[]" False False] run show ?thesis
    by (auto simp: Let_def apply_all_def)
qed

end
