(* ===== verification/Cleaner.thy ===== *)
theory Cleaner
  imports Runner
begin

text \<open>
  console/cleanup.go and console/reclaim.go: removal of the demonstration's data, and on request
  of the whole environment, after an inventory of everything that would be removed; and the
  recovery of released volumes. Commands, the log and temporary files are the runner, the JSON
  decoding of what commands print is the record \<open>kube_json\<close>.
\<close>

section \<open>Data\<close>

definition project :: string where
  "project = ''gpu-telemetry''"

record claim_ref =
  cr_Namespace :: string
  cr_Name :: string

text \<open>\<^verbatim>\<open>object\<close>; the optional parts of the specification are \<^verbatim>\<open>nil\<close> pointers in the code.\<close>

record kube_object =
  ko_Kind :: string
  ko_UID :: string
  ko_ResourceVersion :: string
  ko_Name :: string
  ko_Namespace :: string
  ko_Labels :: "string \<Rightarrow> string option"
  ko_Annotations :: "string \<Rightarrow> string option"
  ko_HostPath :: "string option"
  ko_StorageClassName :: string
  ko_VolumeName :: string
  ko_ReclaimPolicy :: string
  ko_ClaimRef :: "claim_ref option"
  ko_Phase :: string

record storage_class =
  sc_Provisioner :: string
  sc_ReclaimPolicy :: string
  sc_VolumeBindingMode :: string

record probe_manifest =
  pm_name :: string
  pm_namespace :: string
  pm_storageClassName :: string
  pm_storage :: string

datatype patch_op = Test string string | Replace string string

text \<open>
  Decoding: \<open>kj_list\<close> gives the items of a list, the inner \<open>None\<close> when the document has none;
  \<open>kj_profiles\<close> the names of the valid and of the invalid profiles, each present or not;
  \<open>kj_names\<close> the names in a stream of documents up to its end, \<open>None\<close> where one fails to decode;
  \<open>kj_patch\<close> prints a patch.
\<close>

record kube_json =
  kj_list :: "string \<Rightarrow> kube_object list option option"
  kj_object :: "string \<Rightarrow> kube_object option"
  kj_class :: "string \<Rightarrow> storage_class option"
  kj_profiles :: "string \<Rightarrow> (string list option \<times> string list option) option"
  kj_names :: "string \<Rightarrow> string option list"
  kj_patch :: "patch_op list \<Rightarrow> string"

datatype cleaner_error =
  Command_failed
| Bad_json
| Invalid_list
| No_resources
| Unrecognized string string
| Wrong_policy string string
| Unrelated_volume string
| Unrelated_namespace string
| Default_contains string string
| Unrelated_container string
| Unrecognized_docker_volume string
| Namespace_exists
| Not_reclaimed string
| Volume_remains string
| Profile_unverified
| Profile_exists
| Colima_exists
| Project_exists
| Not_single_node
| Wrong_node
| Shared_path string string
| Not_adopted string
| Unexpected_class
| No_random
| No_temp_file
| No_probe_volume
| Invalid_probe
| Probe_cleanup string

text \<open>A map lookup of Go: the empty string where the key is missing.\<close>

definition at_key :: "(string \<Rightarrow> string option) \<Rightarrow> string \<Rightarrow> string" where
  "at_key m k = (case m k of None \<Rightarrow> [] | Some v \<Rightarrow> v)"

definition claimed_by :: "string \<Rightarrow> kube_object \<Rightarrow> bool" where
  "claimed_by ns v = (case ko_ClaimRef v of None \<Rightarrow> False | Some cr \<Rightarrow> cr_Namespace cr = ns)"

section \<open>Commands\<close>

definition cleanupConfirmation :: "string \<Rightarrow> string" where
  "cleanupConfirmation action =
     (if action = ''remove-environment'' then ''REMOVE gpu-telemetry'' else ''DELETE gpu-telemetry'')"

definition kubectl_path :: string where "kubectl_path = ''/opt/homebrew/bin/kubectl''"
definition docker_path :: string where "docker_path = ''/opt/homebrew/bin/docker''"
definition helm_path :: string where "helm_path = ''/opt/homebrew/bin/helm''"
definition minikube_path :: string where "minikube_path = ''/opt/homebrew/bin/minikube''"
definition colima_path :: string where "colima_path = ''/opt/homebrew/bin/colima''"

definition kube_args :: "string list \<Rightarrow> string list" where
  "kube_args args = [''--context'', project, ''--request-timeout=15s''] @ args"

definition kubectl :: "('d, 'w) runner \<Rightarrow> run_context \<Rightarrow> string list \<Rightarrow> ('w, cleaner_error, string) act" where
  "kubectl P x args = callA P Command_failed x kubectl_path (kube_args args)"

definition waitVolumeGone :: "('d, 'w) runner \<Rightarrow> run_context \<Rightarrow> string \<Rightarrow> string \<Rightarrow> ('w, cleaner_error, unit) act" where
  "waitVolumeGone P x name timeout =
     bindA (attempt (kubectl P x [''wait'', ''--for=delete'', ''pv/'' @ name, ''--timeout='' @ timeout])) (\<lambda>waited.
       case waited of
         Inr _ \<Rightarrow> ret ()
       | Inl _ \<Rightarrow>
           bindA (attempt (kubectl P x [''get'', ''pv'', name, ''--ignore-not-found'', ''-o'', ''name''])) (\<lambda>raw.
             case raw of
               Inr out \<Rightarrow> if TrimSpace out = [] then ret () else throw (Not_reclaimed name)
             | Inl _ \<Rightarrow> throw (Not_reclaimed name)))"

definition decodeList :: "kube_json \<Rightarrow> string \<Rightarrow> cleaner_error + kube_object list" where
  "decodeList J raw = (case kj_list J raw of
     None \<Rightarrow> Inl Bad_json | Some None \<Rightarrow> Inl Invalid_list | Some (Some items) \<Rightarrow> Inr items)"

definition kube_list :: "('d, 'w) runner \<Rightarrow> kube_json \<Rightarrow> run_context \<Rightarrow> string list \<Rightarrow>
    ('w, cleaner_error, kube_object list) act" where
  "kube_list P J x args = bindA (kubectl P x args) (\<lambda>raw. checkA (decodeList J raw))"

section \<open>Ownership\<close>

definition owned :: "kube_object \<Rightarrow> bool" where
  "owned v = (
     if ko_Kind v = ''Event'' then True
     else if ko_Kind v = ''ServiceAccount'' \<and> ko_Name v = ''default'' then True
     else if ko_Kind v = ''ConfigMap'' \<and> ko_Name v = ''kube-root-ca.crt'' then True
     else at_key (ko_Labels v) ''app.kubernetes.io/instance'' = project
       \<or> (ko_Kind v = ''Secret'' \<and> at_key (ko_Labels v) ''owner'' = ''helm'' \<and> at_key (ko_Labels v) ''name'' = project)
       \<or> (at_key (ko_Annotations v) ''meta.helm.sh/release-name'' = project
          \<and> at_key (ko_Annotations v) ''meta.helm.sh/release-namespace'' = project))"

fun check_owned :: "kube_object list \<Rightarrow> cleaner_error + unit" where
  "check_owned [] = Inr ()"
| "check_owned (v # vs) = (if \<not> owned v then Inl (Unrecognized (ko_Kind v) (ko_Name v)) else check_owned vs)"

definition allowed_default :: "kube_object \<Rightarrow> bool" where
  "allowed_default v = (
     if ko_Kind v = ''Service'' \<and> ko_Name v = ''kubernetes'' then True
     else ko_Kind v = ''Event'' \<or> (ko_Kind v = ''ServiceAccount'' \<and> ko_Name v = ''default'')
       \<or> (ko_Kind v = ''ConfigMap'' \<and> ko_Name v = ''kube-root-ca.crt''))"

fun check_default :: "kube_object list \<Rightarrow> cleaner_error + unit" where
  "check_default [] = Inr ()"
| "check_default (v # vs) = (if allowed_default v then check_default vs
     else Inl (Default_contains (ko_Kind v) (ko_Name v)))"

text \<open>The loop over the listable kinds, with the check of the items of each in one namespace.\<close>

fun check_kinds :: "('d, 'w) runner \<Rightarrow> kube_json \<Rightarrow> string \<Rightarrow> (kube_object list \<Rightarrow> cleaner_error + unit) \<Rightarrow>
    string list \<Rightarrow> ('w, cleaner_error, unit) act" where
  "check_kinds P J ns check [] = ret ()"
| "check_kinds P J ns check (kind # kinds) =
     bindA (kube_list P J Action_context [''-n'', ns, ''get'', kind, ''-o'', ''json'']) (\<lambda>items.
       bindA (checkA (check items)) (\<lambda>_. check_kinds P J ns check kinds))"

fun project_volumes :: "bool \<Rightarrow> kube_object list \<Rightarrow> cleaner_error + string list" where
  "project_volumes remove [] = Inr []"
| "project_volumes remove (v # vs) =
     (if claimed_by project v then
        if ko_ReclaimPolicy v \<noteq> ''Delete'' then Inl (Wrong_policy (ko_Name v) (ko_ReclaimPolicy v))
        else sbind (project_volumes remove vs) (\<lambda>names. Inr (ko_Name v # names))
      else if remove then Inl (Unrelated_volume (ko_Name v))
      else project_volumes remove vs)"

fun check_namespaces :: "kube_object list \<Rightarrow> cleaner_error + unit" where
  "check_namespaces [] = Inr ()"
| "check_namespaces (n # ns) =
     (if ko_Name n \<in> {project, ''kube-system'', ''kube-public'', ''kube-node-lease'', ''default''}
      then check_namespaces ns else Inl (Unrelated_namespace (ko_Name n)))"

fun check_names :: "(string \<Rightarrow> cleaner_error) \<Rightarrow> string list \<Rightarrow> cleaner_error + unit" where
  "check_names e [] = Inr ()"
| "check_names e (name # names) = (if name \<noteq> project then Inl (e name) else check_names e names)"

section \<open>Recovery of released volumes\<close>

definition recoverable :: "kube_object \<Rightarrow> bool" where
  "recoverable v = (case (ko_ClaimRef v, ko_HostPath v) of
     (Some claim, Some path) \<Rightarrow>
       if cr_Namespace claim \<noteq> project \<or> ko_Phase v \<noteq> ''Released'' \<or> ko_ReclaimPolicy v \<noteq> ''Delete'' then False
       else if cr_Name claim \<noteq> project @ ''-postgresql-data'' \<and> cr_Name claim \<noteq> project @ ''-queue-data'' then False
       else path = ''/tmp/hostpath-provisioner/'' @ project @ ''/'' @ cr_Name claim
         \<and> ko_StorageClassName v = ''standard''
         \<and> at_key (ko_Annotations v) ''pv.kubernetes.io/provisioned-by'' = ''k8s.io/minikube-hostpath''
         \<and> at_key (ko_Annotations v) ''hostPathProvisionerIdentity'' \<noteq> []
         \<and> ko_UID v \<noteq> [] \<and> ko_ResourceVersion v \<noteq> []
   | _ \<Rightarrow> False)"

definition identity_of :: "kube_object \<Rightarrow> string" where
  "identity_of v = at_key (ko_Annotations v) ''hostPathProvisionerIdentity''"

text \<open>Another volume on the path of a target, unless it is itself recoverable.\<close>

definition shares_path :: "kube_object \<Rightarrow> kube_object \<Rightarrow> bool" where
  "shares_path v other \<longleftrightarrow> ko_Name other \<noteq> ko_Name v \<and> ko_HostPath other \<noteq> None
     \<and> ko_HostPath other = ko_HostPath v \<and> \<not> recoverable other"

fun check_others :: "kube_object \<Rightarrow> kube_object list \<Rightarrow> cleaner_error + unit" where
  "check_others v [] = Inr ()"
| "check_others v (w # ws) = (if shares_path v w then Inl (Shared_path (ko_Name v) (ko_Name w)) else check_others v ws)"

fun check_paths :: "kube_object list \<Rightarrow> kube_object list \<Rightarrow> cleaner_error + unit" where
  "check_paths [] vs = Inr ()"
| "check_paths (t # ts) vs = sbind (check_others t vs) (\<lambda>_. check_paths ts vs)"

definition adoption :: "kube_object \<Rightarrow> string \<Rightarrow> patch_op list" where
  "adoption v identity = [
     Test ''/metadata/uid'' (ko_UID v),
     Test ''/metadata/resourceVersion'' (ko_ResourceVersion v),
     Test ''/status/phase'' ''Released'',
     Test ''/metadata/annotations/hostPathProvisionerIdentity'' (identity_of v),
     Replace ''/metadata/annotations/hostPathProvisionerIdentity'' identity]"

fun adopt :: "('d, 'w) runner \<Rightarrow> kube_json \<Rightarrow> string \<Rightarrow> kube_object list \<Rightarrow> ('w, cleaner_error, unit) act" where
  "adopt P J identity [] = ret ()"
| "adopt P J identity (v # vs) =
     (if identity_of v = identity then adopt P J identity vs
      else bindA (callA P (Not_adopted (ko_Name v)) Action_context kubectl_path
               (kube_args [''patch'', ''pv'', ko_Name v, ''--type=json'', ''-p'', kj_patch J (adoption v identity)])) (\<lambda>_.
             bindA (logA P (''Reassigned '' @ ko_Name v @
               '' to the current local provisioner; waiting for normal data reclamation.'')) (\<lambda>_.
                 adopt P J identity vs)))"

fun wait_probe :: "('d, 'w) runner \<Rightarrow> string \<Rightarrow> kube_object list \<Rightarrow> ('w, cleaner_error, unit) act" where
  "wait_probe P ns [] = ret ()"
| "wait_probe P ns (v # vs) =
     (if claimed_by ns v
      then bindA (waitVolumeGone P Cleanup_context (ko_Name v) ''60s'') (\<lambda>_. wait_probe P ns vs)
      else wait_probe P ns vs)"

text \<open>The deferred removal of the probe's namespace, under a context of its own.\<close>

definition probe_cleanup :: "('d, 'w) runner \<Rightarrow> kube_json \<Rightarrow> string \<Rightarrow> ('w, cleaner_error, unit) act" where
  "probe_cleanup P J ns =
     bindA (attempt (kube_list P J Cleanup_context [''get'', ''pv'', ''-o'', ''json''])) (\<lambda>listed.
     bindA (attempt (kubectl P Cleanup_context [''delete'', ''namespace'', ns, ''--wait=true'', ''--timeout=120s''])) (\<lambda>deleted.
       case listed of
         Inl e \<Rightarrow> throw e
       | Inr probeVolumes \<Rightarrow>
           (case deleted of Inl e \<Rightarrow> throw e | Inr _ \<Rightarrow> wait_probe P ns probeVolumes)))"

definition probe_claim :: "string \<Rightarrow> probe_manifest" where
  "probe_claim ns = \<lparr>pm_name = ''identity-probe'', pm_namespace = ns,
     pm_storageClassName = ''standard'', pm_storage = ''1Mi''\<rparr>"

definition valid_probe :: "string \<Rightarrow> kube_object \<Rightarrow> bool" where
  "valid_probe ns pv \<longleftrightarrow> \<not> (identity_of pv = []
     \<or> (case ko_ClaimRef pv of None \<Rightarrow> True
        | Some cr \<Rightarrow> cr_Namespace cr \<noteq> ns \<or> cr_Name cr \<noteq> ''identity-probe'')
     \<or> at_key (ko_Annotations pv) ''pv.kubernetes.io/provisioned-by'' \<noteq> ''k8s.io/minikube-hostpath'')"

definition decode_object :: "kube_json \<Rightarrow> string \<Rightarrow> cleaner_error + kube_object" where
  "decode_object J raw = (case kj_object J raw of None \<Rightarrow> Inl Bad_json | Some v \<Rightarrow> Inr v)"

text \<open>From the creation of the claim to the use of the identity its volume carries.\<close>

definition probe_identity :: "('d, 'w) runner \<Rightarrow> kube_json \<Rightarrow> string \<Rightarrow> string \<Rightarrow>
    (string \<Rightarrow> ('w, cleaner_error, unit) act) \<Rightarrow> ('w, cleaner_error, unit) act" where
  "probe_identity P J ns document use =
     bindA (kubectl P Action_context [''create'', ''-f'', document]) (\<lambda>_.
     bindA (kubectl P Action_context [''-n'', ns, ''wait'', ''--for=jsonpath={.status.phase}=Bound'',
        ''pvc/identity-probe'', ''--timeout=60s'']) (\<lambda>_.
     bindA (kubectl P Action_context [''-n'', ns, ''get'', ''pvc'', ''identity-probe'', ''-o'', ''json'']) (\<lambda>raw.
     bindA (checkA (decode_object J raw)) (\<lambda>pvc.
     bindA (checkA (fail_if (ko_VolumeName pvc = []) No_probe_volume)) (\<lambda>_.
     bindA (kubectl P Action_context [''get'', ''pv'', ko_VolumeName pvc, ''-o'', ''json'']) (\<lambda>raw2.
     bindA (checkA (decode_object J raw2)) (\<lambda>pv.
     bindA (checkA (fail_if (\<not> valid_probe ns pv) Invalid_probe)) (\<lambda>_.
       use (identity_of pv)))))))))"

definition probe_body :: "(probe_manifest, 'w) runner \<Rightarrow> kube_json \<Rightarrow> string \<Rightarrow>
    (string \<Rightarrow> ('w, cleaner_error, unit) act) \<Rightarrow> ('w, cleaner_error, unit) act" where
  "probe_body P J ns use =
     bindA (tempA P (probe_claim ns)) (\<lambda>temp.
       case temp of
         No_temp \<Rightarrow> throw No_temp_file
       | Temp_failed document \<Rightarrow> deferA (throw No_temp_file) (removeA P document) No_temp_file
       | Temp_written document \<Rightarrow>
           deferA (probe_identity P J ns document use) (removeA P document) No_temp_file)"

definition check_class :: "kube_json \<Rightarrow> string \<Rightarrow> cleaner_error + unit" where
  "check_class J raw = (case kj_class J raw of
     None \<Rightarrow> Inl Bad_json
   | Some sc \<Rightarrow> fail_if (sc_Provisioner sc \<noteq> ''k8s.io/minikube-hostpath'' \<or> sc_ReclaimPolicy sc \<noteq> ''Delete''
       \<or> sc_VolumeBindingMode sc \<noteq> ''Immediate'') Unexpected_class)"

definition withProvisionerIdentity :: "(probe_manifest, 'w) runner \<Rightarrow> kube_json \<Rightarrow>
    (string \<Rightarrow> ('w, cleaner_error, unit) act) \<Rightarrow> ('w, cleaner_error, unit) act" where
  "withProvisionerIdentity P J use =
     bindA (kubectl P Action_context [''get'', ''storageclass'', ''standard'', ''-o'', ''json'']) (\<lambda>raw.
     bindA (checkA (check_class J raw)) (\<lambda>_.
     bindA (randomA P No_random 6) (\<lambda>nonce.
     let ns = ''gpu-telemetry-reclaim-'' @ hex_encode nonce in
     bindA (kubectl P Action_context [''create'', ''namespace'', ns]) (\<lambda>_.
       deferA (probe_body P J ns use) (probe_cleanup P J ns) (Probe_cleanup ns)))))"

definition recoverReleasedVolumes :: "(probe_manifest, 'w) runner \<Rightarrow> kube_json \<Rightarrow> ('w, cleaner_error, unit) act" where
  "recoverReleasedVolumes P J =
     bindA (kube_list P J Action_context [''get'', ''pv'', ''-o'', ''json'']) (\<lambda>all.
     let targets = filter recoverable all in
     if targets = [] then ret ()
     else
       bindA (kubectl P Action_context [''get'', ''namespace'', project, ''--ignore-not-found'', ''-o'', ''name'']) (\<lambda>raw.
       bindA (checkA (fail_if (raw \<noteq> []) Project_exists)) (\<lambda>_.
       bindA (kube_list P J Action_context [''get'', ''nodes'', ''-o'', ''json'']) (\<lambda>nodes.
       bindA (checkA (fail_if (map ko_Name nodes \<noteq> [project]) Not_single_node)) (\<lambda>_.
       bindA (kubectl P Action_context [''-n'', ''kube-system'', ''get'', ''pod'', ''storage-provisioner'', ''-o'',
          ''jsonpath={.spec.nodeName}'']) (\<lambda>raw2.
       bindA (checkA (fail_if (raw2 \<noteq> project) Wrong_node)) (\<lambda>_.
       bindA (checkA (check_paths targets all)) (\<lambda>_.
       bindA (logA P ''Checking Minikube provisioner identity for released project volumes.'') (\<lambda>_.
         withProvisionerIdentity P J (\<lambda>identity. adopt P J identity targets))))))))))"

section \<open>Cleanup\<close>

definition docker_args :: "string list \<Rightarrow> string list" where
  "docker_args args = [''--context'', ''colima-gpu-telemetry''] @ args"

definition docker :: "('d, 'w) runner \<Rightarrow> string list \<Rightarrow> ('w, cleaner_error, string) act" where
  "docker P args = callA P Command_failed Action_context docker_path (docker_args args)"

text \<open>The further checks before the whole environment is removed.\<close>

definition check_environment :: "('d, 'w) runner \<Rightarrow> kube_json \<Rightarrow> string list \<Rightarrow> ('w, cleaner_error, unit) act" where
  "check_environment P J kinds =
     bindA (kube_list P J Action_context [''get'', ''namespaces'', ''-o'', ''json'']) (\<lambda>namespaces.
     bindA (checkA (check_namespaces namespaces)) (\<lambda>_.
     bindA (check_kinds P J ''default'' check_default kinds) (\<lambda>_.
     bindA (docker P [''ps'', ''-a'', ''--format'', ''{{.Names}}'']) (\<lambda>raw.
     bindA (checkA (check_names Unrelated_container (Fields raw))) (\<lambda>_.
     bindA (docker P [''volume'', ''ls'', ''--format'', ''{{.Name}}'']) (\<lambda>raw2.
       checkA (check_names Unrecognized_docker_volume (Fields raw2))))))))"

text \<open>Everything \<^verbatim>\<open>clean\<close> does before it removes anything; the result is the volumes of the project.\<close>

definition inventory :: "('d, 'w) runner \<Rightarrow> kube_json \<Rightarrow> bool \<Rightarrow> ('w, cleaner_error, string list) act" where
  "inventory P J remove =
     bindA (kubectl P Action_context [''api-resources'', ''--verbs=list'', ''--namespaced=true'', ''-o'', ''name'']) (\<lambda>raw.
     let kinds = Fields raw in
     bindA (checkA (fail_if (kinds = []) No_resources)) (\<lambda>_.
     bindA (check_kinds P J project check_owned kinds) (\<lambda>_.
     bindA (kube_list P J Action_context [''get'', ''pv'', ''-o'', ''json'']) (\<lambda>pvs.
     bindA (checkA (project_volumes remove pvs)) (\<lambda>volumes.
     bindA (if remove then check_environment P J kinds else ret ()) (\<lambda>_.
       ret volumes))))))"

fun wait_volumes :: "(probe_manifest, 'w) runner \<Rightarrow> kube_json \<Rightarrow> string list \<Rightarrow> ('w, cleaner_error, unit) act" where
  "wait_volumes P J [] = ret ()"
| "wait_volumes P J (name # names) =
     bindA (attempt (waitVolumeGone P Action_context name ''120s'')) (\<lambda>waited.
     bindA (case waited of
         Inr _ \<Rightarrow> ret ()
       | Inl _ \<Rightarrow> bindA (recoverReleasedVolumes P J) (\<lambda>_. waitVolumeGone P Action_context name ''120s'')) (\<lambda>_.
       wait_volumes P J names))"

fun check_remaining :: "kube_object list \<Rightarrow> cleaner_error + unit" where
  "check_remaining [] = Inr ()"
| "check_remaining (v # vs) = (if claimed_by project v then Inl (Volume_remains (ko_Name v)) else check_remaining vs)"

definition delete_deployment :: "(probe_manifest, 'w) runner \<Rightarrow> kube_json \<Rightarrow> string list \<Rightarrow> ('w, cleaner_error, unit) act" where
  "delete_deployment P J volumes =
     bindA (logA P ''Ownership checks passed. Removing Helm deployment and retained data.'') (\<lambda>_.
     bindA (callA P Command_failed Action_context helm_path [''uninstall'', project, ''--kube-context'', project, ''-n'',
        project, ''--ignore-not-found'', ''--wait'', ''--timeout'', ''3m'']) (\<lambda>_.
     bindA (kubectl P Action_context [''delete'', ''namespace'', project, ''--ignore-not-found'', ''--wait=true'',
        ''--timeout=180s'']) (\<lambda>_.
     bindA (kubectl P Action_context [''get'', ''namespace'', project, ''--ignore-not-found'', ''-o'', ''name'']) (\<lambda>raw.
     bindA (checkA (fail_if (TrimSpace raw \<noteq> []) Namespace_exists)) (\<lambda>_.
     bindA (recoverReleasedVolumes P J) (\<lambda>_.
     bindA (wait_volumes P J volumes) (\<lambda>_.
     bindA (kube_list P J Action_context [''get'', ''pv'', ''-o'', ''json'']) (\<lambda>remaining.
     bindA (checkA (check_remaining remaining)) (\<lambda>_.
       logA P (''Namespace, PVCs and associated PVs removed. Local Minikube storage reclamation confirmed by ''
         @ ''Kubernetes; this is not secure disk erasure.''))))))))))"

definition check_profiles :: "kube_json \<Rightarrow> string \<Rightarrow> cleaner_error + unit" where
  "check_profiles J raw = (case kj_profiles J raw of
     Some (Some valid, Some invalid) \<Rightarrow> fail_if (project \<in> set (valid @ invalid)) Profile_exists
   | _ \<Rightarrow> Inl Profile_unverified)"

fun check_colima :: "string option list \<Rightarrow> cleaner_error + unit" where
  "check_colima [] = Inr ()"
| "check_colima (None # ps) = Inl Bad_json"
| "check_colima (Some name # ps) = (if name = project then Inl Colima_exists else check_colima ps)"

definition remove_environment :: "('d, 'w) runner \<Rightarrow> kube_json \<Rightarrow> ('w, cleaner_error, unit) act" where
  "remove_environment P J =
     bindA (callA P Command_failed Action_context minikube_path [''delete'', ''-p'', project]) (\<lambda>_.
     bindA (outputA P Action_context minikube_path [''profile'', ''list'', ''-o'', ''json'']) (\<lambda>raw.
     bindA (checkA (check_profiles J raw)) (\<lambda>_.
     bindA (callA P Command_failed Action_context colima_path [''delete'', project, ''--force'', ''--data'']) (\<lambda>_.
     bindA (callA P Command_failed Action_context colima_path [''list'', ''--json'']) (\<lambda>raw2.
     bindA (checkA (check_colima (kj_names J raw2))) (\<lambda>_.
       logA P (''Dedicated Minikube and Colima environments removed. Installed tools and host build caches ''
         @ ''were preserved.'')))))))"

definition clean :: "(probe_manifest, 'w) runner \<Rightarrow> kube_json \<Rightarrow> bool \<Rightarrow> ('w, cleaner_error, unit) act" where
  "clean P J remove =
     bindA (inventory P J remove) (\<lambda>volumes.
     bindA (delete_deployment P J volumes) (\<lambda>_.
       if remove then remove_environment P J else ret ()))"

section \<open>What every runner keeps\<close>

text \<open>
  The contract of a runner for the cleaner, whose probes are described by \<open>probe_manifest\<close>: what
  every command, log line and file operation keeps, the whole cleanup keeps.
\<close>

locale cleaner_host = steady_runner P R for P :: "(probe_manifest, 'w) runner" and R
begin

lemma stays_kubectl [intro!]: "stays R (kubectl P x args)"
  unfolding kubectl_def by (rule stays_basic)

lemma stays_kube_list [intro!]: "stays R (kube_list P J x args)"
  unfolding kube_list_def by auto

lemma stays_docker [intro!]: "stays R (docker P args)"
  unfolding docker_def by (rule stays_basic)

lemma stays_waitVolumeGone [intro!]: "stays R (waitVolumeGone P x name timeout)"
  unfolding waitVolumeGone_def by (auto split: sum.split)

lemma stays_check_kinds [intro!]: "stays R (check_kinds P J ns check kinds)"
  by (induction kinds) auto

lemma stays_adopt [intro!]: "stays R (adopt P J identity vs)"
  by (induction vs) auto

lemma stays_wait_probe [intro!]: "stays R (wait_probe P ns vs)"
  by (induction vs) auto

lemma stays_probe_body [intro!]:
  assumes "\<And>identity. stays R (use identity)"
  shows "stays R (probe_body P J ns use)"
  unfolding probe_body_def probe_identity_def
  using assms by (auto split: temp_result.split)

lemma stays_probe_cleanup [intro!]: "stays R (probe_cleanup P J ns)"
  unfolding probe_cleanup_def by (auto split: sum.split)

lemma stays_withProvisionerIdentity [intro!]:
  assumes "\<And>identity. stays R (use identity)"
  shows "stays R (withProvisionerIdentity P J use)"
  unfolding withProvisionerIdentity_def Let_def using assms by auto

lemma stays_recoverReleasedVolumes [intro!]: "stays R (recoverReleasedVolumes P J)"
  unfolding recoverReleasedVolumes_def Let_def by auto

lemma stays_wait_volumes [intro!]: "stays R (wait_volumes P J names)"
  by (induction names) (auto split: sum.split)

lemma stays_inventory [intro!]: "stays R (inventory P J rm)"
  unfolding inventory_def check_environment_def Let_def by auto

lemma stays_removal [intro!]:
  "stays R (delete_deployment P J volumes)" "stays R (remove_environment P J)"
  unfolding delete_deployment_def remove_environment_def by auto

lemma stays_clean: "stays R (clean P J rm)"
  unfolding clean_def by auto

end

end
