(* ===== verification/Cleaner_Safety.thy ===== *)
theory Cleaner_Safety
  imports Cleaner
begin

text \<open>
  The properties of the console's cleaner, for every way its commands can be answered: nothing is
  removed before the inventory is complete, success means that the removal was seen in the
  answers, volumes are adopted only when they are the project's, and the probe is removed again.
\<close>

section \<open>What is checked\<close>

text \<open>The commands that change something outside.\<close>

definition mutates :: "command \<Rightarrow> bool" where
  "mutates c \<longleftrightarrow> cm_name c = helm_path
     \<or> cm_name c \<in> {minikube_path, colima_path} \<and> take 1 (cm_args c) = [''delete'']
     \<or> cm_name c = kubectl_path \<and> take 1 (drop 3 (cm_args c)) \<in> {[''delete''], [''patch''], [''create'']}"

text \<open>A listing was answered, and everything in it satisfies \<open>Q\<close>.\<close>

definition listed :: "kube_json \<Rightarrow> command list \<Rightarrow> string list \<Rightarrow> (kube_object \<Rightarrow> bool) \<Rightarrow> bool" where
  "listed J tr args Q \<longleftrightarrow> got tr kubectl_path (kube_args args)
     (\<lambda>out. \<exists>vs. kj_list J out = Some (Some vs) \<and> (\<forall>v \<in> set vs. Q v))"

definition volume_allowed :: "bool \<Rightarrow> kube_object \<Rightarrow> bool" where
  "volume_allowed remove v \<longleftrightarrow>
     (if claimed_by project v then ko_ReclaimPolicy v = ''Delete'' else \<not> remove)"

definition only_project :: "command list \<Rightarrow> string list \<Rightarrow> bool" where
  "only_project tr args \<longleftrightarrow> got tr docker_path (docker_args args)
     (\<lambda>out. set (Fields out) \<subseteq> {project})"

text \<open>The part of the inventory that the removal of the environment needs in addition.\<close>

definition environment_checked :: "kube_json \<Rightarrow> string list \<Rightarrow> command list \<Rightarrow> bool" where
  "environment_checked J kinds tr \<longleftrightarrow>
     listed J tr [''get'', ''namespaces'', ''-o'', ''json'']
       (\<lambda>n. ko_Name n \<in> {project, ''kube-system'', ''kube-public'', ''kube-node-lease'', ''default''})
     \<and> (\<forall>k \<in> set kinds. listed J tr [''-n'', ''default'', ''get'', k, ''-o'', ''json''] allowed_default)
     \<and> only_project tr [''ps'', ''-a'', ''--format'', ''{{.Names}}'']
     \<and> only_project tr [''volume'', ''ls'', ''--format'', ''{{.Name}}'']"

definition inventoried :: "kube_json \<Rightarrow> bool \<Rightarrow> string list \<Rightarrow> command list \<Rightarrow> bool" where
  "inventoried J remove kinds tr \<longleftrightarrow>
     kinds \<noteq> []
     \<and> got tr kubectl_path (kube_args [''api-resources'', ''--verbs=list'', ''--namespaced=true'', ''-o'', ''name''])
         (\<lambda>out. Fields out = kinds)
     \<and> (\<forall>k \<in> set kinds. listed J tr [''-n'', project, ''get'', k, ''-o'', ''json''] owned)
     \<and> listed J tr [''get'', ''pv'', ''-o'', ''json'']
         (volume_allowed remove)
     \<and> (remove \<longrightarrow> environment_checked J kinds tr)"

section \<open>Single commands\<close>

lemma wp_kubectl:
  assumes "\<And>out. C (Inl Command_failed) (tr @ [answer x kubectl_path (kube_args args) out True])"
    and "\<And>out. C (Inr out) (tr @ [answer x kubectl_path (kube_args args) out False])"
  shows "wp (kubectl (traced P) x args) C tr"
  unfolding kubectl_def by (rule wp_call) (rule assms)+

lemma wp_kube_list:
  assumes "\<And>e out bad. C (Inl e) (tr @ [answer x kubectl_path (kube_args args) out bad])"
    and "\<And>out vs. kj_list J out = Some (Some vs) \<Longrightarrow>
      C (Inr vs) (tr @ [answer x kubectl_path (kube_args args) out False])"
  shows "wp (kube_list (traced P) J x args) C tr"
  unfolding kube_list_def
  by (rule wp_bind, rule wp_kubectl)
     (use assms in \<open>auto simp: decodeList_def split: option.split\<close>)

lemma wp_bind_kubectl:
  assumes "\<And>out. C (Inl Command_failed) (tr @ [answer x kubectl_path (kube_args args) out True])"
    and "\<And>out. wp (f out) C (tr @ [answer x kubectl_path (kube_args args) out False])"
  shows "wp (bindA (kubectl (traced P) x args) f) C tr"
  by (rule wp_bind, rule wp_kubectl) (simp_all add: assms)

lemma wp_bind_kube_list:
  assumes "\<And>e out bad. C (Inl e) (tr @ [answer x kubectl_path (kube_args args) out bad])"
    and "\<And>out vs. kj_list J out = Some (Some vs) \<Longrightarrow>
      wp (f vs) C (tr @ [answer x kubectl_path (kube_args args) out False])"
  shows "wp (bindA (kube_list (traced P) J x args) f) C tr"
  by (rule wp_bind, rule wp_kube_list) (simp_all add: assms)

lemma wp_bind_docker:
  assumes "\<And>out. C (Inl Command_failed) (tr @ [answer Action_context docker_path (docker_args args) out True])"
    and "\<And>out. wp (f out) C (tr @ [answer Action_context docker_path (docker_args args) out False])"
  shows "wp (bindA (docker (traced P) args) f) C tr"
  unfolding docker_def by (rule wp_bind, rule wp_call) (use assms in simp_all)

lemma wp_bind_checked:
  assumes "\<And>e. x = Inl e \<Longrightarrow> C (Inl e) tr" and "\<And>a. x = Inr a \<Longrightarrow> wp (f a) C tr"
  shows "wp (bindA (checkA x) f) C tr"
  by (rule wp_bind) (use assms in \<open>simp split: sum.split\<close>)

lemmas wp_script = wp_bind_kubectl wp_bind_kube_list wp_bind_docker wp_bind_checked wp_bind_log

lemma adds_kubectl [intro!]:
  "(\<And>out bad. S (answer x kubectl_path (kube_args args) out bad)) \<Longrightarrow> adds S (kubectl (traced P) x args)"
  unfolding kubectl_def by (rule adds_call)

lemma adds_kube_list [intro!]:
  "(\<And>out bad. S (answer x kubectl_path (kube_args args) out bad)) \<Longrightarrow> adds S (kube_list (traced P) J x args)"
  unfolding kube_list_def by (intro adds_bind adds_kubectl adds_pure) auto

lemma mutates_kube [simp]:
  "mutates (answer x kubectl_path (kube_args args) out bad) \<longleftrightarrow>
     take 1 args \<in> {[''delete''], [''patch''], [''create'']}"
  by (simp add: mutates_def kube_args_def kubectl_path_def helm_path_def minikube_path_def colima_path_def)

lemma mutates_docker [simp]: "\<not> mutates (answer x docker_path args out bad)"
  by (simp add: mutates_def docker_path_def kubectl_path_def helm_path_def minikube_path_def colima_path_def)

section \<open>The inventory\<close>

lemma check_owned_ok: "check_owned vs = Inr u \<Longrightarrow> v \<in> set vs \<Longrightarrow> owned v"
  by (induction vs) (auto split: if_splits)

lemma check_default_ok: "check_default vs = Inr u \<Longrightarrow> v \<in> set vs \<Longrightarrow> allowed_default v"
  by (induction vs) (auto split: if_splits)

lemma project_volumes_ok:
  "project_volumes remove vs = Inr names \<Longrightarrow> v \<in> set vs \<Longrightarrow> volume_allowed remove v"
  by (induction vs arbitrary: names) (auto simp: volume_allowed_def split: if_splits)

lemma volume_allowed_any: "volume_allowed remove v \<Longrightarrow> volume_allowed False v"
  by (simp add: volume_allowed_def split: if_splits)

lemma check_namespaces_ok:
  "check_namespaces ns = Inr u \<Longrightarrow> n \<in> set ns \<Longrightarrow>
     ko_Name n \<in> {project, ''kube-system'', ''kube-public'', ''kube-node-lease'', ''default''}"
  by (induction ns) (auto split: if_splits)

lemma check_names_ok: "check_names e names = Inr u \<Longrightarrow> set names \<subseteq> {project}"
  by (induction names) (auto split: if_splits)

lemma listed_append [simp]: "listed J (tr @ new) args Q \<longleftrightarrow> listed J tr args Q \<or> listed J new args Q"
  by (simp add: listed_def)

lemma kube_args_eq [simp]: "kube_args a = kube_args b \<longleftrightarrow> a = b"
  by (simp add: kube_args_def)

lemma listed_answer [simp]:
  "listed J (answer x kubectl_path (kube_args args') out bad # tr) args Q \<longleftrightarrow>
     args' = args \<and> \<not> bad \<and> (\<exists>vs. kj_list J out = Some (Some vs) \<and> (\<forall>v \<in> set vs. Q v)) \<or> listed J tr args Q"
  by (auto simp: listed_def)

lemma only_project_append [simp]: "only_project (tr @ new) args \<longleftrightarrow> only_project tr args \<or> only_project new args"
  by (simp add: only_project_def)

lemma adds_check_kinds:
  "adds (\<lambda>c. \<not> mutates c) (check_kinds (traced P) J ns check kinds)"
  by (induction P J ns check kinds rule: check_kinds.induct) auto

lemma adds_inventory: "adds (\<lambda>c. \<not> mutates c) (inventory (traced P) J remove)"
  unfolding inventory_def check_environment_def docker_def
  by (auto simp: Let_def intro!: adds_check_kinds)

lemma wp_check_kinds:
  assumes "\<And>vs v. check vs = Inr () \<Longrightarrow> v \<in> set vs \<Longrightarrow> Q v"
  shows "wp (check_kinds (traced P) J ns check kinds)
    (\<lambda>r tr'. \<exists>new. tr' = tr @ new \<and>
       (r = Inr () \<longrightarrow> (\<forall>k \<in> set kinds. listed J new [''-n'', ns, ''get'', k, ''-o'', ''json''] Q))) tr"
proof (induction kinds arbitrary: tr)
  case Nil
  then show ?case by simp
next
  case (Cons k kinds)
  show ?case
    apply (simp, intro wp_script)
      apply simp
     apply simp
    apply (rule wp_mono [OF Cons])
    using assms by auto
qed

lemma docker_args_eq [simp]: "docker_args a = docker_args b \<longleftrightarrow> a = b"
  by (simp add: docker_args_def)

lemma only_project_Cons [simp]:
  "only_project (c # tr) args \<longleftrightarrow>
     cm_name c = docker_path \<and> cm_args c = docker_args args \<and> \<not> cm_failed c
       \<and> set (Fields (cm_output c)) \<subseteq> {project} \<or> only_project tr args"
  by (auto simp: only_project_def)

lemma wp_check_environment:
  "wp (check_environment (traced P) J kinds)
     (\<lambda>r tr'. \<exists>new. tr' = tr @ new \<and> (r = Inr () \<longrightarrow> environment_checked J kinds new)) tr"
  unfolding check_environment_def
  apply (intro wp_script)
    apply simp
   apply simp
  apply (rule wp_bind, rule wp_mono [OF wp_check_kinds [where Q = allowed_default]])
   apply (erule (1) check_default_ok)
  apply (simp split: sum.split)
  apply (intro allI impI conjI)
   apply clarsimp
  apply (intro wp_script)
     apply auto [3]
  apply (clarsimp simp: environment_checked_def)
  apply (intro conjI ballI)
     apply (auto dest: check_namespaces_ok check_names_ok)
  done

lemma environment_checked_append:
  "environment_checked J kinds new \<Longrightarrow> environment_checked J kinds (tr @ new)"
  by (simp add: environment_checked_def)

lemma inventoried_append: "inventoried J remove kinds tr \<Longrightarrow> inventoried J remove kinds (tr @ new)"
  by (auto simp: inventoried_def environment_checked_def)

lemma wp_inventory:
  "wp (inventory (traced P) J remove)
     (\<lambda>r tr'. (\<exists>volumes. r = Inr volumes) \<longrightarrow> (\<exists>kinds. inventoried J remove kinds tr')) tr"
proof -
  let ?C = "\<lambda>r tr'. (\<exists>volumes. r = Inr volumes) \<longrightarrow> (\<exists>kinds. inventoried J remove kinds tr')"
  have last: "wp (bindA (if remove then check_environment (traced P) J kinds else ret ()) (\<lambda>_. ret volumes)) ?C tr'"
    if inv: "inventoried J False kinds tr'"
      and pv: "listed J tr' [''get'', ''pv'', ''-o'', ''json'']
         (volume_allowed remove)"
    for kinds volumes tr'
  proof (cases remove)
    case True
    show ?thesis
      unfolding if_P [OF True]
      apply (rule wp_bind, rule wp_mono [OF wp_check_environment])
      apply (clarsimp split: sum.split)
      apply (rule exI [of _ kinds])
      using inv pv True apply (auto simp: inventoried_def environment_checked_append)
      done
  next
    case False
    have "inventoried J remove kinds tr'" using inv False by simp
    then show ?thesis using False by (auto intro!: wp_bind)
  qed
  show ?thesis
    unfolding inventory_def Let_def
    apply (intro wp_script)
      apply simp
     apply simp
    apply (rule wp_bind, rule wp_mono [OF wp_check_kinds [where Q = owned]])
     apply (erule (1) check_owned_ok)
    apply (simp split: sum.split split del: if_split)
    apply (intro allI impI conjI)
     apply (clarsimp split del: if_split)
    apply (intro wp_script)
      apply simp
     apply simp
    apply (rule last)
     apply (auto simp: inventoried_def dest!: project_volumes_ok intro: volume_allowed_any)
    done
qed

section \<open>Nothing is removed before the inventory\<close>

lemma adds_waitVolumeGone:
  assumes "\<And>a out bad. take 1 a \<in> {[''wait''], [''get'']} \<Longrightarrow> S (answer x kubectl_path (kube_args a) out bad)"
  shows "adds S (waitVolumeGone (traced P) x name timeout)"
  unfolding waitVolumeGone_def
  by (rule adds_bind, rule adds_attempt, rule adds_kubectl)
     (use assms in \<open>auto split: sum.split\<close>)

lemma adds_wait_probe:
  assumes "\<And>a x out bad. take 1 a \<in> {[''wait''], [''get'']} \<Longrightarrow> S (answer x kubectl_path (kube_args a) out bad)"
  shows "adds S (wait_probe (traced P) ns vs)"
proof (induction vs)
  case (Cons v vs)
  then show ?case using assms by (auto intro!: adds_waitVolumeGone)
qed auto

text \<open>Everything the cleaner does only adds to the trace.\<close>

definition trace_le :: "command list \<times> 'w \<Rightarrow> command list \<times> 'w \<Rightarrow> bool" where
  "trace_le s t \<longleftrightarrow> (\<exists>new. fst t = fst s @ new)"

lemma traced_steady: "cleaner_host (traced P) trace_le"
  unfolding cleaner_host_def
  by unfold_locales (auto simp: trace_le_def traced_def split: prod.splits)

interpretation traced: cleaner_host "traced P" trace_le for P
  by (rule traced_steady)

lemma stays_adds: "stays trace_le m \<Longrightarrow> adds (\<lambda>c. True) m"
  by (auto simp: adds_def wp_def stays_def trace_le_def)

lemma wp_clean:
  "wp (clean (traced P) J remove)
     (\<lambda>r tr'. guarded (\<lambda>before c. mutates c \<longrightarrow> (\<exists>kinds. inventoried J remove kinds before)) tr') []"
proof -
  let ?G = "\<lambda>before c. mutates c \<longrightarrow> (\<exists>kinds. inventoried J remove kinds before)"
  have calm: "guarded ?G tr" if "\<forall>c \<in> set tr. \<not> mutates c" for tr
    using that by (auto simp: guarded_def)
  have "wp (inventory (traced P) J remove) (\<lambda>r tr'. (\<forall>c \<in> set tr'. \<not> mutates c)
      \<and> ((\<exists>volumes. r = Inr volumes) \<longrightarrow> (\<exists>kinds. inventoried J remove kinds tr'))) []"
    using addsD [OF adds_inventory, of P J remove "[]"] wp_inventory [of P J remove "[]"]
    by (simp add: wp_def)
  then show ?thesis
    unfolding clean_def
  proof (rule wp_bind [OF wp_mono], goal_cases)
    case (1 r tr')
    show ?case
    proof (cases r)
      case (Inl e)
      then show ?thesis using calm 1 by simp
    next
      case (Inr volumes)
      with 1 obtain kinds where inv: "inventoried J remove kinds tr'" by blast
      have "adds (\<lambda>c. True) (bindA (delete_deployment (traced P) J volumes)
          (\<lambda>_. if remove then remove_environment (traced P) J else ret ()))"
        by (rule stays_adds) auto
      from addsD [OF this, of tr'] show ?thesis
        unfolding Inr sum.case
        by (rule wp_mono) (use inv calm 1 in \<open>auto intro!: guarded_append inventoried_append\<close>)
    qed
  qed
qed

section \<open>Recovery of volumes\<close>

text \<open>The kind of change a \<^verbatim>\<open>kubectl\<close> command makes.\<close>

definition verb :: "command \<Rightarrow> string list" where
  "verb c = (if cm_name c = kubectl_path then take 1 (drop 3 (cm_args c)) else [])"

text \<open>
  A volume may be adopted: it is recoverable, it was listed, and the namespace of the project is
  gone. An identity was probed: it is that of the volume bound to the claim in a namespace created
  for the purpose.
\<close>

definition adoptable :: "kube_json \<Rightarrow> command list \<Rightarrow> kube_object \<Rightarrow> bool" where
  "adoptable J tr v \<longleftrightarrow> recoverable v
     \<and> got tr kubectl_path (kube_args [''get'', ''pv'', ''-o'', ''json''])
         (\<lambda>out. \<exists>vs. kj_list J out = Some (Some vs) \<and> v \<in> set vs)
     \<and> got tr kubectl_path (kube_args [''get'', ''namespace'', project, ''--ignore-not-found'', ''-o'', ''name''])
         (\<lambda>out. out = [])"

abbreviation probe_created :: "command list \<Rightarrow> string \<Rightarrow> bool" where
  "probe_created tr ns \<equiv> got tr kubectl_path (kube_args [''create'', ''namespace'', ns]) (\<lambda>_. True)"

definition probed :: "kube_json \<Rightarrow> command list \<Rightarrow> string \<Rightarrow> bool" where
  "probed J tr identity \<longleftrightarrow> (\<exists>ns name. probe_created tr ns
     \<and> got tr kubectl_path (kube_args [''get'', ''pv'', name, ''-o'', ''json''])
         (\<lambda>out. \<exists>pv. kj_object J out = Some pv \<and> valid_probe ns pv \<and> identity_of pv = identity))"

text \<open>
  A patch adopts an adoptable volume under a probed identity, with tests of its version; a
  deletion removes a namespace created before.
\<close>

definition confined :: "kube_json \<Rightarrow> command list \<Rightarrow> command \<Rightarrow> bool" where
  "confined J before c \<longleftrightarrow>
     (verb c = [''patch''] \<longrightarrow> (\<exists>v identity. adoptable J before v \<and> probed J before identity
        \<and> cm_args c = kube_args [''patch'', ''pv'', ko_Name v, ''--type=json'', ''-p'', kj_patch J (adoption v identity)]))
     \<and> (verb c = [''delete''] \<longrightarrow> (\<exists>ns. probe_created before ns
        \<and> cm_args c = kube_args [''delete'', ''namespace'', ns, ''--wait=true'', ''--timeout=120s'']))"

text \<open>The namespaces created and not deleted again.\<close>

definition creates :: "string \<Rightarrow> command \<Rightarrow> bool" where
  "creates ns c \<longleftrightarrow> cm_name c = kubectl_path \<and> cm_args c = kube_args [''create'', ''namespace'', ns]"

definition deletes :: "string \<Rightarrow> command \<Rightarrow> bool" where
  "deletes ns c \<longleftrightarrow> cm_context c = Cleanup_context \<and> cm_name c = kubectl_path
     \<and> cm_args c = kube_args [''delete'', ''namespace'', ns, ''--wait=true'', ''--timeout=120s'']"

definition pending :: "command list \<Rightarrow> string set" where
  "pending tr = {ns. \<exists>a c b. tr = a @ c # b \<and> creates ns c \<and> \<not> cm_failed c \<and> (\<forall>d \<in> set b. \<not> deletes ns d)}"

lemma pending_Nil [simp]: "pending [] = {}"
  by (simp add: pending_def)

lemma pending_snoc:
  "pending (tr @ [c]) \<subseteq> {ns \<in> pending tr. \<not> deletes ns c} \<union> {ns. creates ns c \<and> \<not> cm_failed c}"
proof
  fix ns
  assume "ns \<in> pending (tr @ [c])"
  then obtain a d b where tr: "tr @ [c] = a @ d # b" and d: "creates ns d" "\<not> cm_failed d"
      and b: "\<forall>e \<in> set b. \<not> deletes ns e"
    by (auto simp: pending_def)
  show "ns \<in> {ns \<in> pending tr. \<not> deletes ns c} \<union> {ns. creates ns c \<and> \<not> cm_failed c}"
  proof (cases b rule: rev_cases)
    case Nil
    then show ?thesis using tr d by simp
  next
    case (snoc b' e)
    then have "tr = a @ d # b'" "e = c" using tr by simp_all
    with d b snoc have "ns \<in> pending tr" unfolding pending_def by force
    then show ?thesis using b snoc \<open>e = c\<close> by simp
  qed
qed

lemma pending_append:
  "\<forall>c \<in> set new. \<forall>ns. \<not> creates ns c \<Longrightarrow>
     pending (tr @ new) \<subseteq> {ns \<in> pending tr. \<forall>c \<in> set new. \<not> deletes ns c}"
proof (induction new rule: rev_induct)
  case (snoc c new)
  then show ?case using pending_snoc [of "tr @ new" c] by (simp flip: append_assoc) blast
qed simp

section \<open>The probe\<close>

lemma verb_answer [simp]: "verb (answer x kubectl_path (kube_args args) out bad) = take 1 args"
  by (simp add: verb_def kube_args_def)

lemma creates_answer [simp]:
  "creates ns (answer x kubectl_path (kube_args args) out bad) \<longleftrightarrow> args = [''create'', ''namespace'', ns]"
  by (simp add: creates_def)

lemma deletes_answer [simp]:
  "deletes ns (answer x kubectl_path (kube_args args) out bad) \<longleftrightarrow>
     x = Cleanup_context \<and> args = [''delete'', ''namespace'', ns, ''--wait=true'', ''--timeout=120s'']"
  by (simp add: deletes_def)

text \<open>Commands that neither change a volume nor touch a namespace.\<close>

definition neutral :: "command \<Rightarrow> bool" where
  "neutral c \<longleftrightarrow> verb c \<noteq> [''patch''] \<and> verb c \<noteq> [''delete''] \<and> (\<forall>ns. \<not> creates ns c)"

lemma neutral_answer [simp]:
  "neutral (answer x kubectl_path (kube_args args) out bad) \<longleftrightarrow>
     take 1 args \<noteq> [''patch''] \<and> take 1 args \<noteq> [''delete''] \<and> (\<forall>ns. args \<noteq> [''create'', ''namespace'', ns])"
  by (auto simp: neutral_def)

lemma neutral_confined: "neutral c \<Longrightarrow> confined J before c"
  by (simp add: neutral_def confined_def)

text \<open>The invariant: every command so far was confined, and nothing but \<open>N\<close> is pending.\<close>

definition tidy :: "kube_json \<Rightarrow> string set \<Rightarrow> command list \<Rightarrow> bool" where
  "tidy J N tr \<longleftrightarrow> guarded (confined J) tr \<and> pending tr \<subseteq> N"

lemma tidy_neutral:
  assumes "tidy J N tr" and "neutral c"
  shows "tidy J N (tr @ [c])"
  using assms pending_snoc [of tr c] neutral_confined [OF assms(2)]
  by (auto simp: tidy_def neutral_def)

lemma tidy_append:
  assumes "tidy J N tr" and "\<forall>c \<in> set new. neutral c"
  shows "tidy J N (tr @ new)"
  using assms(2)
  by (induction new rule: rev_induct) (use assms(1) tidy_neutral [of J N "tr @ _"] in \<open>auto simp flip: append_assoc\<close>)

lemma adoptable_append: "adoptable J tr v \<Longrightarrow> adoptable J (tr @ new) v"
  by (auto simp: adoptable_def)

lemma probed_append: "probed J tr identity \<Longrightarrow> probed J (tr @ new) identity"
  by (auto simp: probed_def)

lemma tidy_patch:
  assumes "tidy J N tr" and "adoptable J tr v" and "probed J tr identity"
  shows "tidy J N (tr @ [answer x kubectl_path (kube_args [''patch'', ''pv'', ko_Name v, ''--type=json'', ''-p'',
    kj_patch J (adoption v identity)]) out bad])" (is "tidy J N (tr @ [?c])")
proof -
  have "confined J tr ?c"
    using assms(2,3) by (auto simp: confined_def)
  then show ?thesis
    using assms(1) pending_snoc [of tr ?c] by (auto simp: tidy_def)
qed

lemma wp_adopt:
  assumes "tidy J N tr" and "\<forall>v \<in> set vs. adoptable J tr v" and "probed J tr identity"
  shows "wp (adopt (traced P) J identity vs) (\<lambda>r t. tidy J N t) tr"
  using assms
proof (induction vs arbitrary: tr)
  case Nil
  then show ?case by simp
next
  case (Cons v vs)
  show ?case
  proof (cases "identity_of v = identity")
    case True
    then show ?thesis using Cons by simp
  next
    case False
    let ?c = "\<lambda>out bad. answer Action_context kubectl_path (kube_args [''patch'', ''pv'', ko_Name v, ''--type=json'', ''-p'',
        kj_patch J (adoption v identity)]) out bad"
    have tidy: "tidy J N (tr @ [?c out bad])" for out bad
      using Cons.prems by (auto intro: tidy_patch)
    have rest: "wp (adopt (traced P) J identity vs) (\<lambda>r t. tidy J N t) (tr @ [?c out False])" for out
      by (rule Cons.IH) (use tidy Cons.prems in \<open>auto intro: adoptable_append probed_append\<close>)
    show ?thesis
      using False by (auto intro!: wp_bind wp_call wp_bind_log simp: tidy rest)
  qed
qed

lemma probed_answer:
  assumes "probe_created tr ns" and "decode_object J out = Inr pv" and "valid_probe ns pv"
  shows "probed J (tr @ cs @ [answer x kubectl_path (kube_args [''get'', ''pv'', name, ''-o'', ''json'']) out False])
    (identity_of pv)"
  unfolding probed_def
  by (rule exI [of _ ns], rule exI [of _ name], intro conjI)
     (use assms in \<open>simp_all add: decode_object_def split: option.splits\<close>)

text \<open>The steps of the probe between the creation of its namespace and its removal.\<close>

lemma wp_probe_identity:
  assumes "tidy J N tr" and "probe_created tr ns"
    and "\<And>new identity. tidy J N (tr @ new) \<Longrightarrow> probed J (tr @ new) identity \<Longrightarrow>
       wp (use identity) (\<lambda>r t. tidy J N t) (tr @ new)"
  shows "wp (probe_identity (traced P) J ns document use) (\<lambda>r t. tidy J N t) tr"
  unfolding probe_identity_def
  apply (intro wp_script)
             apply (simp_all add: tidy_append [OF assms(1)])
  apply (rule assms(3))
   apply (simp add: tidy_append [OF assms(1)])
  apply (rule probed_answer [of tr ns J _ _ "[_, _, _]", OF assms(2), simplified], assumption+)
  done

lemma wp_probe_body:
  assumes "tidy J N tr" and "probe_created tr ns"
    and "\<And>new identity. tidy J N (tr @ new) \<Longrightarrow> probed J (tr @ new) identity \<Longrightarrow>
       wp (use identity) (\<lambda>r t. tidy J N t) (tr @ new)"
  shows "wp (probe_body (traced P) J ns use) (\<lambda>r t. tidy J N t) tr"
  unfolding probe_body_def
  by (rule wp_bind, rule wp_temp)
     (use assms in \<open>auto intro!: wp_defer_remove wp_probe_identity split: temp_result.split\<close>)

text \<open>The deferred removal deletes the namespace whatever else fails.\<close>

lemma wp_probe_cleanup:
  assumes "tidy J (insert ns N) tr" and "probe_created tr ns"
  shows "wp (probe_cleanup (traced P) J ns) (\<lambda>r t. tidy J N t) tr"
proof -
  let ?del = "\<lambda>out bad. answer Cleanup_context kubectl_path
    (kube_args [''delete'', ''namespace'', ns, ''--wait=true'', ''--timeout=120s'']) out bad"
  let ?get = "\<lambda>out bad. answer Cleanup_context kubectl_path (kube_args [''get'', ''pv'', ''-o'', ''json'']) out bad"
  have deleted: "tidy J N (tr @ [?get o1 b1, ?del o2 b2])" for o1 b1 o2 b2
  proof -
    have t1: "tidy J (insert ns N) (tr @ [?get o1 b1])" by (rule tidy_append [OF assms(1)]) simp
    have "confined J (tr @ [?get o1 b1]) (?del o2 b2)"
      using assms(2) by (auto simp: confined_def)
    moreover have "pending ((tr @ [?get o1 b1]) @ [?del o2 b2]) \<subseteq> N"
      using pending_snoc [of "tr @ [?get o1 b1]" "?del o2 b2"] t1 by (auto simp: tidy_def)
    ultimately have "tidy J N ((tr @ [?get o1 b1]) @ [?del o2 b2])"
      using t1 by (simp add: tidy_def del: append_assoc)
    then show ?thesis by simp
  qed
  have waits: "wp (wait_probe (traced P) ns vs) (\<lambda>r t. tidy J N t) (tr @ [?get o1 b1, ?del o2 b2])"
    for vs o1 b1 o2 b2
  proof -
    have "adds neutral (wait_probe (traced P) ns vs)" by (rule adds_wait_probe) auto
    from addsD [OF this] show ?thesis
      by (rule wp_mono) (use tidy_append [OF deleted] in auto)
  qed
  show ?thesis
    unfolding probe_cleanup_def
    apply (rule wp_bind, simp, rule wp_kube_list)
     apply (simp, rule wp_bind, simp, rule wp_kubectl)
      apply (simp_all add: deleted)
    apply (rule wp_bind, simp, rule wp_kubectl)
     apply (simp_all add: deleted waits)
    done
qed

lemma tidy_create:
  assumes "tidy J {} tr"
  shows "tidy J (if bad then {} else {ns}) (tr @ [answer x kubectl_path (kube_args [''create'', ''namespace'', ns]) out bad])"
  using assms pending_snoc [of tr "answer x kubectl_path (kube_args [''create'', ''namespace'', ns]) out bad"]
  by (auto simp: tidy_def confined_def split: if_splits)

lemma wp_withProvisionerIdentity:
  assumes "tidy J {} tr" and "\<And>identity. stays trace_le (use identity)"
    and use: "\<And>N new identity. tidy J N (tr @ new) \<Longrightarrow> probed J (tr @ new) identity \<Longrightarrow>
       wp (use identity) (\<lambda>r t. tidy J N t) (tr @ new)"
  shows "wp (withProvisionerIdentity (traced P) J use) (\<lambda>r t. tidy J {} t) tr"
proof -
  let ?get = "\<lambda>out. answer Action_context kubectl_path (kube_args [''get'', ''storageclass'', ''standard'', ''-o'', ''json''])
    out False"
  let ?make = "\<lambda>ns out bad. answer Action_context kubectl_path (kube_args [''create'', ''namespace'', ns]) out bad"
  have created: "tidy J (if bad then {} else {ns}) (tr @ [?get out, ?make ns out' bad])" for out ns out' bad
    using tidy_create [OF tidy_append [OF assms(1), of "[?get out]"]] by simp
  have body: "wp (deferA (probe_body (traced P) J ns use) (probe_cleanup (traced P) J ns) (Probe_cleanup ns))
      (\<lambda>r t. tidy J {} t) (tr @ [?get out, ?make ns out' False])" (is "wp _ _ ?tr") for out ns out'
  proof (rule wp_defer, rule wp_mono)
    have "wp (probe_body (traced P) J ns use) (\<lambda>r t. tidy J {ns} t) ?tr"
      by (rule wp_probe_body) (use use created [where bad = False] in auto)
    from wp_conj [OF this addsD [OF stays_adds [OF traced.stays_probe_body [OF assms(2)]]]]
    show "wp (probe_body (traced P) J ns use)
      (\<lambda>r t. tidy J {ns} t \<and> (\<exists>new. t = ?tr @ new \<and> (\<forall>c \<in> set new. True))) ?tr" .
  next
    fix r t
    assume "tidy J {ns} t \<and> (\<exists>new. t = ?tr @ new \<and> (\<forall>c \<in> set new. True))"
    then show "wp (probe_cleanup (traced P) J ns)
      (\<lambda>r'. tidy J {}) t"
      by (intro wp_probe_cleanup) auto
  qed
  show ?thesis
    unfolding withProvisionerIdentity_def Let_def
    apply (intro wp_script)
      apply (simp add: tidy_append [OF assms(1)])
     apply (simp add: tidy_append [OF assms(1)])
    apply (rule wp_bind, rule wp_random)
     apply (simp add: tidy_append [OF assms(1)])
    apply (simp, intro wp_script)
     apply (use created [where bad = True] in simp)
    apply (simp add: body)
    done
qed

lemma wp_recoverReleasedVolumes:
  assumes "tidy J {} tr"
  shows "wp (recoverReleasedVolumes (traced P) J) (\<lambda>r t. tidy J {} t) tr"
proof -
  note tidy = tidy_append [OF assms]
  show ?thesis
    unfolding recoverReleasedVolumes_def Let_def
    apply (intro wp_script)
     apply (simp add: tidy)
    apply (simp add: tidy, intro impI)
    apply (intro wp_script)
           apply (simp_all add: tidy)
    apply (rule wp_withProvisionerIdentity)
      apply (simp add: tidy)
     apply (rule traced.stays_adopt)
    apply (rule wp_adopt)
      apply assumption
     apply (auto simp: adoptable_def)
    done
qed

section \<open>What success means\<close>

text \<open>
  The commands of a successful removal of the deployment: uninstall, deletion of the namespace, a
  query that no longer finds it, then anything that recovers volumes, and a last listing in which
  no volume is claimed by the project.
\<close>

definition deployment_gone :: "kube_json \<Rightarrow> command list \<Rightarrow> bool" where
  "deployment_gone J new \<longleftrightarrow> (\<exists>out1 out2 out3 between out4 vs.
     new = [answer Action_context helm_path [''uninstall'', project, ''--kube-context'', project, ''-n'', project,
              ''--ignore-not-found'', ''--wait'', ''--timeout'', ''3m''] out1 False,
            answer Action_context kubectl_path (kube_args [''delete'', ''namespace'', project, ''--ignore-not-found'',
              ''--wait=true'', ''--timeout=180s'']) out2 False,
            answer Action_context kubectl_path (kube_args [''get'', ''namespace'', project, ''--ignore-not-found'',
              ''-o'', ''name'']) out3 False]
           @ between
           @ [answer Action_context kubectl_path (kube_args [''get'', ''pv'', ''-o'', ''json'']) out4 False]
     \<and> TrimSpace out3 = [] \<and> kj_list J out4 = Some (Some vs) \<and> (\<forall>v \<in> set vs. \<not> claimed_by project v))"

text \<open>And of the environment: both profiles are deleted and then no longer listed.\<close>

definition environment_gone :: "kube_json \<Rightarrow> command list \<Rightarrow> bool" where
  "environment_gone J new \<longleftrightarrow> (\<exists>out1 out2 failed out3 out4 valid invalid.
     new = [answer Action_context minikube_path [''delete'', ''-p'', project] out1 False,
            answer Action_context minikube_path [''profile'', ''list'', ''-o'', ''json''] out2 failed,
            answer Action_context colima_path [''delete'', project, ''--force'', ''--data''] out3 False,
            answer Action_context colima_path [''list'', ''--json''] out4 False]
     \<and> kj_profiles J out2 = Some (Some valid, Some invalid) \<and> project \<notin> set (valid @ invalid)
     \<and> (\<forall>p \<in> set (kj_names J out4). \<exists>name. p = Some name \<and> name \<noteq> project))"

lemma check_remaining_ok: "check_remaining vs = Inr u \<Longrightarrow> v \<in> set vs \<Longrightarrow> \<not> claimed_by project v"
  by (induction vs) (auto split: if_splits)

lemma check_colima_ok: "check_colima ps = Inr u \<Longrightarrow> p \<in> set ps \<Longrightarrow> \<exists>name. p = Some name \<and> name \<noteq> project"
  by (induction ps rule: check_colima.induct) (auto split: if_splits)

lemma wp_delete_deployment:
  "wp (delete_deployment (traced P) J volumes)
     (\<lambda>r t. r = Inr () \<longrightarrow> (\<exists>new. t = tr @ new \<and> deployment_gone J new)) tr"
proof -
  have last: "wp (bindA (kube_list (traced P) J Action_context [''get'', ''pv'', ''-o'', ''json'']) (\<lambda>remaining.
       bindA (checkA (check_remaining remaining)) (\<lambda>_. logA (traced P) line)))
     (\<lambda>r t. r = Inr () \<longrightarrow> (\<exists>out vs. t = tr2 @ [answer Action_context kubectl_path
        (kube_args [''get'', ''pv'', ''-o'', ''json'']) out False]
        \<and> kj_list J out = Some (Some vs) \<and> (\<forall>v \<in> set vs. \<not> claimed_by project v))) tr2" for line tr2
    by (intro wp_script) (auto dest: check_remaining_ok)
  have tail: "wp (bindA (recoverReleasedVolumes (traced P) J) (\<lambda>_. bindA (wait_volumes (traced P) J volumes) (\<lambda>_.
       bindA (kube_list (traced P) J Action_context [''get'', ''pv'', ''-o'', ''json'']) (\<lambda>remaining.
       bindA (checkA (check_remaining remaining)) (\<lambda>_. logA (traced P) line)))))
     (\<lambda>r t. r = Inr () \<longrightarrow> (\<exists>between out vs. t = tr2 @ between @ [answer Action_context kubectl_path
        (kube_args [''get'', ''pv'', ''-o'', ''json'']) out False]
        \<and> kj_list J out = Some (Some vs) \<and> (\<forall>v \<in> set vs. \<not> claimed_by project v))) tr2" for line tr2
    apply (rule wp_bind, rule wp_mono [OF addsD [OF stays_adds [OF traced.stays_recoverReleasedVolumes]]])
    apply (clarsimp split: sum.split)
    apply (rule wp_bind, rule wp_mono [OF addsD [OF stays_adds [OF traced.stays_wait_volumes]]])
    apply (clarsimp split: sum.split)
    apply (rule wp_mono [OF last])
    apply auto
    done
  show ?thesis
    unfolding delete_deployment_def
    apply (rule wp_bind_log, rule wp_bind, rule wp_call)
     apply (simp_all)
    apply (intro wp_script)
      apply simp_all
    apply (rule wp_mono [OF tail])
    apply (fastforce simp: deployment_gone_def)
    done
qed

lemma wp_remove_environment:
  "wp (remove_environment (traced P) J)
     (\<lambda>r t. r = Inr () \<longrightarrow> (\<exists>new. t = tr @ new \<and> environment_gone J new)) tr"
  unfolding remove_environment_def
  apply (rule wp_bind, rule wp_call)
   apply (simp_all)
  apply (rule wp_bind, rule wp_output)
  apply simp
  apply (rule wp_bind_checked)
   apply simp
  apply (rule wp_bind, rule wp_call)
   apply simp_all
  apply (rule wp_bind, rule wp_call)
   apply simp_all
  apply (rule wp_bind_checked)
   apply simp
  apply (auto simp: environment_gone_def check_profiles_def split: option.splits prod.splits dest: check_colima_ok)
  done

section \<open>Properties\<close>

text \<open>A cluster with one pod and one volume of the project, whose answers change when the namespace is deleted.\<close>

definition demo_object :: kube_object where
  "demo_object = \<lparr>ko_Kind = ''Pod'', ko_UID = ''u1'', ko_ResourceVersion = ''7'', ko_Name = ''pv1'', ko_Namespace = [],
     ko_Labels = (\<lambda>k. if k = ''app.kubernetes.io/instance'' then Some project else None),
     ko_Annotations = (\<lambda>k. if k = ''pv.kubernetes.io/provisioned-by'' then Some ''k8s.io/minikube-hostpath''
        else if k = ''hostPathProvisionerIdentity'' then Some ''old'' else None),
     ko_HostPath = Some ''/tmp/hostpath-provisioner/gpu-telemetry/gpu-telemetry-queue-data'',
     ko_StorageClassName = ''standard'', ko_VolumeName = ''pv9'', ko_ReclaimPolicy = ''Delete'',
     ko_ClaimRef = Some \<lparr>cr_Namespace = project, cr_Name = ''gpu-telemetry-queue-data''\<rparr>, ko_Phase = ''Released''\<rparr>"

definition demo_probe :: kube_object where
  "demo_probe = demo_object\<lparr>ko_Name := ''pv9'', ko_ClaimRef := Some \<lparr>cr_Namespace = ''gpu-telemetry-reclaim-000000000000'',
     cr_Name = ''identity-probe''\<rparr>, ko_Annotations := (\<lambda>k. if k = ''pv.kubernetes.io/provisioned-by''
        then Some ''k8s.io/minikube-hostpath'' else if k = ''hostPathProvisionerIdentity'' then Some ''new'' else None)\<rparr>"

definition demo_kube :: kube_json where
  "demo_kube = \<lparr>
     kj_list = (\<lambda>out. if out = ''one'' then Some (Some [demo_object])
        else if out = ''node'' then Some (Some [demo_object\<lparr>ko_Name := project\<rparr>]) else Some (Some [])),
     kj_object = (\<lambda>out. if out = ''claim'' then Some demo_object else if out = ''probe'' then Some demo_probe else None),
     kj_class = (\<lambda>_. Some \<lparr>sc_Provisioner = ''k8s.io/minikube-hostpath'', sc_ReclaimPolicy = ''Delete'',
        sc_VolumeBindingMode = ''Immediate''\<rparr>),
     kj_profiles = (\<lambda>_. Some (Some [], Some [])), kj_names = (\<lambda>_. []), kj_patch = (\<lambda>_. ''patch'')\<rparr>"

definition demo_output :: "bool \<Rightarrow> string list \<Rightarrow> string" where
  "demo_output gone args = (let a = drop 3 args in
     if take 1 a = [''api-resources''] then ''pods''
     else if a = [''get'', ''pv'', ''-o'', ''json''] \<or> take 2 a = [''-n'', project] then (if gone then ''none'' else ''one'')
     else if take 2 a = [''get'', ''nodes''] then ''node''
     else if take 2 a = [''-n'', ''kube-system''] then project
     else if take 5 (drop 2 a) = [''get'', ''pvc'', ''identity-probe'', ''-o'', ''json''] then ''claim''
     else if a = [''get'', ''pv'', ''pv9'', ''-o'', ''json''] then ''probe''
     else [])"

definition demo_runner :: "('d, bool) runner" where
  "demo_runner = \<lparr>rn_call = (\<lambda>x cmd args gone. ((demo_output gone args, False),
        gone \<or> take 3 (drop 3 args) = [''delete'', ''namespace'', project])),
     rn_log = (\<lambda>line gone. gone), rn_temp = (\<lambda>d gone. (Temp_written ''probe.json'', gone)),
     rn_remove = (\<lambda>name gone. gone), rn_random = (\<lambda>n gone. (Some (replicate n (char_of (0 :: nat))), gone))\<rparr>"

text \<open>Execution by rewriting, command by command: what follows a command is left alone until then.\<close>

lemma bindA_weak_cong: "m = m' \<Longrightarrow> w = w' \<Longrightarrow> bindA m f w = bindA m' f w'"
  by simp

lemma deferA_weak_cong: "m = m' \<Longrightarrow> w = w' \<Longrightarrow> deferA m final fail w = deferA m' final fail w'"
  by simp

lemma fields_pods: "Fields ''pods'' = [''pods'']"
  by code_simp

lemmas act_defs = bindA_def deferA_def ret_def throw_def checkA_def attempt_def logA_def callA_def outputA_def
  tempA_def removeA_def randomA_def traced_def

lemmas command_defs = kubectl_def kube_list_def decodeList_def decode_object_def kube_args_def kubectl_path_def
  helm_path_def minikube_path_def colima_path_def docker_path_def project_def waitVolumeGone_def

lemmas demo_defs = demo_runner_def demo_output_def demo_kube_def demo_object_def demo_probe_def

lemma demo_clean:
  "case clean (traced demo_runner) demo_kube False ([], False) of
     (r, tr, w) \<Rightarrow> r = Inr () \<and> w \<and> (\<exists>c \<in> set tr. mutates c)"
  by (simp cong: bindA_weak_cong deferA_weak_cong add: act_defs command_defs demo_defs clean_def inventory_def
    delete_deployment_def recoverReleasedVolumes_def fields_pods owned_def at_key_def claimed_by_def
    recoverable_def TrimSpace_def mutates_def)

lemma demo_recovery:
  "case recoverReleasedVolumes (traced demo_runner) demo_kube ([], False) of
     (r, tr, w) \<Rightarrow> r = Inr () \<and> (\<exists>c \<in> set tr. verb c = [''patch'']) \<and> (\<exists>c \<in> set tr. verb c = [''delete''])"
  by code_simp

text \<open>
  C37: the console removes nothing before its inventory is complete. Whatever commands answer, and
  whether cleanup succeeds or stops with an error, before every command that changes something it
  has listed every kind of resource of the project's namespace and recognized every object, and
  every volume of the project is reclaimed by deletion; before the removal of the environment it
  has also seen no other namespace, volume, container or application.
\<close>

theorem clean_guarded:
  assumes "clean (traced P) J remove ([], w) = (r, tr, w')"
    and "tr = before @ c # after" and "mutates c"
  shows "\<exists>kinds. inventoried J remove kinds before"
  using wpD [OF wp_clean assms(1)] assms(2,3) by (simp add: guarded_def)

theorem clean_guarded_witness:
  "\<exists>before c after r w'. clean (traced demo_runner) demo_kube False ([], False) = (r, before @ c # after, w')
     \<and> mutates c \<and> (\<exists>kinds. inventoried demo_kube False kinds before)"
proof -
  obtain r tr w' where run: "clean (traced demo_runner) demo_kube False ([], False) = (r, tr, w')" by (metis prod_cases3)
  with demo_clean obtain c where "c \<in> set tr" and c: "mutates c" by auto
  then obtain before after where tr: "tr = before @ c # after" by (meson split_list)
  from clean_guarded [OF run tr c] run tr c show ?thesis by blast
qed

text \<open>
  C38: when the console reports that cleanup succeeded, the removal was verified: after an inventory
  that changed nothing, the release was uninstalled, the namespace deleted and then no longer found,
  and the last listing of volumes shows none claimed by the project; for the environment, both
  profiles were deleted and are in neither of the listings taken afterwards.
\<close>

theorem clean_verified:
  assumes "clean (traced P) J remove ([], w) = (Inr (), tr, w')"
  shows "\<exists>kinds checks gone rest. tr = checks @ gone @ rest
     \<and> inventoried J remove kinds checks \<and> (\<forall>c \<in> set checks. \<not> mutates c)
     \<and> deployment_gone J gone \<and> (if remove then environment_gone J rest else rest = [])"
proof -
  let ?C = "\<lambda>r tr. r = Inr () \<longrightarrow> (\<exists>kinds checks gone rest. tr = checks @ gone @ rest
     \<and> inventoried J remove kinds checks \<and> (\<forall>c \<in> set checks. \<not> mutates c)
     \<and> deployment_gone J gone \<and> (if remove then environment_gone J rest else rest = []))"
  have removal: "wp (bindA (delete_deployment (traced P) J volumes)
      (\<lambda>_. if remove then remove_environment (traced P) J else ret ())) ?C checks"
    if "inventoried J remove kinds checks" and "\<forall>c \<in> set checks. \<not> mutates c" for volumes kinds checks
    apply (rule wp_bind, rule wp_mono [OF wp_delete_deployment])
    apply (clarsimp split: sum.split split del: if_split)
    apply (cases remove)
     apply (simp, rule wp_mono [OF wp_remove_environment])
    using that apply auto
    done
  have "wp (clean (traced P) J remove) ?C []"
    unfolding clean_def
    apply (rule wp_bind, rule wp_mono [OF wp_conj [OF wp_inventory addsD [OF adds_inventory]]])
    apply (clarsimp split: sum.split split del: if_split)
    apply (rule removal)
    apply auto
    done
  from wpD [OF this assms] show ?thesis by simp
qed

theorem clean_verified_witness:
  "\<exists>tr w'. clean (traced demo_runner) demo_kube False ([], False) = (Inr (), tr, w')
     \<and> (\<exists>kinds checks gone rest. tr = checks @ gone @ rest
       \<and> inventoried demo_kube False kinds checks \<and> (\<forall>c \<in> set checks. \<not> mutates c)
       \<and> deployment_gone demo_kube gone \<and> rest = [])"
proof -
  obtain r tr w' where run: "clean (traced demo_runner) demo_kube False ([], False) = (r, tr, w')" by (metis prod_cases3)
  with demo_clean have "r = Inr ()" by auto
  with run have run: "clean (traced demo_runner) demo_kube False ([], False) = (Inr (), tr, w')" by simp
  from clean_verified [OF run] run show ?thesis by auto
qed

text \<open>
  C39: recovery of released volumes stays with the project's volumes. Whatever commands answer, a
  volume is patched only when it was listed, recoverable and the project's namespace is gone, under
  an identity probed in a namespace of the recovery's own, with tests of its identity and version;
  no other namespace is deleted than the one created for the probe, and that one always is.
\<close>

theorem recovery_confined:
  assumes "recoverReleasedVolumes (traced P) J ([], w) = (r, tr, w')"
  shows "pending tr = {} \<and> (\<forall>before c after. tr = before @ c # after \<longrightarrow> confined J before c)"
  using wpD [OF wp_recoverReleasedVolumes assms] by (simp add: tidy_def guarded_def)

theorem recovery_confined_witness:
  "\<exists>r before c after w'. recoverReleasedVolumes (traced demo_runner) demo_kube ([], False) = (r, before @ c # after, w')
     \<and> verb c = [''patch''] \<and> pending (before @ c # after) = {} \<and> confined demo_kube before c"
proof -
  obtain r tr w' where run: "recoverReleasedVolumes (traced demo_runner) demo_kube ([], False) = (r, tr, w')"
    by (metis prod_cases3)
  with demo_recovery obtain c where "c \<in> set tr" and c: "verb c = [''patch'']" by auto
  then obtain before after where tr: "tr = before @ c # after" by (meson split_list)
  from recovery_confined [OF run] run tr c show ?thesis by blast
qed

end
