(* ===== verification/Console.thy ===== *)
theory Console
  imports Cleaner_Safety Api
begin

text \<open>
  console/main.go: the local console that runs one operation of the demonstration at a time. Its
  server is the record \<open>console\<close>; processes, files, ports and the network are the record \<open>host\<close> of
  operations on an arbitrary outside world. The run of an operation is one step of the machine
  \<open>console_step\<close>, between requests that find it running.
\<close>

section \<open>Data\<close>

record action_request =
  ar_Confirmation :: string
  ar_Action :: string
  ar_Root :: string
  ar_Streamers :: int
  ar_Collectors :: int

text \<open>\<^verbatim>\<open>server\<close>; \<open>sv_forward\<close> is the port-forward process, \<open>sv_cancel\<close> whether a cancel function is set.\<close>

record console =
  sv_root :: string
  sv_token :: string
  sv_host :: string
  sv_tag :: string
  sv_log :: string
  sv_action :: string
  sv_phase :: string
  sv_results :: "string \<Rightarrow> string option"
  sv_cancel :: bool
  sv_forward :: "nat option"
  sv_port :: int

datatype console_error =
  Canceled_action
| Command_error
| Unsupported_platform
| Relative_root
| Missing_file string
| Install_tools string
| Build_first
| File_error
| Confirmation_required
| Cleanup_stopped cleaner_error
| No_port
| Not_ready
| Unknown_action

text \<open>
  What happened to a command: it did not start, it exited, or it was stopped because its context
  ended; with what it wrote, each piece to standard output (\<open>True\<close>) or standard error.
\<close>

datatype exec_result =
  Not_started
| Exited "(bool \<times> string) list" bool
| Stopped "(bool \<times> string) list"

text \<open>A second of waiting for the port-forward: the context ended, or whether the process ended and the API is ready.\<close>

datatype poll_result = Poll_canceled | Polled bool bool

record 'o host =
  ho_os :: string
  ho_arch :: string
  ho_is_file :: "string \<Rightarrow> string \<Rightarrow> 'o \<Rightarrow> bool"
  ho_read_tag :: "string \<Rightarrow> 'o \<Rightarrow> string option"
  ho_make_work :: "string \<Rightarrow> 'o \<Rightarrow> bool \<times> 'o"
  ho_write_tag :: "string \<Rightarrow> string \<Rightarrow> 'o \<Rightarrow> bool \<times> 'o"
  ho_remove_tag :: "string \<Rightarrow> 'o \<Rightarrow> bool \<times> 'o"
  ho_stamp :: "'o \<Rightarrow> string"
  ho_ended :: "run_context \<Rightarrow> 'o \<Rightarrow> bool"
  ho_cancel :: "'o \<Rightarrow> 'o"
  ho_exec :: "run_context \<Rightarrow> string \<Rightarrow> string list \<Rightarrow> string \<Rightarrow> string list \<Rightarrow> 'o \<Rightarrow> exec_result \<times> 'o"
  ho_free_port :: "'o \<Rightarrow> int option \<times> 'o"
  ho_start :: "string \<Rightarrow> string list \<Rightarrow> 'o \<Rightarrow> nat option \<times> 'o"
  ho_kill :: "nat \<Rightarrow> 'o \<Rightarrow> 'o"
  ho_poll :: "int \<Rightarrow> 'o \<Rightarrow> poll_result \<times> 'o"
  ho_values :: "(string \<Rightarrow> int option) \<Rightarrow> 'o \<Rightarrow> temp_result \<times> 'o"
  ho_probe :: "probe_manifest \<Rightarrow> 'o \<Rightarrow> temp_result \<times> 'o"
  ho_remove :: "string \<Rightarrow> 'o \<Rightarrow> 'o"
  ho_random :: "nat \<Rightarrow> 'o \<Rightarrow> bytes option \<times> 'o"
  ho_get :: "int \<Rightarrow> string \<Rightarrow> string \<Rightarrow> 'o \<Rightarrow> (int \<times> bytes) option \<times> 'o"

text \<open>Code that runs on the console and its host.\<close>

type_synonym ('o, 'a) job = "(console \<times> 'o, console_error, 'a) act"

section \<open>Files\<close>

definition tag_matches :: "string \<Rightarrow> bool" where
  "tag_matches tag \<longleftrightarrow> take 8 tag = ''console-'' \<and> fits ''dddddddd-dddddd'' (drop 8 tag)"

definition savedTag :: "'o host \<Rightarrow> string \<Rightarrow> 'o \<Rightarrow> string" where
  "savedTag H dir w = (case ho_read_tag H dir w of
     None \<Rightarrow> []
   | Some data \<Rightarrow> if tag_matches (TrimSpace data) then TrimSpace data else [])"

definition required_files :: "string list" where
  "required_files = [''Makefile'', ''Brewfile'', ''go.mod'', ''scripts/install-tools.sh'', ''scripts/cluster-up.sh'',
     ''scripts/images.sh'', ''scripts/helm-install.sh'', ''scripts/helm-verify.sh'', ''deploy/docker/Dockerfile'',
     ''deploy/helm/gpu-telemetry/values.yaml'', ''Problemstatement/dcgm_metrics_20250718_134233.csv'']"

fun check_files :: "'o host \<Rightarrow> string \<Rightarrow> 'o \<Rightarrow> string list \<Rightarrow> console_error + unit" where
  "check_files H dir w [] = Inr ()"
| "check_files H dir w (p # ps) = (if \<not> ho_is_file H dir p w then Inl (Missing_file p) else check_files H dir w ps)"

definition validRoot :: "'o host \<Rightarrow> string \<Rightarrow> 'o \<Rightarrow> console_error + unit" where
  "validRoot H dir w = (if take 1 dir \<noteq> ''/'' then Inl Relative_root else check_files H dir w required_files)"

section \<open>Commands\<close>

definition log_limit :: nat where
  "log_limit = 160000"

definition Write :: "string \<Rightarrow> console \<Rightarrow> console" where
  "Write p s = (let all = sv_log s @ p in
     s\<lparr>sv_log := if length all > log_limit then drop (length all - log_limit) all else all\<rparr>)"

fun join_args :: "string list \<Rightarrow> string" where
  "join_args [] = []"
| "join_args [a] = a"
| "join_args (a # b # rest) = a @ '' '' @ join_args (b # rest)"

definition newline_str :: string where
  "newline_str = [newline]"

text \<open>What is added to the environment of a command.\<close>

definition command_env :: "console \<Rightarrow> string list" where
  "command_env s = [''PATH=/opt/homebrew/bin:/opt/homebrew/sbin:/usr/bin:/bin:/usr/sbin:/sbin'', ''IMAGE_TAG='' @ sv_tag s,
     ''DOCKER_CONTEXT=colima-gpu-telemetry'', ''MINIKUBE_PROFILE=gpu-telemetry'', ''KUBE_CONTEXT=gpu-telemetry'',
     ''RELEASE=gpu-telemetry'', ''NAMESPACE=gpu-telemetry'']"

text \<open>The pieces a command wrote go to the log, except that captured standard output is kept apart.\<close>

fun write_pieces :: "bool \<Rightarrow> (bool \<times> string) list \<Rightarrow> string \<times> console \<Rightarrow> string \<times> console" where
  "write_pieces captured [] (out, s) = (out, s)"
| "write_pieces captured ((std, p) # ps) (out, s) =
     write_pieces captured ps (if std \<and> captured then (out @ p, s) else (out, Write p s))"

definition command :: "'o host \<Rightarrow> run_context \<Rightarrow> bool \<Rightarrow> string \<Rightarrow> string list \<Rightarrow> console \<times> 'o \<Rightarrow>
    (string \<times> console_error option) \<times> (console \<times> 'o)" where
  "command H x captured name args = (\<lambda>(s, w).
     if ho_ended H x w then (([], Some Canceled_action), (s, w))
     else
       let s1 = Write (newline_str @ ''$ '' @ name @ '' '' @ join_args args @ newline_str) s in
       (case ho_exec H x (sv_root s1) (command_env s1) name args w of
          (Not_started, w1) \<Rightarrow> (([], Some Command_error), (s1, w1))
        | (Exited ps ok, w1) \<Rightarrow> (case write_pieces captured ps ([], s1) of
            (out, s2) \<Rightarrow> ((out, if ok then None else Some Command_error), (s2, w1)))
        | (Stopped ps, w1) \<Rightarrow> (case write_pieces captured ps ([], s1) of
            (out, s2) \<Rightarrow> ((out, Some Canceled_action), (s2, w1)))))"

definition run :: "'o host \<Rightarrow> string \<Rightarrow> string list \<Rightarrow> ('o, unit) job" where
  "run H name args sw = (case command H Action_context False name args sw of
     ((out, None), sw') \<Rightarrow> (Inr (), sw') | ((out, Some e), sw') \<Rightarrow> (Inl e, sw'))"

definition capture :: "'o host \<Rightarrow> run_context \<Rightarrow> string \<Rightarrow> string list \<Rightarrow> console \<times> 'o \<Rightarrow>
    (string \<times> bool) \<times> (console \<times> 'o)" where
  "capture H x name args sw = (case command H x True name args sw of
     ((out, e), sw') \<Rightarrow> ((out, e \<noteq> None), sw'))"

text \<open>The runner the cleaner gets: \<^verbatim>\<open>cleaner{call: s.capture, log: s}\<close>.\<close>

definition cleaner_runner :: "'o host \<Rightarrow> (probe_manifest, console \<times> 'o) runner" where
  "cleaner_runner H = \<lparr>
     rn_call = capture H,
     rn_log = (\<lambda>line (s, w). (Write (line @ newline_str) s, w)),
     rn_temp = (\<lambda>d (s, w). case ho_probe H d w of (r, w') \<Rightarrow> (r, (s, w'))),
     rn_remove = (\<lambda>name (s, w). (s, ho_remove H name w)),
     rn_random = (\<lambda>n (s, w). case ho_random H n w of (r, w') \<Rightarrow> (r, (s, w')))\<rparr>"

text \<open>Changes of the server's state and calls of the host, as steps of a job.\<close>

definition serverA :: "(console \<Rightarrow> console) \<Rightarrow> ('o, unit) job" where
  "serverA f = (\<lambda>(s, w). (Inr (), (f s, w)))"

definition hostA :: "(console \<Rightarrow> 'o \<Rightarrow> 'a \<times> 'o) \<Rightarrow> ('o, 'a) job" where
  "hostA f = (\<lambda>(s, w). case f s w of (a, w') \<Rightarrow> (Inr a, (s, w')))"

definition readA :: "(console \<Rightarrow> 'o \<Rightarrow> 'a) \<Rightarrow> ('o, 'a) job" where
  "readA f = (\<lambda>(s, w). (Inr (f s w), (s, w)))"

section \<open>The connection to the API\<close>

definition stopForward :: "'o host \<Rightarrow> console \<times> 'o \<Rightarrow> console \<times> 'o" where
  "stopForward H = (\<lambda>(s, w).
     (s\<lparr>sv_forward := None, sv_port := 0\<rparr>,
      case sv_forward s of None \<Rightarrow> w | Some pid \<Rightarrow> ho_kill H pid w))"

definition stopA :: "'o host \<Rightarrow> ('o, unit) job" where
  "stopA H sw = (Inr (), stopForward H sw)"

text \<open>The goroutine that waits for the port-forward to end.\<close>

definition forward_ended :: "nat \<Rightarrow> console \<Rightarrow> console" where
  "forward_ended pid s = (if sv_forward s = Some pid then s\<lparr>sv_forward := None, sv_port := 0\<rparr> else s)"

fun connect_loop :: "'o host \<Rightarrow> nat \<Rightarrow> int \<Rightarrow> nat \<Rightarrow> ('o, unit) job" where
  "connect_loop H pid port 0 = bindA (stopA H) (\<lambda>_. throw Not_ready)"
| "connect_loop H pid port (Suc n) =
     bindA (hostA (\<lambda>s w. ho_poll H port w)) (\<lambda>r.
       case r of
         Poll_canceled \<Rightarrow> bindA (stopA H) (\<lambda>_. throw Canceled_action)
       | Polled over ready \<Rightarrow>
           bindA (serverA (\<lambda>s. if over then forward_ended pid s else s)) (\<lambda>_.
             if ready then serverA (\<lambda>s. s\<lparr>sv_port := port\<rparr>)
             else connect_loop H pid port n))"

definition forward_args :: "int \<Rightarrow> string list" where
  "forward_args port = [''--context'', ''gpu-telemetry'', ''-n'', ''gpu-telemetry'', ''port-forward'',
     ''--address=127.0.0.1'', ''service/gpu-telemetry-api'', decimal_int port @ '':8080'']"

definition connect :: "'o host \<Rightarrow> ('o, unit) job" where
  "connect H =
     bindA (stopA H) (\<lambda>_.
     bindA (hostA (\<lambda>s w. ho_free_port H w)) (\<lambda>free.
       case free of
         None \<Rightarrow> throw No_port
       | Some port \<Rightarrow>
           bindA (hostA (\<lambda>s w. ho_start H kubectl_path (forward_args port) w)) (\<lambda>started.
             case started of
               None \<Rightarrow> throw Command_error
             | Some pid \<Rightarrow>
                 bindA (serverA (\<lambda>s. s\<lparr>sv_forward := Some pid\<rparr>)) (\<lambda>_.
                   connect_loop H pid port 60))))"

section \<open>Operations\<close>

definition run_make :: "'o host \<Rightarrow> string list \<Rightarrow> ('o, unit) job" where
  "run_make H args = run H ''/usr/bin/make'' args"

definition check_platform :: "'o host \<Rightarrow> console_error + unit" where
  "check_platform H = fail_if (ho_os H \<noteq> ''darwin'' \<or> ho_arch H \<noteq> ''arm64'') Unsupported_platform"

text \<open>An error of a job, replaced.\<close>

definition failing_with :: "console_error \<Rightarrow> ('o, unit) job \<Rightarrow> ('o, unit) job" where
  "failing_with e m sw = (case m sw of (Inl _, sw') \<Rightarrow> (Inl e, sw') | (Inr u, sw') \<Rightarrow> (Inr u, sw'))"

definition execute_check :: "'o host \<Rightarrow> ('o, unit) job" where
  "execute_check H =
     bindA (checkA (check_platform H)) (\<lambda>_.
     bindA (readA (\<lambda>s w. validRoot H (sv_root s) w)) (\<lambda>valid.
     bindA (checkA valid) (\<lambda>_.
     bindA (failing_with (Install_tools ''xcode-select'') (run H ''/usr/bin/xcode-select'' [''-p''])) (\<lambda>_.
       failing_with (Install_tools ''brew'') (run H ''/opt/homebrew/bin/brew'' [''--version''])))))"

text \<open>The targets of a build; after a failure the tag is again the one last saved.\<close>

fun build_targets :: "'o host \<Rightarrow> string list \<Rightarrow> ('o, unit) job" where
  "build_targets H [] = ret ()"
| "build_targets H (t # ts) =
     bindA (attempt (run_make H [t])) (\<lambda>made.
       case made of
         Inr _ \<Rightarrow> build_targets H ts
       | Inl e \<Rightarrow>
           bindA (readA (\<lambda>s w. savedTag H (sv_root s) w)) (\<lambda>tag.
           bindA (serverA (\<lambda>s. s\<lparr>sv_tag := tag\<rparr>)) (\<lambda>_. throw e)))"

definition execute_build :: "'o host \<Rightarrow> ('o, unit) job" where
  "execute_build H =
     bindA (readA (\<lambda>s w. ho_stamp H w)) (\<lambda>stamp.
     bindA (serverA (\<lambda>s. s\<lparr>sv_tag := ''console-'' @ stamp\<rparr>)) (\<lambda>_.
     bindA (build_targets H [''build'', ''docker-build'', ''minikube-load'']) (\<lambda>_.
     bindA (hostA (\<lambda>s w. ho_make_work H (sv_root s) w)) (\<lambda>made.
     bindA (checkA (fail_if (\<not> made) File_error)) (\<lambda>_.
     bindA (hostA (\<lambda>s w. ho_write_tag H (sv_root s) (sv_tag s) w)) (\<lambda>saved.
       checkA (fail_if (\<not> saved) File_error)))))))"

definition replica_values :: "action_request \<Rightarrow> string \<Rightarrow> int option" where
  "replica_values r k =
     (if k = ''streamer'' \<and> ar_Streamers r > 0 then Some (ar_Streamers r)
      else if k = ''collector'' \<and> ar_Collectors r > 0 then Some (ar_Collectors r) else None)"

definition removeH :: "'o host \<Rightarrow> string \<Rightarrow> ('o, unit) job" where
  "removeH H name = hostA (\<lambda>s w. ((), ho_remove H name w))"

definition execute_deploy :: "'o host \<Rightarrow> action_request \<Rightarrow> ('o, unit) job" where
  "execute_deploy H r =
     bindA (readA (\<lambda>s w. sv_tag s)) (\<lambda>tag.
     bindA (checkA (fail_if (tag = []) Build_first)) (\<lambda>_.
     bindA (run_make H [''helm-check'']) (\<lambda>_.
       if ar_Streamers r \<noteq> 0 \<or> ar_Collectors r \<noteq> 0 then
         bindA (hostA (\<lambda>s w. ho_values H (replica_values r) w)) (\<lambda>temp.
           case temp of
             No_temp \<Rightarrow> throw File_error
           | Temp_failed name \<Rightarrow> deferA (throw File_error) (removeH H name) File_error
           | Temp_written name \<Rightarrow>
               deferA (run_make H [''helm-install'', ''VALUES_FILE='' @ name]) (removeH H name) File_error)
       else run_make H [''helm-install''])))"

definition cleanA :: "'o host \<Rightarrow> kube_json \<Rightarrow> bool \<Rightarrow> ('o, unit) job" where
  "cleanA H J remove sw = (case clean (cleaner_runner H) J remove sw of
     (Inl e, sw') \<Rightarrow> (Inl (Cleanup_stopped e), sw') | (Inr u, sw') \<Rightarrow> (Inr u, sw'))"

definition execute_cleanup :: "'o host \<Rightarrow> kube_json \<Rightarrow> action_request \<Rightarrow> ('o, unit) job" where
  "execute_cleanup H J r =
     bindA (checkA (fail_if (ar_Confirmation r \<noteq> cleanupConfirmation (ar_Action r)) Confirmation_required)) (\<lambda>_.
     bindA (stopA H) (\<lambda>_.
     bindA (run_make H [''cluster-up'']) (\<lambda>_.
     bindA (cleanA H J (ar_Action r = ''remove-environment'')) (\<lambda>_.
     bindA (if ar_Action r = ''remove-environment'' then
              bindA (hostA (\<lambda>s w. ho_remove_tag H (sv_root s) w)) (\<lambda>removed.
              bindA (checkA (fail_if (\<not> removed) File_error)) (\<lambda>_.
                serverA (\<lambda>s. s\<lparr>sv_tag := []\<rparr>)))
            else run_make H [''cluster-down'']) (\<lambda>_.
     bindA (serverA (\<lambda>s. s\<lparr>sv_results := Map.empty\<rparr>)) (\<lambda>_.
       serverA (Write (''Deployment data removed. Cleanup and shutdown verified.'' @ newline_str))))))))"

definition execute :: "'o host \<Rightarrow> kube_json \<Rightarrow> action_request \<Rightarrow> ('o, unit) job" where
  "execute H J r = (let action = ar_Action r in
     if action = ''check'' then execute_check H
     else if action = ''tools'' then bindA (run_make H [''tools'']) (\<lambda>_. run_make H [''doctor''])
     else if action = ''cluster'' then run_make H [''cluster-up'']
     else if action = ''build'' then execute_build H
     else if action = ''deploy'' then execute_deploy H r
     else if action = ''verify'' then run_make H [''helm-verify'']
     else if action = ''connect'' then connect H
     else if action = ''disconnect'' then stopA H
     else if action = ''stop'' then bindA (stopA H) (\<lambda>_. run_make H [''cluster-down''])
     else if action = ''cleanup'' \<or> action = ''remove-environment'' then execute_cleanup H J r
     else if action = ''status'' then run H kubectl_path [''--context'', ''gpu-telemetry'', ''-n'', ''gpu-telemetry'',
       ''get'', ''pods,jobs,services,pvc'']
     else throw Unknown_action)"

section \<open>Requests\<close>

record http_request =
  hr_host :: string
  hr_origin :: string
  hr_token :: string
  hr_path :: string
  hr_method :: string
  hr_query :: string
  hr_body :: "action_request option"

text \<open>The body is \<open>None\<close> when it does not decode as an action or is longer than 8192 bytes.\<close>

datatype console_reply =
  Code int
| Snapshot string string string string "string \<Rightarrow> string option" bool
| Proxied int bytes

definition authorized :: "console \<Rightarrow> http_request \<Rightarrow> bool" where
  "authorized s r \<longleftrightarrow> \<not> (hr_host r \<noteq> sv_host s
     \<or> (hr_origin r \<noteq> [] \<and> hr_origin r \<noteq> ''http://'' @ sv_host s)
     \<or> hr_token r \<noteq> sv_token s)"

text \<open>\<^verbatim>\<open>url.Values.Get\<close> on a query, in which settings that do not parse are left out.\<close>

definition query_get :: "string \<Rightarrow> string \<Rightarrow> string" where
  "query_get raw k = (case query_values k
       (List.map_filter query_pair (filter (\<lambda>piece. piece \<noteq> []) (pieces CHR ''&'' [] raw))) of
     [] \<Rightarrow> [] | v # _ \<Rightarrow> v)"

text \<open>\<^verbatim>\<open>url.QueryEscape\<close> and \<^verbatim>\<open>url.PathEscape\<close>.\<close>

definition unreserved :: "char \<Rightarrow> bool" where
  "unreserved c \<longleftrightarrow> (CHR ''a'' \<le> c \<and> c \<le> CHR ''z'') \<or> (CHR ''A'' \<le> c \<and> c \<le> CHR ''Z'')
     \<or> (CHR ''0'' \<le> c \<and> c \<le> CHR ''9'') \<or> c \<in> {CHR ''-'', CHR ''_'', CHR ''.'', CHR ''~''}"

definition upper_hex :: "nat \<Rightarrow> char" where
  "upper_hex n = ''0123456789ABCDEF'' ! n"

definition percent :: "char \<Rightarrow> string" where
  "percent c = [CHR ''%'', upper_hex (of_char c div 16), upper_hex (of_char c mod 16)]"

definition QueryEscape :: "string \<Rightarrow> string" where
  "QueryEscape s = concat (map (\<lambda>c. if unreserved c then [c] else if c = CHR '' '' then ''+'' else percent c) s)"

definition PathEscape :: "string \<Rightarrow> string" where
  "PathEscape s = concat (map (\<lambda>c. if unreserved c \<or> c \<in> {CHR ''$'', CHR ''&'', CHR ''+'', CHR ''='', CHR '':'', CHR ''@''}
     then [c] else percent c) s)"

text \<open>\<^verbatim>\<open>url.Values.Encode\<close> of settings already in the order of their keys.\<close>

fun encode_query :: "(string \<times> string) list \<Rightarrow> string" where
  "encode_query [] = []"
| "encode_query [(k, v)] = QueryEscape k @ ''='' @ QueryEscape v"
| "encode_query ((k, v) # kv # kvs) = QueryEscape k @ ''='' @ QueryEscape v @ ''&'' @ encode_query (kv # kvs)"

definition telemetry_path :: "string \<Rightarrow> string" where
  "telemetry_path raw = (let gpu = query_get raw ''uuid'' in
     ''/api/v1/gpus'' @ (if gpu \<noteq> [] then ''/'' @ PathEscape gpu @ ''/telemetry'' else []))"

definition telemetry_query :: "string \<Rightarrow> string" where
  "telemetry_query raw = encode_query (filter (\<lambda>(k, v). v \<noteq> [])
     [(''end_time'', query_get raw ''end_time''), (''start_time'', query_get raw ''start_time'')])"

definition proxy :: "'o host \<Rightarrow> http_request \<Rightarrow> console \<Rightarrow> 'o \<Rightarrow> console_reply \<times> 'o" where
  "proxy H r s w =
     (if sv_port s = 0 then (Code 409, w)
      else (case ho_get H (sv_port s) (telemetry_path (hr_query r)) (telemetry_query (hr_query r)) w of
          (None, w') \<Rightarrow> (Code 502, w')
        | (Some (status, body), w') \<Rightarrow> (Proxied status (take (64 * 2 ^ 20) body), w')))"

definition snapshot :: "console \<Rightarrow> console_reply" where
  "snapshot s = Snapshot (sv_root s) (sv_action s) (sv_phase s) (sv_log s) (sv_results s) (sv_port s > 0)"

definition allowed_actions :: "string list" where
  "allowed_actions = [''check'', ''tools'', ''cluster'', ''build'', ''deploy'', ''verify'', ''connect'', ''disconnect'', ''stop'',
     ''status'', ''cleanup'', ''remove-environment'']"

text \<open>A change of the repository asked for together with an action; the error is the status.\<close>

definition change_root :: "'o host \<Rightarrow> action_request \<Rightarrow> console \<Rightarrow> 'o \<Rightarrow> int + console" where
  "change_root H r s w =
     (if ar_Root r \<noteq> [] \<and> ar_Root r \<noteq> sv_root s then
        (case validRoot H (ar_Root r) w of
           Inl _ \<Rightarrow> Inl 400
         | Inr _ \<Rightarrow>
             if sv_forward s \<noteq> None then Inl 409
             else Inr (s\<lparr>sv_root := ar_Root r, sv_tag := savedTag H (ar_Root r) w, sv_results := Map.empty\<rparr>))
      else Inr s)"

definition begin_action :: "action_request \<Rightarrow> console \<Rightarrow> console" where
  "begin_action r s = s\<lparr>sv_action := ar_Action r, sv_phase := ''running'', sv_log := [],
     sv_results := (sv_results s)(ar_Action r \<mapsto> ''running''), sv_cancel := True\<rparr>"

text \<open>The result carries the action that is started, if one is.\<close>

definition start_action :: "'o host \<Rightarrow> action_request \<Rightarrow> console \<Rightarrow> 'o \<Rightarrow>
    console_reply \<times> console \<times> 'o \<times> action_request option" where
  "start_action H r s w =
     (if ar_Streamers r < 0 \<or> ar_Streamers r > 10 \<or> ar_Collectors r < 0 \<or> ar_Collectors r > 10 then (Code 400, s, w, None)
      else if ar_Action r = ''cancel'' then (Code 202, s, if sv_cancel s then ho_cancel H w else w, None)
      else if sv_phase s = ''running'' then (Code 409, s, w, None)
      else if ar_Action r \<notin> set allowed_actions then (Code 400, s, w, None)
      else if (ar_Action r = ''cleanup'' \<or> ar_Action r = ''remove-environment'')
          \<and> ar_Confirmation r \<noteq> cleanupConfirmation (ar_Action r) then (Code 400, s, w, None)
      else (case change_root H r s w of
          Inl status \<Rightarrow> (Code status, s, w, None)
        | Inr s1 \<Rightarrow> (Code 202, begin_action r s1, w, Some r)))"

definition api :: "'o host \<Rightarrow> http_request \<Rightarrow> console \<Rightarrow> 'o \<Rightarrow>
    console_reply \<times> console \<times> 'o \<times> action_request option" where
  "api H r s w =
     (if \<not> authorized s r then (Code 403, s, w, None)
      else if hr_path r = ''/control/status'' \<and> hr_method r = ''GET'' then (snapshot s, s, w, None)
      else if hr_path r = ''/control/telemetry'' \<and> hr_method r = ''GET'' then
        (case proxy H r s w of (reply, w') \<Rightarrow> (reply, s, w', None))
      else if hr_path r \<noteq> ''/control/action'' \<or> hr_method r \<noteq> ''POST'' then (Code 404, s, w, None)
      else (case hr_body r of
          None \<Rightarrow> (Code 400, s, w, None)
        | Some a \<Rightarrow> start_action H a s w))"

text \<open>The goroutine of an action, after its execution.\<close>

definition finish_action :: "action_request \<Rightarrow> console_error + unit \<Rightarrow> string \<Rightarrow> console \<Rightarrow> console" where
  "finish_action r result message s = (let s1 = Write message s;
       phase = (case result of Inl _ \<Rightarrow> ''failed'' | Inr _ \<Rightarrow> ''passed'')
     in s1\<lparr>sv_phase := phase, sv_results := (sv_results s1)(ar_Action r \<mapsto> phase), sv_cancel := False\<rparr>)"

definition run_action :: "'o host \<Rightarrow> kube_json \<Rightarrow> (console_error \<Rightarrow> string) \<Rightarrow> action_request \<Rightarrow>
    console \<times> 'o \<Rightarrow> console \<times> 'o" where
  "run_action H J text r sw = (case execute H J r sw of
     (result, (s, w)) \<Rightarrow>
       (finish_action r result
          (case result of Inl e \<Rightarrow> newline_str @ ''ERROR: '' @ text e @ newline_str
           | Inr _ \<Rightarrow> newline_str @ ''Completed successfully.'' @ newline_str) s, w))"

section \<open>The machine\<close>

text \<open>The console when \<^verbatim>\<open>main\<close> has set it up: absolute root, address, 24 random bytes.\<close>

definition console_init :: "'o host \<Rightarrow> string \<Rightarrow> string \<Rightarrow> bytes \<Rightarrow> 'o \<Rightarrow> console" where
  "console_init H dir addr b w = \<lparr>sv_root = dir, sv_token = hex_encode b, sv_host = addr, sv_tag = savedTag H dir w,
     sv_log = [], sv_action = [], sv_phase = ''idle'', sv_results = Map.empty, sv_cancel = False,
     sv_forward = None, sv_port = 0\<rparr>"

text \<open>What \<^verbatim>\<open>main\<close> does when a signal ends it.\<close>

definition shutdown :: "'o host \<Rightarrow> console \<times> 'o \<Rightarrow> console \<times> 'o" where
  "shutdown H = (\<lambda>(s, w). stopForward H (s, if sv_cancel s then ho_cancel H w else w))"

record 'o machine =
  mc_server :: console
  mc_world :: 'o
  mc_running :: "action_request option"

inductive console_step :: "'o host \<Rightarrow> kube_json \<Rightarrow> (console_error \<Rightarrow> string) \<Rightarrow> 'o machine \<Rightarrow> 'o machine \<Rightarrow> bool"
  for H :: "'o host" and J :: kube_json and msg :: "console_error \<Rightarrow> string" where
  request: "api H r (mc_server m) (mc_world m) = (reply, s, w, started) \<Longrightarrow>
     console_step H J msg m \<lparr>mc_server = s, mc_world = w,
       mc_running = (case started of None \<Rightarrow> mc_running m | Some a \<Rightarrow> Some a)\<rparr>"
| action: "mc_running m = Some a \<Longrightarrow> run_action H J msg a (mc_server m, mc_world m) = (s, w) \<Longrightarrow>
     console_step H J msg m \<lparr>mc_server = s, mc_world = w, mc_running = None\<rparr>"
| forward: "console_step H J msg m (m\<lparr>mc_server := forward_ended pid (mc_server m)\<rparr>)"
| outside: "console_step H J msg m (m\<lparr>mc_world := w\<rparr>)"

section \<open>What an operation leaves alone\<close>

text \<open>
  The fields that only requests and the end of an operation change; the log keeps its bound, and
  the results of earlier operations are kept or forgotten.
\<close>

definition framed :: "console \<times> 'o \<Rightarrow> console \<times> 'o \<Rightarrow> bool" where
  "framed sw sw' \<longleftrightarrow> (case (sw, sw') of ((s, _), (s', _)) \<Rightarrow>
     sv_phase s' = sv_phase s \<and> sv_action s' = sv_action s \<and> sv_cancel s' = sv_cancel s
     \<and> sv_token s' = sv_token s \<and> sv_host s' = sv_host s \<and> sv_root s' = sv_root s
     \<and> (length (sv_log s) \<le> log_limit \<longrightarrow> length (sv_log s') \<le> log_limit)
     \<and> sv_results s' \<subseteq>\<^sub>m sv_results s)"

lemma framed_refl: "framed sw sw"
  by (cases sw) (simp add: framed_def)

lemma framed_trans: "framed u v \<Longrightarrow> framed v w \<Longrightarrow> framed u w"
  by (cases u; cases v; cases w) (auto simp: framed_def intro: map_le_trans)

lemma length_Write: "length (sv_log (Write p s)) \<le> log_limit"
  by (auto simp: Write_def Let_def simp del: length_append drop_append)

lemma framed_Write: "framed (s, w) (Write p s, w')"
  using length_Write [of p s] by (simp add: framed_def) (simp add: Write_def Let_def)

lemma framed_pieces: "write_pieces captured ps (out, s) = (out', s') \<Longrightarrow> framed (s, w) (s', w')"
proof (induction captured ps "(out, s)" arbitrary: out s rule: write_pieces.induct)
  case (1 captured out s)
  then show ?case using framed_refl [of "(s, w)"] by (simp add: framed_def)
next
  case (2 captured std p ps out s)
  then show ?case
    using framed_trans [OF framed_Write [of s w p w]] by (auto split: if_splits)
qed

lemma framed_command: "command H x captured name args sw = (r, sw') \<Longrightarrow> framed sw sw'"
  by (cases sw)
     (auto simp: command_def Let_def framed_refl intro: framed_Write framed_trans [OF framed_Write framed_pieces]
       split: if_splits exec_result.splits prod.splits)

lemma cleaner_runner_steady: "cleaner_host (cleaner_runner H) framed"
  unfolding cleaner_host_def
proof unfold_locales
  show "framed w (snd (rn_call (cleaner_runner H) x cmd args w))" for w x cmd args
    using framed_command [of H x True cmd args w]
    by (auto simp: cleaner_runner_def capture_def split: prod.splits)
qed (auto simp: cleaner_runner_def framed_refl framed_Write split: prod.splits
      intro: framed_trans, auto simp: framed_def)

interpretation host: cleaner_host "cleaner_runner H" framed for H
  by (rule cleaner_runner_steady)

text \<open>Steps of jobs that change other fields only.\<close>

lemma framed_server:
  fixes f :: "console \<Rightarrow> console"
  assumes "\<And>s (w :: 'o). framed (s, w) (f s, w)"
  shows "stays framed (serverA f :: ('o, unit) job)"
  using assms by (auto simp: stays_def serverA_def)

lemma framed_hostA: "stays framed (hostA f)"
  by (auto simp: stays_def hostA_def framed_def split: prod.splits)

lemma framed_readA: "stays framed (readA f)"
  by (auto simp: stays_def readA_def framed_refl)

lemma framed_stopA: "stays framed (stopA H)"
  by (auto simp: stays_def stopA_def stopForward_def framed_def)

lemma framed_run: "stays framed (run H name args)"
  unfolding stays_def run_def
  by (auto split: prod.splits option.splits dest: framed_command)

lemma framed_failing_with: "stays framed m \<Longrightarrow> stays framed (failing_with e m)"
  unfolding stays_def failing_with_def by (auto split: prod.splits sum.splits) (metis snd_conv)+

lemma framed_removeH: "stays framed (removeH H name)"
  unfolding removeH_def by (rule framed_hostA)

lemma framed_run_make: "stays framed (run_make H args)"
  unfolding run_make_def by (rule framed_run)

lemma framed_cleanA: "stays framed (cleanA H J remove)"
  using host.stays_clean [of H J remove] unfolding stays_def cleanA_def
  by (auto split: prod.splits sum.splits) (metis snd_conv)+

lemmas framed_steps = framed_hostA framed_readA framed_stopA framed_run framed_failing_with framed_removeH
  framed_run_make framed_cleanA

lemma framed_fields:
  "framed (s, w) (s\<lparr>sv_tag := t\<rparr>, w')" "framed (s, w) (s\<lparr>sv_port := p\<rparr>, w')"
  "framed (s, w) (s\<lparr>sv_forward := f\<rparr>, w')" "framed (s, w) (s\<lparr>sv_results := Map.empty\<rparr>, w')"
  "framed (s, w) (forward_ended pid s, w')"
  by (simp_all add: framed_def forward_ended_def)

lemma framed_connect_loop: "stays framed (connect_loop H pid port n)"
  by (induction n) (auto intro!: framed_steps framed_server framed_fields framed_refl split: poll_result.split)

lemma framed_build_targets: "stays framed (build_targets H ts)"
  by (induction ts) (auto intro!: framed_steps framed_server framed_fields split: sum.split)

lemma framed_execute: "stays framed (execute H J r)"
  unfolding execute_def Let_def execute_check_def execute_build_def execute_deploy_def execute_cleanup_def connect_def
  by (auto intro!: framed_steps framed_server framed_fields framed_Write framed_connect_loop framed_build_targets
      split: option.split temp_result.split simp del: build_targets.simps)

section \<open>The state of the machine\<close>

definition acceptable :: "action_request \<Rightarrow> bool" where
  "acceptable a \<longleftrightarrow> ar_Action a \<in> set allowed_actions
     \<and> (ar_Action a \<in> {''cleanup'', ''remove-environment''} \<longrightarrow> ar_Confirmation a = cleanupConfirmation (ar_Action a))
     \<and> 0 \<le> ar_Streamers a \<and> ar_Streamers a \<le> 10 \<and> 0 \<le> ar_Collectors a \<and> ar_Collectors a \<le> 10"

text \<open>
  The phase, the cancel function and the results agree with what runs: nothing, or an acceptable
  action, the only one whose result is \<^verbatim>\<open>running\<close>.
\<close>

definition console_ok :: "string \<Rightarrow> string \<Rightarrow> console \<Rightarrow> action_request option \<Rightarrow> bool" where
  "console_ok token addr s running \<longleftrightarrow>
     sv_token s = token \<and> sv_host s = addr \<and> length (sv_log s) \<le> log_limit
     \<and> (sv_phase s = ''running'' \<longleftrightarrow> running \<noteq> None) \<and> (sv_cancel s \<longleftrightarrow> running \<noteq> None)
     \<and> (\<forall>a. running = Some a \<longrightarrow> acceptable a \<and> sv_action s = ar_Action a)
     \<and> (\<forall>k. sv_results s k = Some ''running'' \<longrightarrow> running \<noteq> None \<and> k = sv_action s)"

lemma change_root_ok:
  "change_root H a s w = Inr s1 \<Longrightarrow> console_ok token addr s running \<Longrightarrow> console_ok token addr s1 running"
  by (auto simp: change_root_def console_ok_def split: if_splits sum.splits)

lemma begin_action_ok:
  "console_ok token addr s None \<Longrightarrow> acceptable a \<Longrightarrow> console_ok token addr (begin_action a s) (Some a)"
  by (auto simp: begin_action_def console_ok_def)

lemma start_action_cases:
  assumes "start_action H a s w = (reply, s', w', started)"
  obtains "started = None" "s' = s"
  | s1 where "started = Some a" "reply = Code 202" "sv_phase s \<noteq> ''running''" "acceptable a"
      "change_root H a s w = Inr s1" "s' = begin_action a s1"
  using assms unfolding start_action_def acceptable_def
  by (auto split: if_split_asm sum.split_asm)

lemma start_action_ok:
  assumes ok: "console_ok token addr s running" and "start_action H a s w = (reply, s', w', started)"
  shows "console_ok token addr s' (case started of None \<Rightarrow> running | Some a \<Rightarrow> Some a)
    \<and> (started = None \<longrightarrow> s' = s)
    \<and> (started \<noteq> None \<longrightarrow> started = Some a \<and> acceptable a \<and> reply = Code 202 \<and> running = None)"
  using assms(2)
proof (cases rule: start_action_cases)
  case 1
  then show ?thesis using ok by simp
next
  case (2 s1)
  then have "running = None" using ok by (simp add: console_ok_def)
  then show ?thesis using 2 ok change_root_ok [OF 2(5)] by (simp add: begin_action_ok)
qed

lemma api_start:
  assumes "api H r s w = (reply, s', w', started)"
  shows "s' = s \<and> started = None
    \<or> authorized s r \<and> (\<exists>a. hr_body r = Some a \<and> start_action H a s w = (reply, s', w', started))"
  using assms by (auto simp: api_def split: if_splits option.splits prod.splits)

lemma api_refused:
  "api H r s w = (reply, s', w', started) \<Longrightarrow> \<not> authorized s r \<Longrightarrow>
     reply = Code 403 \<and> s' = s \<and> w' = w \<and> started = None"
  by (simp add: api_def)

lemma api_cases:
  assumes ok: "console_ok token addr s running" and api: "api H r s w = (reply, s', w', started)"
  shows "console_ok token addr s' (case started of None \<Rightarrow> running | Some a \<Rightarrow> Some a)
    \<and> (started = None \<longrightarrow> s' = s)
    \<and> (\<forall>a. started = Some a \<longrightarrow> authorized s r \<and> hr_body r = Some a \<and> acceptable a \<and> reply = Code 202 \<and> running = None)"
  using api_start [OF api]
proof (elim disjE conjE exE)
  assume "s' = s" "started = None"
  then show ?thesis using ok by simp
next
  fix a
  assume "authorized s r" "hr_body r = Some a" "start_action H a s w = (reply, s', w', started)"
  then show ?thesis using start_action_ok [OF ok, of H a w reply s' w' started] by auto
qed

lemma run_action_ok:
  assumes "console_ok token addr s (Some a)" and "run_action H J msg a (s, w) = (s', w')"
  shows "console_ok token addr s' None"
proof -
  obtain result s1 w1 where exec: "execute H J a (s, w) = (result, s1, w1)" by (metis prod_cases3)
  from staysD [OF framed_execute exec] have "framed (s, w) (s1, w1)" .
  moreover from assms(2) exec obtain m where "s' = finish_action a result m s1"
    by (auto simp: run_action_def)
  ultimately show ?thesis
    using assms(1) length_Write [of m s1]
    by (auto simp: console_ok_def finish_action_def framed_def Let_def Write_def map_le_def dom_def split: sum.splits if_splits)
qed

lemma console_step_ok:
  assumes "console_step H J msg m m'" and "console_ok token addr (mc_server m) (mc_running m)"
  shows "console_ok token addr (mc_server m') (mc_running m')"
  using assms
proof (cases rule: console_step.cases)
  case (request r reply s w started)
  then show ?thesis using api_cases [OF assms(2) request(2)] by simp
next
  case (action a s w)
  then show ?thesis using run_action_ok [of token addr "mc_server m" a H J msg "mc_world m" s w] assms(2) by simp
qed (use assms(2) in \<open>auto simp: console_ok_def forward_ended_def\<close>)

definition console_start :: "'o host \<Rightarrow> string \<Rightarrow> string \<Rightarrow> bytes \<Rightarrow> 'o \<Rightarrow> 'o machine" where
  "console_start H dir addr b w = \<lparr>mc_server = console_init H dir addr b w, mc_world = w, mc_running = None\<rparr>"

lemma console_start_ok:
  "console_ok (hex_encode b) addr (mc_server (console_start H dir addr b w)) (mc_running (console_start H dir addr b w))"
  by (simp add: console_start_def console_init_def console_ok_def log_limit_def)

lemma console_reachable_ok:
  assumes "(console_step H J msg)\<^sup>*\<^sup>* (console_start H dir addr b w) m"
  shows "console_ok (hex_encode b) addr (mc_server m) (mc_running m)"
  using assms by (induction rule: rtranclp_induct) (auto intro: console_start_ok console_step_ok)

text \<open>
  C40: the console runs one operation at a time, and only for its own page. In every state it can
  reach, its phase, its cancel function and its results agree with the one action that runs, if
  any, and the log stays bounded; a request without the token, or from another host or origin, is
  answered 403 and changes nothing; an action is started only by an authorized request while none
  runs, with the confirmation typed when it deletes anything, and no request changes the state of
  the server in another way.
\<close>

theorem console_exclusive:
  assumes "(console_step H J msg)\<^sup>*\<^sup>* (console_start H dir addr b w) m"
  shows "console_ok (hex_encode b) addr (mc_server m) (mc_running m)
    \<and> (\<forall>r reply s w' started. api H r (mc_server m) (mc_world m) = (reply, s, w', started) \<longrightarrow>
         (if \<not> (hr_host r = addr \<and> hr_origin r \<in> {[], ''http://'' @ addr} \<and> hr_token r = hex_encode b)
          then reply = Code 403 \<and> s = mc_server m \<and> w' = mc_world m \<and> started = None
          else (started = None \<longrightarrow> s = mc_server m)
            \<and> (\<forall>a. started = Some a \<longrightarrow> mc_running m = None \<and> hr_body r = Some a \<and> acceptable a \<and> reply = Code 202)))"
proof (intro conjI allI impI)
  from console_reachable_ok [OF assms]
  show ok: "console_ok (hex_encode b) addr (mc_server m) (mc_running m)" .
  fix r reply s w' started
  assume api: "api H r (mc_server m) (mc_world m) = (reply, s, w', started)"
  have auth: "authorized (mc_server m) r \<longleftrightarrow>
      hr_host r = addr \<and> hr_origin r \<in> {[], ''http://'' @ addr} \<and> hr_token r = hex_encode b"
    using ok by (auto simp: authorized_def console_ok_def)
  show "if \<not> (hr_host r = addr \<and> hr_origin r \<in> {[], ''http://'' @ addr} \<and> hr_token r = hex_encode b)
          then reply = Code 403 \<and> s = mc_server m \<and> w' = mc_world m \<and> started = None
          else (started = None \<longrightarrow> s = mc_server m)
            \<and> (\<forall>a. started = Some a \<longrightarrow> mc_running m = None \<and> hr_body r = Some a \<and> acceptable a \<and> reply = Code 202)"
    using api_refused [OF api] api_cases [OF ok api] unfolding auth by simp
qed

text \<open>A console whose host runs every command without output.\<close>

definition demo_host :: "unit host" where
  "demo_host = \<lparr>ho_os = ''darwin'', ho_arch = ''arm64'', ho_is_file = (\<lambda>d p w. True), ho_read_tag = (\<lambda>d w. None),
     ho_make_work = (\<lambda>d w. (True, w)), ho_write_tag = (\<lambda>d t w. (True, w)), ho_remove_tag = (\<lambda>d w. (True, w)),
     ho_stamp = (\<lambda>w. ''20250718-204234''), ho_ended = (\<lambda>x w. False), ho_cancel = (\<lambda>w. w),
     ho_exec = (\<lambda>x d env name args w. (Exited [] True, w)), ho_free_port = (\<lambda>w. (Some 40000, w)),
     ho_start = (\<lambda>name args w. (Some 1, w)), ho_kill = (\<lambda>pid w. w), ho_poll = (\<lambda>port w. (Polled False True, w)),
     ho_values = (\<lambda>d w. (No_temp, w)), ho_probe = (\<lambda>d w. (No_temp, w)), ho_remove = (\<lambda>name w. w),
     ho_random = (\<lambda>n w. (None, w)), ho_get = (\<lambda>port path query w. (None, w))\<rparr>"

definition demo_action :: action_request where
  "demo_action = \<lparr>ar_Confirmation = ''DELETE gpu-telemetry'', ar_Action = ''cleanup'', ar_Root = [],
     ar_Streamers = 0, ar_Collectors = 0\<rparr>"

definition demo_post :: http_request where
  "demo_post = \<lparr>hr_host = ''127.0.0.1:80'', hr_origin = [], hr_token = [], hr_path = ''/control/action'',
     hr_method = ''POST'', hr_query = [], hr_body = Some demo_action\<rparr>"

definition demo_machine :: "unit machine" where
  "demo_machine = console_start demo_host ''/repo'' ''127.0.0.1:80'' [] ()"

lemma demo_started:
  "api demo_host demo_post (mc_server demo_machine) () =
     (Code 202, begin_action demo_action (mc_server demo_machine), (), Some demo_action)"
  by (simp add: api_def authorized_def start_action_def change_root_def demo_post_def demo_action_def demo_machine_def
    console_start_def console_init_def hex_encode_def allowed_actions_def cleanupConfirmation_def)

theorem console_exclusive_witness:
  "\<exists>m. (console_step demo_host demo_kube (\<lambda>_. []))\<^sup>*\<^sup>* demo_machine m \<and> mc_running m = Some demo_action
     \<and> console_ok [] ''127.0.0.1:80'' (mc_server m) (mc_running m) \<and> sv_phase (mc_server m) = ''running''"
proof -
  let ?m = "\<lparr>mc_server = begin_action demo_action (mc_server demo_machine), mc_world = (),
    mc_running = Some demo_action\<rparr>"
  have "console_step demo_host demo_kube (\<lambda>_. []) demo_machine ?m"
    using console_step.request [of demo_host demo_post demo_machine, where J = demo_kube and msg = "\<lambda>_. []"]
    by (simp add: demo_started)
  then have steps: "(console_step demo_host demo_kube (\<lambda>_. []))\<^sup>*\<^sup>* demo_machine ?m" by blast
  have "console_ok (hex_encode []) ''127.0.0.1:80'' (mc_server ?m) (mc_running ?m)"
    unfolding demo_machine_def using conjunct1 [OF console_exclusive [OF steps [unfolded demo_machine_def]]] .
  then show ?thesis using steps by (auto simp: hex_encode_def console_ok_def)
qed

section \<open>The telemetry request\<close>

lemma hex_value_upper: "n < 16 \<Longrightarrow> hex_value (upper_hex n) = Some n"
proof -
  have "\<forall>n \<in> set [0..<16]. hex_value (upper_hex n) = Some n" by code_simp
  then show "n < 16 \<Longrightarrow> hex_value (upper_hex n) = Some n" by simp
qed

lemma upper_hex_plain: "n < 16 \<Longrightarrow> unreserved (upper_hex n)"
proof -
  have "\<forall>n \<in> set [0..<16]. unreserved (upper_hex n)" by code_simp
  then show "n < 16 \<Longrightarrow> unreserved (upper_hex n)" by simp
qed

lemma reserved_chars: "\<not> unreserved CHR ''%''" "\<not> unreserved CHR ''+''" "\<not> unreserved CHR ''&''"
  "\<not> unreserved CHR '';''" "\<not> unreserved CHR ''=''"
  by code_simp+

lemma hex_digits_char:
  "(of_char c :: nat) div 16 < 16" "(of_char c :: nat) mod 16 < 16"
  "char_of (16 * ((of_char c :: nat) div 16) + of_char c mod 16) = c"
proof -
  have "(of_char c :: nat) < 16 * 16" using nat_of_char_less_256 [of c] by simp
  then show "(of_char c :: nat) div 16 < 16" by (rule less_mult_imp_div_less)
qed simp_all

lemma QueryUnescape_percent: "QueryUnescape (percent c @ s) = map_option ((#) c) (QueryUnescape s)"
  using hex_digits_char [of c] by (simp add: percent_def hex_value_upper)

lemma QueryUnescape_escape: "QueryUnescape (QueryEscape s) = Some s"
proof (induction s)
  case (Cons c s)
  have "QueryEscape (c # s) = (if unreserved c then [c] else if c = CHR '' '' then ''+'' else percent c) @ QueryEscape s"
    by (simp add: QueryEscape_def)
  then show ?case
    using Cons reserved_chars by (auto simp: QueryUnescape_percent)
qed (simp add: QueryEscape_def)

lemma QueryEscape_chars: "c \<in> set (QueryEscape s) \<Longrightarrow> unreserved c \<or> c = CHR ''%'' \<or> c = CHR ''+''"
  by (auto simp: QueryEscape_def percent_def upper_hex_plain hex_digits_char split: if_splits)

lemma QueryEscape_plain: "CHR ''&'' \<notin> set (QueryEscape s)" "CHR '';'' \<notin> set (QueryEscape s)" "CHR ''='' \<notin> set (QueryEscape s)"
  using QueryEscape_chars [of _ s] reserved_chars by auto

lemma query_pair_escape: "query_pair (QueryEscape k @ ''='' @ QueryEscape v) = Some (k, v)"
proof -
  have "takeWhile (\<lambda>c. c \<noteq> CHR ''='') (QueryEscape k @ ''='' @ QueryEscape v) = QueryEscape k"
    "dropWhile (\<lambda>c. c \<noteq> CHR ''='') (QueryEscape k @ ''='' @ QueryEscape v) = CHR ''='' # QueryEscape v"
    using QueryEscape_plain(3) [of k] by (subst takeWhile_append2 dropWhile_append2; force)+
  then show ?thesis
    using QueryEscape_plain(2) by (simp add: query_pair_def cut_def QueryUnescape_escape)
qed

lemma pieces_one: "sep \<notin> set xs \<Longrightarrow> pieces sep acc xs = [rev acc @ xs]"
  by (induction xs arbitrary: acc) auto

lemma pieces_more: "sep \<notin> set xs \<Longrightarrow> pieces sep acc (xs @ sep # ys) = (rev acc @ xs) # pieces sep [] ys"
  by (induction xs arbitrary: acc) auto

text \<open>What \<open>encode_query\<close> prints, \<open>ParseQuery\<close> reads back.\<close>

lemma ParseQuery_encode: "ParseQuery (encode_query kvs) = Some kvs"
proof -
  have plain: "CHR ''&'' \<notin> set (QueryEscape k @ ''='' @ QueryEscape v)" for k v
    using QueryEscape_plain(1) by simp
  have "kvs \<noteq> [] \<Longrightarrow> pieces CHR ''&'' [] (encode_query kvs) = map (\<lambda>(k, v). QueryEscape k @ ''='' @ QueryEscape v) kvs"
    using plain pieces_more [OF plain]
    by (induction kvs rule: encode_query.induct) (simp_all add: pieces_one)
  then have "filter (\<lambda>p. p \<noteq> []) (pieces CHR ''&'' [] (encode_query kvs)) = map (\<lambda>(k, v). QueryEscape k @ ''='' @ QueryEscape v) kvs"
    by (cases "kvs = []") (auto simp: filter_id_conv)
  then show ?thesis
    using query_pair_escape
    by (simp add: ParseQuery_def list_all_iff map_filter_def split_beta o_def)
qed

text \<open>
  The API reads the console's telemetry request as it was meant. Whatever bytes the page sent as
  the bounds of the range, after the console has decoded them, left out the empty ones and encoded
  them again, the query parser of the API finds exactly these settings.
\<close>

theorem telemetry_query_read:
  "ParseQuery (telemetry_query raw) = Some (filter (\<lambda>(k, v). v \<noteq> [])
     [(''end_time'', query_get raw ''end_time''), (''start_time'', query_get raw ''start_time'')])"
  by (simp only: telemetry_query_def ParseQuery_encode)

end
