(* ===== verification/Console_Main.thy ===== *)
theory Console_Main
  imports Console
begin

text \<open>
  console/main.go: the program around the console's server, from its flags to the signal that ends
  it. Flags, the place of the executable, random bytes, the port and the browser are inputs.
\<close>

record 'o console_in =
  ki_root :: string
  ki_noOpen :: bool
  ki_home :: string
  ki_abs :: "string \<Rightarrow> string option"
  ki_random :: "bytes option"
  ki_listen :: "string option"
  ki_browser :: "string \<Rightarrow> 'o \<Rightarrow> 'o"
  ki_serving :: "'o machine \<Rightarrow> 'o machine"

text \<open>\<open>ki_home\<close> is the directory above that of the executable, the default of the flag \<^verbatim>\<open>root\<close>.\<close>

definition console_root :: "'o console_in \<Rightarrow> string" where
  "console_root i = (if ki_root i = [] then ki_home i else ki_root i)"

definition console_address :: "console \<Rightarrow> string" where
  "console_address s = ''http://'' @ sv_host s @ ''/#'' @ sv_token s"

text \<open>What \<^verbatim>\<open>main\<close> leaves: it panicked before it served anything, or it ended with a signal.\<close>

datatype 'o console_exit = Panicked | Quit "string list" console 'o

definition console_main :: "'o host \<Rightarrow> 'o console_in \<Rightarrow> 'o \<Rightarrow> 'o console_exit" where
  "console_main H i w = (case ki_abs i (console_root i) of
     None \<Rightarrow> Panicked
   | Some dir \<Rightarrow>
       (case ki_random i of
          None \<Rightarrow> Panicked
        | Some b \<Rightarrow>
            (case ki_listen i of
               None \<Rightarrow> Panicked
             | Some addr \<Rightarrow>
                 let s = console_init H dir addr b w;
                     lines = [''GPU Telemetry Console: '' @ console_address s,
                       ''Press Ctrl-C to quit the console. Cluster workloads will keep running.''];
                     w1 = (if ki_noOpen i then w else ki_browser i (console_address s) w);
                     m = ki_serving i \<lparr>mc_server = s, mc_world = w1, mc_running = None\<rparr> in
                 (case shutdown H (mc_server m, mc_world m) of (s', w') \<Rightarrow> Quit lines s' w'))))"

text \<open>
  At the end no port-forward is left, the action still running has been canceled, and nothing else
  was done to the outside; the root the requests changed and the log stay as they were.
\<close>

lemma console_quits:
  assumes "console_main H i w = Quit lines s w'"
  obtains dir b addr m where "ki_abs i (console_root i) = Some dir" and "ki_random i = Some b"
    and "ki_listen i = Some addr"
    and "m = ki_serving i \<lparr>mc_server = console_init H dir addr b w,
      mc_world = (if ki_noOpen i then w else ki_browser i (console_address (console_init H dir addr b w)) w),
      mc_running = None\<rparr>"
    and "s = (mc_server m)\<lparr>sv_forward := None, sv_port := 0\<rparr>"
    and "w' = (let w1 = (if sv_cancel (mc_server m) then ho_cancel H (mc_world m) else mc_world m) in
      case sv_forward (mc_server m) of None \<Rightarrow> w1 | Some pid \<Rightarrow> ho_kill H pid w1)"
  using assms
  by (auto simp: console_main_def Let_def shutdown_def stopForward_def split: option.splits)

end
