(* ===== verification/Spec2Isabelle.thy ===== *)
theory Spec2Isabelle
  imports Durable_Outcomes Collector_Solo Collector_Safety Api_Load Services_Safety Console_Main
begin

text \<open>
  GPU telemetry pipeline: a verification library of the Go program under src/.

  The program. A streamer replays CSV rows of GPU measurements, stamps them into events and
  publishes them over HTTP to a queue. The queue is either volatile (a bounded ring in memory)
  or durable (a bbolt database with three indexes). Collectors lease events from the durable
  queue, persist them in PostgreSQL and acknowledge them; a test consumer does the same with a
  text output. A read-only API answers range queries over the stored rows. A migration
  prepares the schema and a configuration package checks flags and environment. A console
  around the binaries drives demonstrations in Kubernetes. The programs under cmd/ connect these
  parts to the operating system.

  The theories, in the order of the program:

    Prelude           byte strings, instants and durations as 64-bit integers, the error monad
    Text              decimal notation
    Telemetry         internal/telemetry/event.go: measurements, events, validation, identifiers
    Queue_Types       internal/queue: wire types, options, records, statistics, errors
    Memory            internal/queue/memory.go: the volatile queue
    Bolt              bbolt, JSON and SHA-256 as the parameter of the durable queue (locale bolt_db)
    Durable           internal/queue/durable.go: every operation of the durable queue
    Durable_Broker    its operations as the steps of a state machine, with crash and restart
    Durable_Spec      what it promises, on the map from identities to records alone
    Durable_Inv, Durable_Steps, Durable_Receipts, Durable_Ops
                      the invariant, the effect of every transaction and its preservation
    Durable_Live      the outcome of every operation when nothing outside fails
    Durable_Example   a concrete database for the witnesses
    Durable_Safety, Durable_Outcomes
                      the properties of the durable queue
    Handlers          internal/queue/http.go, durable_http.go: the HTTP protocol of both queues
    Client            internal/queueclient/client.go: single-attempt client operations
    Storage           internal/storage/postgres: the sink and the readers
    Pool              its pool of connections and the check of the schema version
    Csv, Streamer     internal/streamer: the replaying source and the publishing run
    Collector         internal/collector: persist, then acknowledge; retries, worker, health
    Pipeline          collectors, client, handler, durable queue and store composed in one
                      step relation
    Collector_Run     collector.Run: workers, contexts, shutdown timer and channel of failures as
                      interleaved steps (run_step), with executable schedules (run_events)
    Collector_Solo    begin_work and worker_step are Process cut into steps; the lemma that ties the
                      two forms together
    Collector_Safety  the properties of running collectors
    Api               internal/api/api.go: range queries and prepared responses
    Api_Load          its routes, many requests at the same time, and the transfer of a response
    Testconsumer      internal/testconsumer/run.go
    Migrations        migrations/migrations.go
    Config            internal/config: flags, environment, defaults and checks
    Runner, Cleaner, Cleaner_Safety
                      console/cleanup.go, reclaim.go: removal of the demonstration after an
                      inventory, and recovery of released volumes, on traces of commands
    Console           console/main.go: the server of the demonstration console
    Console_Main      its program, from the flags to the signal that ends it
    Logging           internal/observability/log.go: the level of the logger
    Services          cmd/*/main.go: each program from its command line to its exit status, with the
                      parts of OpenDurable, OpenCSV and Runner.Run that acquire and release
    Services_Safety   the properties of the programs

  How code becomes definitions. A struct is a record and an enumeration or union a datatype,
  with the names of the source. An operation on shared state is a function from the old state
  to the result and the new state; one hold of a mutex or of the broker's gate is one step, and
  the interleaving of goroutines is the order of steps. A Go error is a value of a sum type;
  texts of messages are left out, the distinctions callers make (errors.Is, status codes,
  retryable) are kept. Byte strings are lists of characters with the order of bytes. Integers are
  64-bit words where the code encodes them or relies on their width (sequence numbers and due
  times in index keys), and integers within checked bounds elsewhere. time.Time is the number of
  nanoseconds, time.Duration an integer.

  What an operation reads from outside (clock, random bytes, contexts that end, what the
  network or a timer does) is an explicit input. A loop that waits takes the list of what
  happens in its rounds; the result None says that it is still running when the list ends. So
  the lists are the fuel, one element per round, and the properties about such loops either hold
  for every list or say which list is long enough (lease_ends). All other loops terminate by
  their own measure. In the console the run of an operation is one step between requests.
  collector.Run is a step relation: a step of a worker ends at the next call to the outside,
  check of a context or pause, any worker may take the next step, and a signal, the shutdown
  watch and the clock step in between; load bounds the steps that are left after the shutdown.
  A program under cmd/ is a sequence of steps that may fail, with defer as finallyA and the list
  of what it opened, closed and printed as its trace. Explicit releases besides the deferred ones
  (stop and cancel called again, a database or a file closed on a failing path) are steps of
  their own; a listener is closed when Serve returns, as net/http documents. OpenDurable_run and
  Runner_Run give OpenDurable and Streamer_Run with their resources; OpenDurable_run_result and
  Runner_Run_result say that they compute the same.

  Parameters, for code outside src/: the record of a bbolt transaction with JSON and SHA-256
  (theory Bolt, its documented behaviour in locale bolt_db, interpreted on the database of
  Durable_Example); the wire codec of the client; what encoding/csv returns; time.Parse and the
  syntax of numbers and durations; the collation and timestamp precision of PostgreSQL.
  A transaction of the durable queue whose commit fails leaves the database as it was (update in
  theory Durable): this is what the code and its tests rely on, bbolt does not promise it.

  The hypotheses that recur: the clock does not run past the 64-bit range (clock_ok), sequence
  numbers are not exhausted (seq_left), the JSON wire gives back what was sent, and the temporary
  file of a response takes what is written to it. Each property that has hypotheses is followed
  by a witness that meets them on concrete data.

  What the lemmas show. Durable queue: in every reachable state the indexes, counters and sizes
  are exact and no limit is exceeded; every step is a step of the specification; events move
  along legal phases, are lost only by a timely ACK, are delivered in order of due time and
  sequence, exclusively, with the exact outcome of each operation on every branch. Volatile
  queue: exactly first-in first-out, bounded, deduplicating, with the outcome of a publish on every
  branch. Handlers and client: a success answer is sent exactly when the operation was carried
  out and shows its result, an error answer only for the error of the operation or a malformed
  request, and a success that the client sees is committed. Store: persisting is idempotent, and
  what is stored depends only on the set of events that took effect, but for the moment of their
  insertion (row_content leaves it out). Streamer: each row is published under one
  identity, unchanged on retry, and counted once. Pipeline: whatever fails between collector,
  network, queue and database, an accepted event is still in the queue or its row is committed.
  API: an answer is complete or an error. Migration: once, and only the known script.
  Configuration: what the parsers accept passes the checks of the parts.
  Programs: on every path all that was acquired is released, what must be released once exactly
  once (all_released, released_once; holds is the calculus of what a part of a program owns).
  Console: nothing is removed before the inventory is complete, success means that the removal was
  seen, recovery stays with the project's volumes and its own probe, one confirmed operation runs
  at a time. The cleaner's commands form a trace; \<open>wp\<close> (theory Runner) is the calculus in which
  properties of the trace are proved for every way commands can answer.

  Not modelled. The operation metadata and schemas registered with huma, with the OpenAPI
  document generated from them (the generator takes it as an input); log lines; the static pages
  of the console; the time limits of HTTP servers.
\<close>

section \<open>Accepted configurations\<close>

lemma ParseQueue_ok:
  assumes "ParseQueue S args = Inr q"
  shows "qc_Mode q = ''durable'' \<and> Options_Validate (qc_Durable q) = Inr ()
    \<or> qc_Mode q = ''memory'' \<and> NewMemory (qc_Capacity q) (qc_DedupCapacity q) (qc_DedupTTL q) \<noteq> None"
  using assms
  by (auto simp: ParseQueue_def with_capacities_def NewMemory_def split: if_splits sum.splits)

lemma ParseStreamer_ok:
  assumes "ParseStreamer S args = Inr s"
  shows "\<not> bad_run_options (run_options_of s) \<and> 0 < sc_HTTPTimeout s"
proof -
  have rate: "\<not> f64_le r (Finite 0)" if "\<not> bad_rate r" for r
  proof (cases r)
    case (Finite q)
    then have "rate_floor \<le> q" using that by (simp add: bad_rate_def not_less)
    moreover have "0 < rate_floor" by (simp add: rate_floor_def zero_less_Fract_iff)
    ultimately show ?thesis using Finite by (simp add: f64_le_def)
  qed (use that in \<open>simp_all add: bad_rate_def is_nan_def is_inf_def f64_le_def\<close>)
  show ?thesis
    using assms rate
    by (auto simp: ParseStreamer_def valid_common_def bad_run_options_def run_options_of_def bad_rate_def
        split: if_splits)
qed

lemma ParseCollector_ok:
  assumes "ParseCollector S env args = Inr c"
  shows "\<not> bad_lease_wait \<lparr>c_base = base, c_timeout = cc_HTTPTimeout c\<rparr> (cc_LeaseWait c)
    \<and> 0 < cc_RetryMin c \<and> cc_RetryMin c \<le> cc_RetryMax c \<and> 0 < cc_WorkTimeout c
    \<and> 1 \<le> cc_Workers c \<and> cc_Workers c \<le> 10 \<and> 1 \<le> cc_PoolMax c \<and> cc_PoolMax c \<le> 10"
  using assms
  by (auto simp: ParseCollector_def bad_collector_def bad_lease_wait_def unit_defs split: if_splits)

text \<open>The workers of a collector with an accepted configuration meet what the step relation asks.\<close>

lemma accepted_collector_runs: "ParseCollector S env args = Inr c \<Longrightarrow> run_config_ok c"
  by (auto simp: ParseCollector_def bad_collector_def run_config_ok_def split: if_splits)

lemma ParseConsumer_ok:
  assumes "ParseConsumer S args = Inr t"
  shows "\<not> bad_lease_wait \<lparr>c_base = base, c_timeout = tc_HTTPTimeout t\<rparr> (tc_LeaseWait t)
    \<and> \<not> bad_nack (consumer_nack t eid token)"
  using assms consumer_nack_ok [of t eid token]
  by (auto simp: ParseConsumer_def bad_consumer_def bad_lease_wait_def split: if_splits)

text \<open>
  C29: a configuration that is accepted is one the parts can run with. Every configuration of
  the queue opens: its options pass the check of the durable broker, or the volatile queue
  accepts its capacities. The streamer's options pass the check of its run, with a rate that
  gives a positive interval. Collector and test consumer never ask for a lease wait the client
  refuses, the collector's backoff stays between its bounds whatever the number of failures,
  and the test consumer's NACK is never malformed.
\<close>

theorem accepted_config_runs:
  "(ParseQueue S args = Inr q \<longrightarrow>
      qc_Mode q = ''durable'' \<and> Options_Validate (qc_Durable q) = Inr ()
      \<or> qc_Mode q = ''memory'' \<and> NewMemory (qc_Capacity q) (qc_DedupCapacity q) (qc_DedupTTL q) \<noteq> None)
   \<and> (ParseStreamer S args = Inr s \<longrightarrow> \<not> bad_run_options (run_options_of s) \<and> 0 < sc_HTTPTimeout s
        \<and> 1000 \<le> interval (sc_Rate s))
   \<and> (ParseCollector S env args = Inr c \<longrightarrow>
        \<not> bad_lease_wait \<lparr>c_base = base, c_timeout = cc_HTTPTimeout c\<rparr> (cc_LeaseWait c)
        \<and> 1 \<le> cc_PoolMax c \<and> cc_PoolMax c \<le> 10
        \<and> cc_RetryMin c \<le> ((\<lambda>x. backoff x (cc_RetryMax c)) ^^ n) (cc_RetryMin c)
        \<and> ((\<lambda>x. backoff x (cc_RetryMax c)) ^^ n) (cc_RetryMin c) \<le> cc_RetryMax c)
   \<and> (ParseConsumer S args = Inr t \<longrightarrow>
        \<not> bad_lease_wait \<lparr>c_base = base, c_timeout = tc_HTTPTimeout t\<rparr> (tc_LeaseWait t)
        \<and> \<not> bad_nack (consumer_nack t eid token))"
proof (intro conjI impI)
  assume "ParseQueue S args = Inr q"
  then show "qc_Mode q = ''durable'' \<and> Options_Validate (qc_Durable q) = Inr ()
      \<or> qc_Mode q = ''memory'' \<and> NewMemory (qc_Capacity q) (qc_DedupCapacity q) (qc_DedupTTL q) \<noteq> None"
    by (rule ParseQueue_ok)
next
  assume s: "ParseStreamer S args = Inr s"
  from ParseStreamer_ok [OF s] show "\<not> bad_run_options (run_options_of s)" and "0 < sc_HTTPTimeout s" by blast+
  with interval_bounds [of "run_options_of s"] show "1000 \<le> interval (sc_Rate s)"
    by (simp add: run_options_of_def)
next
  assume "ParseCollector S env args = Inr c"
  from ParseCollector_ok [OF this, of base]
  show "\<not> bad_lease_wait \<lparr>c_base = base, c_timeout = cc_HTTPTimeout c\<rparr> (cc_LeaseWait c)"
    and "1 \<le> cc_PoolMax c" and "cc_PoolMax c \<le> 10"
    and "cc_RetryMin c \<le> ((\<lambda>x. backoff x (cc_RetryMax c)) ^^ n) (cc_RetryMin c)"
    and "((\<lambda>x. backoff x (cc_RetryMax c)) ^^ n) (cc_RetryMin c) \<le> cc_RetryMax c"
    using backoff_range [of "cc_RetryMin c" "cc_RetryMax c" n] by auto
next
  assume "ParseConsumer S args = Inr t"
  from ParseConsumer_ok [OF this, of base eid token]
  show "\<not> bad_lease_wait \<lparr>c_base = base, c_timeout = tc_HTTPTimeout t\<rparr> (tc_LeaseWait t)"
    and "\<not> bad_nack (consumer_nack t eid token)" by blast+
qed

definition demo_values :: value_syntax where
  "demo_values = \<lparr>vs_int = (\<lambda>s. Some 5), vs_uint = (\<lambda>s. Some 1), vs_float = (\<lambda>s. Some (Finite 1)),
     vs_duration = (\<lambda>s. Some (2 * Second))\<rparr>"

theorem accepted_config_runs_witness:
  "\<exists>c. ParseCollector demo_values [''COLLECTOR_DATABASE_URL'' \<mapsto> ''db''] [''-workers=5'', ''--lease-wait'', ''2s''] = Inr c
     \<and> cc_Workers c = 5 \<and> \<not> bad_lease_wait \<lparr>c_base = [], c_timeout = cc_HTTPTimeout c\<rparr> (cc_LeaseWait c)"
proof -
  let ?r = "ParseCollector demo_values [''COLLECTOR_DATABASE_URL'' \<mapsto> ''db''] [''-workers=5'', ''--lease-wait'', ''2s'']"
  have "(case ?r of Inr c \<Rightarrow> cc_Workers c = 5 | Inl _ \<Rightarrow> False)" by code_simp
  then obtain c where c: "?r = Inr c" "cc_Workers c = 5" by (cases ?r) auto
  then show ?thesis
    using accepted_config_runs [of demo_values "[''-workers=5'', ''--lease-wait'', ''2s'']" undefined undefined
        "[''COLLECTOR_DATABASE_URL'' \<mapsto> ''db'']" c "[]"] by blast
qed

end
